(* ===== verification/Rust_Prelude.thy ===== *)
theory Rust_Prelude
  imports Main "HOL-Library.Word"
begin

text \<open>
  What the development needs of the Rust language and its standard library:
  panics as values, slices and \<open>copy_from_slice\<close>, little-endian encodings of
  the machine integers, the \<open>as usize\<close> cast with 64-bit wrap-around, and the
  generic lemmas on lists and words that the component theories share.
  Integers are those of the release profile (no overflow checks, so they wrap)
  on the 64-bit targets the program is built for.
\<close>

unbundle bit_operations_syntax

named_theorems rust_defs \<open>definitions of the Rust primitives\<close>
named_theorems panic_free \<open>operations that return\<close>

type_synonym byte = "8 word"
type_synonym u16 = "16 word"
type_synonym u32 = "32 word"
type_synonym u64 = "64 word"
type_synonym u128 = "128 word"
type_synonym i32 = "32 word"

section \<open>Panics\<close>

datatype panic = Slice_Index | Unwrap_None | Div_By_Zero | Capacity_Overflow

type_synonym 'a rust = "panic + 'a"

definition rbind :: "'e + 'a \<Rightarrow> ('a \<Rightarrow> 'e + 'b) \<Rightarrow> 'e + 'b" where
  "rbind m f = (case m of Inl e \<Rightarrow> Inl e | Inr x \<Rightarrow> f x)"

lemma rbind_simps [simp]:
  "rbind (Inl e) f = Inl e"
  "rbind (Inr x) f = f x"
  by (simp_all add: rbind_def)

lemma rbind_eq_Inr: "rbind m f = Inr y \<longleftrightarrow> (\<exists>x. m = Inr x \<and> f x = Inr y)"
  by (cases m) auto

lemma rbind_cong [fundef_cong]:
  "m = m' \<Longrightarrow> (\<And>x. m' = Inr x \<Longrightarrow> f x = f' x) \<Longrightarrow> rbind m f = rbind m' f'"
  by (cases m') auto

abbreviation returns :: "'e + 'a \<Rightarrow> bool" where
  "returns m \<equiv> (\<exists>x. m = Inr x)"

section \<open>Slices\<close>

definition slice :: "nat \<Rightarrow> nat \<Rightarrow> 'a list \<Rightarrow> 'a list rust" where
  "slice a b xs = (if a \<le> b \<and> b \<le> length xs then Inr (take (b - a) (drop a xs)) else Inl Slice_Index)"

definition index :: "nat \<Rightarrow> 'a list \<Rightarrow> 'a rust" where
  "index i xs = (if i < length xs then Inr (xs ! i) else Inl Slice_Index)"

definition blit :: "nat \<Rightarrow> 'a list \<Rightarrow> 'a list \<Rightarrow> 'a list" where
  "blit off src dst = take off dst @ src @ drop (off + length src) dst"

definition store :: "nat \<Rightarrow> 'a list \<Rightarrow> 'a list \<Rightarrow> 'a list rust" where
  "store off src dst = (if off + length src \<le> length dst then Inr (blit off src dst) else Inl Slice_Index)"

lemma slice_ok [panic_free]:
  "a \<le> b \<Longrightarrow> b \<le> length xs \<Longrightarrow> slice a b xs = Inr (take (b - a) (drop a xs))"
  by (simp add: slice_def)

lemma slice_Inr_iff: "slice a b xs = Inr ys \<longleftrightarrow> a \<le> b \<and> b \<le> length xs \<and> ys = take (b - a) (drop a xs)"
  by (auto simp: slice_def)

lemma index_ok [panic_free]: "i < length xs \<Longrightarrow> index i xs = Inr (xs ! i)"
  by (simp add: index_def)

lemma store_ok [panic_free]:
  "off + length src \<le> length dst \<Longrightarrow> store off src dst = Inr (blit off src dst)"
  by (simp add: store_def)

lemma store_Inr_iff: "store off src dst = Inr d \<longleftrightarrow> off + length src \<le> length dst \<and> d = blit off src dst"
  by (auto simp: store_def)

lemma length_blit [simp]: "off + length src \<le> length dst \<Longrightarrow> length (blit off src dst) = length dst"
  by (simp add: blit_def)

lemma nth_blit:
  assumes "off + length src \<le> length dst" "i < length dst"
  shows "blit off src dst ! i = (if off \<le> i \<and> i < off + length src then src ! (i - off) else dst ! i)"
  using assms by (auto simp: blit_def nth_append min_def)

lemma take_blit_0 [simp]: "take (length src) (blit 0 src dst) = src"
  by (simp add: blit_def)

lemma drop_blit_0 [simp]: "drop (length src) (blit 0 src dst) = drop (length src) dst"
  by (simp add: blit_def)

lemma blit_window:
  "off + length src \<le> length dst \<Longrightarrow> take (length src) (drop off (blit off src dst)) = src"
  by (simp add: blit_def min_def)

lemma blit_frame_before:
  "off + length src \<le> length dst \<Longrightarrow> a + n \<le> off \<Longrightarrow>
   take n (drop a (blit off src dst)) = take n (drop a dst)"
  by (rule nth_equalityI) (auto simp: nth_blit)

lemma blit_frame_after:
  "off + length src \<le> length dst \<Longrightarrow> off + length src \<le> a \<Longrightarrow>
   take n (drop a (blit off src dst)) = take n (drop a dst)"
  by (rule nth_equalityI) (auto simp: nth_blit)

lemma blit_single [simp]: "i < length xs \<Longrightarrow> blit i [x] xs = xs[i := x]"
  by (simp add: blit_def upd_conv_take_nth_drop)

lemma blit_Nil [simp]: "blit off [] dst = dst"
  by (simp add: blit_def)

section \<open>Little-endian integers\<close>

primrec le_bytes :: "nat \<Rightarrow> 'a::len word \<Rightarrow> byte list" where
  "le_bytes 0 w = []"
| "le_bytes (Suc n) w = ucast w # le_bytes n (drop_bit 8 w)"

primrec of_le :: "byte list \<Rightarrow> 'a::len word" where
  "of_le [] = 0"
| "of_le (b # bs) = ucast b OR push_bit 8 (of_le bs)"

lemma length_le_bytes [simp]: "length (le_bytes n w) = n"
  by (induction n arbitrary: w) auto

lemma bit_byte_iff: "bit (b :: byte) k \<Longrightarrow> k < 8"
  using bit_imp_le_length [of b k] by simp

lemma nth_le_bytes: "i < n \<Longrightarrow> le_bytes n w ! i = ucast (drop_bit (8 * i) w)"
proof (induction n arbitrary: w i)
  case 0
  then show ?case by simp
next
  case (Suc n)
  then show ?case by (cases i) (auto simp: add.commute)
qed

lemma bit_of_le:
  "bit (of_le bs :: 'a::len word) k \<longleftrightarrow>
     k < LENGTH('a) \<and> k div 8 < length bs \<and> bit (bs ! (k div 8)) (k mod 8)"
proof (induction bs arbitrary: k)
  case Nil
  then show ?case by simp
next
  case (Cons b bs)
  show ?case
  proof (cases "k < 8")
    case True
    then show ?thesis by (auto simp: bit_simps dest: bit_imp_le_length)
  next
    case False
    then obtain j where k: "k = 8 + j" using le_Suc_ex not_less by blast
    moreover have "(8 + j) div 8 = Suc (j div 8)" by simp
    ultimately show ?thesis by (auto simp: bit_simps Cons.IH dest: bit_byte_iff)
  qed
qed

lemma of_le_le_bytes_take: "of_le (le_bytes n w) = (take_bit (8 * n) w :: 'a::len word)"
  by (rule bit_word_eqI)
    (auto simp: bit_of_le nth_le_bytes bit_simps less_mult_imp_div_less
      dest: bit_imp_le_length)

lemma of_le_le_bytes [simp]:
  "LENGTH('a) \<le> 8 * n \<Longrightarrow> of_le (le_bytes n w) = (w :: 'a::len word)"
  by (simp add: of_le_le_bytes_take take_bit_word_eq_self)

lemma le_bytes_of_le:
  assumes "8 * length bs \<le> LENGTH('a)"
  shows "le_bytes (length bs) (of_le bs :: 'a::len word) = bs"
proof (rule nth_equalityI)
  fix i assume "i < length (le_bytes (length bs) (of_le bs :: 'a word))"
  then have i: "i < length bs" by simp
  show "le_bytes (length bs) (of_le bs :: 'a word) ! i = bs ! i"
    by (rule bit_word_eqI) (use i assms in \<open>auto simp: nth_le_bytes bit_of_le bit_simps\<close>)
qed simp

lemma of_le_zeros [simp]: "of_le (replicate n 0) = 0"
  by (induction n) auto

lemma unat_of_nat_small: "n < 2 ^ LENGTH('a) \<Longrightarrow> unat (of_nat n :: 'a::len word) = n"
  by (simp add: unat_of_nat)

section \<open>The \<open>usize\<close> arithmetic of the release build\<close>

text \<open>
  Lengths and indices are \<open>nat\<close>. Where a \<open>usize\<close> comes out of an \<open>i32 as usize\<close>
  cast it is sign-extended to 64 bits, and the sums and products the code then
  forms wrap around at \<open>2 ^ 64\<close>.
\<close>

definition usize_of_i32 :: "i32 \<Rightarrow> nat" where
  "usize_of_i32 w = unat (scast w :: u64)"

definition uadd :: "nat \<Rightarrow> nat \<Rightarrow> nat" where
  "uadd a b = (a + b) mod 2 ^ 64"

definition umul :: "nat \<Rightarrow> nat \<Rightarrow> nat" where
  "umul a b = (a * b) mod 2 ^ 64"

lemma uadd_eq [simp]: "a + b < 2 ^ 64 \<Longrightarrow> uadd a b = a + b"
  by (simp add: uadd_def)

lemma umul_eq [simp]: "a * b < 2 ^ 64 \<Longrightarrow> umul a b = a * b"
  by (simp add: umul_def)

lemma usize_of_i32_alt: "int (usize_of_i32 w) = sint w mod 2 ^ 64"
  unfolding usize_of_i32_def uint_nat [symmetric] scast_eq by (simp only: uint_word_of_int) simp

lemma usize_of_i32_nonneg: "0 \<le> sint w \<Longrightarrow> usize_of_i32 w = nat (sint w)"
  using usize_of_i32_alt [of w] sint_lt [of w] by simp

lemma usize_of_i32_lt: "0 \<le> sint w \<Longrightarrow> usize_of_i32 w < 2 ^ 31"
  using sint_lt [of w] by (simp add: usize_of_i32_nonneg nat_less_iff)

lemma usize_of_i32_neg: "sint w < 0 \<Longrightarrow> 2 ^ 64 - 2 ^ 31 \<le> usize_of_i32 w"
proof -
  assume neg: "sint w < 0"
  have "- (2 ^ 31) \<le> sint w" using sint_ge [of w] by simp
  with neg have "(sint w + 2 ^ 64) mod 2 ^ 64 = sint w + 2 ^ 64"
    by (intro mod_pos_pos_trivial) auto
  then have "int (usize_of_i32 w) = sint w + 2 ^ 64"
    by (simp add: usize_of_i32_alt)
  with \<open>- (2 ^ 31) \<le> sint w\<close> show ?thesis by simp
qed

definition div_ceil :: "nat \<Rightarrow> nat \<Rightarrow> nat rust" where
  "div_ceil a b = (if b = 0 then Inl Div_By_Zero else Inr ((a + b - 1) div b))"

lemma div_ceil_ok [panic_free]: "0 < b \<Longrightarrow> div_ceil a b = Inr ((a + b - 1) div b)"
  by (simp add: div_ceil_def)

lemma ceil_div_le_iff: "0 < (b :: nat) \<Longrightarrow> (a + b - 1) div b \<le> k \<longleftrightarrow> a \<le> k * b"
  using div_less_iff_less_mult [of b "a + b - 1" "Suc k"] by (auto simp: less_Suc_eq_le)

section \<open>I/O errors\<close>

datatype io_error = InvalidData | WouldBlock | TimedOut | OtherError

end
