(* ===== verification/Xor_Delta.thy ===== *)
theory Xor_Delta
  imports Rust_Prelude
begin

text \<open>
  \<open>xor_delta\<close> of \<open>protocol.rs\<close>: the 8-byte chunk loop over \<open>u64\<close> values followed
  by the byte loop over the tail, with the slice operations that can panic, and
  its equivalence with the byte-wise exclusive or it stands for. The byte order
  of \<open>from_ne_bytes\<close> is that of the machine, so it is a parameter.
\<close>

section \<open>The routine\<close>

datatype endian = Little | Big

definition from_ne_bytes :: "endian \<Rightarrow> byte list \<Rightarrow> u64" where
  "from_ne_bytes e bs = of_le (case e of Little \<Rightarrow> bs | Big \<Rightarrow> rev bs)"

definition to_ne_bytes :: "endian \<Rightarrow> u64 \<Rightarrow> byte list" where
  "to_ne_bytes e w = (case e of Little \<Rightarrow> le_bytes 8 w | Big \<Rightarrow> rev (le_bytes 8 w))"

definition split_at :: "nat \<Rightarrow> 'a list \<Rightarrow> ('a list \<times> 'a list) rust" where
  "split_at mid xs = (if mid \<le> length xs then Inr (take mid xs, drop mid xs) else Inl Slice_Index)"

fun xor_chunks ::
  "endian \<Rightarrow> byte list \<Rightarrow> byte list \<Rightarrow> nat list \<Rightarrow> byte list \<Rightarrow> byte list rust" where
  "xor_chunks e cur prev [] out = Inr out"
| "xor_chunks e cur prev (i # is) out =
     rbind (slice (i * 8) (i * 8 + 8) cur) (\<lambda>c.
     rbind (slice (i * 8) (i * 8 + 8) prev) (\<lambda>p.
     rbind (store (i * 8) (to_ne_bytes e (from_ne_bytes e c XOR from_ne_bytes e p)) out) (\<lambda>out'.
     xor_chunks e cur prev is out')))"

fun xor_tail :: "byte list \<Rightarrow> byte list \<Rightarrow> nat list \<Rightarrow> byte list \<Rightarrow> byte list rust" where
  "xor_tail cur prev [] out = Inr out"
| "xor_tail cur prev (i # is) out =
     rbind (index i cur) (\<lambda>c.
     rbind (index i prev) (\<lambda>p.
     rbind (store i [c XOR p] out) (\<lambda>out'.
     xor_tail cur prev is out')))"

definition xor_delta :: "endian \<Rightarrow> byte list \<Rightarrow> byte list \<Rightarrow> byte list \<Rightarrow> byte list rust" where
  "xor_delta e current previous output =
     (let len = length current; chunks = len div 8 in
      rbind (split_at (chunks * 8) current) (\<lambda>(cur_chunks, cur_tail).
      rbind (split_at (chunks * 8) previous) (\<lambda>(prev_chunks, prev_tail).
      rbind (split_at (chunks * 8) output) (\<lambda>(out_chunks, out_tail).
      rbind (xor_chunks e cur_chunks prev_chunks [0..<chunks] out_chunks) (\<lambda>out_chunks'.
      rbind (xor_tail cur_tail prev_tail [0..<length cur_tail] out_tail) (\<lambda>out_tail'.
      Inr (out_chunks' @ out_tail')))))))"

section \<open>The byte-wise specification\<close>

definition xor_bytes :: "byte list \<Rightarrow> byte list \<Rightarrow> byte list" where
  "xor_bytes xs ys = map2 (XOR) xs ys"

lemma length_xor_bytes [simp]: "length (xor_bytes xs ys) = min (length xs) (length ys)"
  by (simp add: xor_bytes_def)

lemma nth_xor_bytes [simp]:
  "i < length xs \<Longrightarrow> i < length ys \<Longrightarrow> xor_bytes xs ys ! i = xs ! i XOR ys ! i"
  by (simp add: xor_bytes_def)

lemma xor_bytes_append:
  "length xs = length ys \<Longrightarrow> xor_bytes (xs @ us) (ys @ vs) = xor_bytes xs ys @ xor_bytes us vs"
  by (simp add: xor_bytes_def)

lemma xor_bytes_take: "xor_bytes xs (take (length xs) ys) = xor_bytes xs ys"
  by (rule nth_equalityI) auto

lemma rev_xor_bytes:
  "length xs = length ys \<Longrightarrow> rev (xor_bytes xs ys) = xor_bytes (rev xs) (rev ys)"
  by (simp add: xor_bytes_def zip_rev rev_map)

lemma xor_bytes_cancel: "length xs \<le> length ys \<Longrightarrow> xor_bytes (xor_bytes xs ys) ys = xs"
  by (rule nth_equalityI) (auto simp: xor.assoc)

lemma xor_bytes_zero: "length xs \<le> n \<Longrightarrow> xor_bytes xs (replicate n 0) = xs"
  by (rule nth_equalityI) auto

lemma of_le_xor:
  "length xs = length ys \<Longrightarrow> of_le (xor_bytes xs ys) = (of_le xs XOR of_le ys :: 'a::len word)"
  by (rule bit_word_eqI) (auto simp: bit_of_le bit_simps)

lemma chunk_xor:
  assumes "length c = 8" "length p = 8"
  shows "to_ne_bytes e (from_ne_bytes e c XOR from_ne_bytes e p) = xor_bytes c p"
proof -
  have le: "le_bytes 8 (of_le xs XOR of_le ys :: u64) = xor_bytes xs ys"
    if "length xs = 8" "length ys = 8" for xs ys
    using le_bytes_of_le [of "xor_bytes xs ys", where 'a = 64] that by (simp add: of_le_xor)
  show ?thesis
    using assms by (cases e) (simp_all add: to_ne_bytes_def from_ne_bytes_def le flip: rev_xor_bytes)
qed

section \<open>The loops compute the specification\<close>

lemma xor_chunks_append:
  "xor_chunks e cur prev (is @ js) out =
     rbind (xor_chunks e cur prev is out) (xor_chunks e cur prev js)"
  by (induction "is" arbitrary: out) (auto simp: rbind_def split: sum.splits)

lemma xor_tail_append:
  "xor_tail cur prev (is @ js) out = rbind (xor_tail cur prev is out) (xor_tail cur prev js)"
  by (induction "is" arbitrary: out) (auto simp: rbind_def split: sum.splits)

lemma blit_next:
  assumes "length ys = n" "n + length zs \<le> length out"
  shows "blit n zs (ys @ drop n out) = (ys @ zs) @ drop (n + length zs) out"
  using assms by (simp add: blit_def add.commute)

lemma xor_chunks_spec:
  assumes "k * 8 \<le> length cur" "k * 8 \<le> length prev" "k * 8 \<le> length out"
  shows "xor_chunks e cur prev [0..<k] out =
    Inr (xor_bytes (take (k * 8) cur) (take (k * 8) prev) @ drop (k * 8) out)"
  using assms
proof (induction k)
  case 0
  then show ?case by (simp add: xor_bytes_def)
next
  case (Suc k)
  let ?c = "take 8 (drop (k * 8) cur)" and ?p = "take 8 (drop (k * 8) prev)"
  have split: "take (8 + k * 8) xs = take (k * 8) xs @ take 8 (drop (k * 8) xs)" for xs :: "byte list"
    using take_add [of "k * 8" 8 xs] by (simp add: add.commute)
  have len: "length ?c = 8" "length ?p = 8" using Suc.prems by simp_all
  from Suc show ?case
    by (simp add: xor_chunks_append slice_ok store_ok chunk_xor len blit_next split xor_bytes_append
        add.commute)
qed

lemma xor_tail_spec:
  assumes "k \<le> length cur" "k \<le> length prev" "k \<le> length out"
  shows "xor_tail cur prev [0..<k] out = Inr (xor_bytes (take k cur) (take k prev) @ drop k out)"
  using assms
proof (induction k)
  case 0
  then show ?case by (simp add: xor_bytes_def)
next
  case (Suc k)
  have "xor_bytes (take (Suc k) cur) (take (Suc k) prev) =
      xor_bytes (take k cur) (take k prev) @ [cur ! k XOR prev ! k]"
    using Suc.prems by (simp add: take_Suc_conv_app_nth xor_bytes_append) (simp add: xor_bytes_def)
  with Suc show ?case
    by (simp add: xor_tail_append index_ok store_ok blit_next)
qed

lemma xor_tail_panics:
  assumes "length prev < n \<or> length out < n" "n \<le> length cur"
  shows "xor_tail cur prev [0..<n] out = Inl Slice_Index"
proof -
  let ?k = "min (length prev) (length out)"
  have k: "?k < n" using assms(1) by auto
  then have "[0..<n] = [0..<?k] @ ?k # [Suc ?k..<n]"
    using upt_add_eq_append [of 0 ?k "n - ?k"] by (simp add: upt_conv_Cons)
  moreover have "xor_tail cur prev [0..<?k] out =
      Inr (xor_bytes (take ?k cur) (take ?k prev) @ drop ?k out)"
    using k assms(2) by (intro xor_tail_spec) auto
  ultimately show ?thesis
    using k assms(2)
    by (auto simp: xor_tail_append index_def store_def min_def split: if_splits)
qed

section \<open>Characterisation\<close>

lemma xor_delta_returns:
  assumes "length cur \<le> length prev" "length cur \<le> length out"
  shows "xor_delta e cur prev out = Inr (xor_bytes cur prev @ drop (length cur) out)"
proof -
  let ?k = "length cur div 8 * 8" and ?n = "length cur"
  have k: "?k \<le> ?n" by simp
  have body: "xor_bytes (take ?k cur) (take ?k prev) @ xor_bytes (drop ?k cur) (drop ?k prev) @ zs =
      xor_bytes cur prev @ zs" for zs
    using xor_bytes_append [of "take ?k cur" "take ?k prev" "drop ?k cur" "drop ?k prev"] assms k
    by simp
  have tail: "xor_bytes (drop ?k cur) (take (?n - ?k) (drop ?k prev)) =
      xor_bytes (drop ?k cur) (drop ?k prev)"
    using xor_bytes_take [of "drop ?k cur" "drop ?k prev"] by simp
  have "xor_tail (drop ?k cur) (drop ?k prev) [0..<?n - ?k] (drop ?k out) =
      Inr (xor_bytes (drop ?k cur) (drop ?k prev) @ drop ?n out)"
    using assms k by (subst xor_tail_spec) (simp_all add: tail)
  then show ?thesis
    using order_trans [OF k assms(1)] order_trans [OF k assms(2)]
    by (simp add: xor_delta_def Let_def split_at_def xor_chunks_spec body)
qed

lemma xor_delta_panics:
  assumes "\<not> (length cur \<le> length prev \<and> length cur \<le> length out)"
  shows "xor_delta e cur prev out = Inl Slice_Index"
proof -
  let ?k = "length cur div 8 * 8" and ?n = "length cur"
  show ?thesis
  proof (cases "?k \<le> length prev \<and> ?k \<le> length out")
    case True
    then have "xor_tail (drop ?k cur) (drop ?k prev) [0..<?n - ?k] (drop ?k out) = Inl Slice_Index"
      using assms True by (intro xor_tail_panics) (auto simp: not_le diff_less_mono)
    with True show ?thesis by (simp add: xor_delta_def Let_def split_at_def xor_chunks_spec)
  next
    case False
    then show ?thesis by (auto simp: xor_delta_def Let_def split_at_def)
  qed
qed

text \<open>C17: the chunked routine computes the byte-wise exclusive or of \<open>current\<close> and
  \<open>previous\<close> into the front of \<open>output\<close>, whatever the byte order of the machine, and
  panics exactly when \<open>previous\<close> or \<open>output\<close> is shorter than \<open>current\<close>.\<close>

theorem xor_delta_correct:
  "xor_delta e current previous output =
     (if length current \<le> length previous \<and> length current \<le> length output
      then Inr (map2 (XOR) current previous @ drop (length current) output)
      else Inl Slice_Index)"
  using xor_delta_returns [of current previous "output"]
    xor_delta_panics [of current previous "output"]
  by (simp add: xor_bytes_def)

lemma xor_delta_exact [panic_free]:
  "length current \<le> length previous \<Longrightarrow> length output = length current \<Longrightarrow>
   xor_delta e current previous output = Inr (xor_bytes current previous)"
  by (simp add: xor_delta_returns)

end
