(* ===== verification/Wire_Header.thy ===== *)
theory Wire_Header
  imports Rust_Prelude
begin

text \<open>
  The 24-byte header of \<open>protocol.rs\<close> that precedes every UDP datagram, its
  \<open>repr(C, packed)\<close> little-endian layout, and the constants of the protocol.
\<close>

definition HEADER_SIZE :: nat where
  "HEADER_SIZE = 24"

definition MAX_DATAGRAM_SIZE :: nat where
  "MAX_DATAGRAM_SIZE = 9000"

definition MAX_PAYLOAD_PER_DATAGRAM :: nat where
  "MAX_PAYLOAD_PER_DATAGRAM = MAX_DATAGRAM_SIZE - HEADER_SIZE"

definition MAX_FRAGMENTS :: nat where
  "MAX_FRAGMENTS = 256"

definition DELTA_BIT :: u32 where
  "DELTA_BIT = push_bit 31 1"

definition U32_MAX :: u32 where
  "U32_MAX = - 1"

lemmas wire_consts = HEADER_SIZE_def MAX_DATAGRAM_SIZE_def MAX_PAYLOAD_PER_DATAGRAM_def
  MAX_FRAGMENTS_def

record header =
  hdr_source_us :: u64
  hdr_sequence :: u32
  hdr_payload_size :: u32
  hdr_buf_offset :: u32
  hdr_fragment :: u16
  hdr_fragments :: u16

text \<open>The bytes of the struct (\<open>slice::from_raw_parts\<close> on the packed header).\<close>

definition header_bytes :: "header \<Rightarrow> byte list" where
  "header_bytes h =
     le_bytes 8 (hdr_source_us h) @ le_bytes 4 (hdr_sequence h) @
     le_bytes 4 (hdr_payload_size h) @ le_bytes 4 (hdr_buf_offset h) @
     le_bytes 2 (hdr_fragment h) @ le_bytes 2 (hdr_fragments h)"

text \<open>The struct read back from the front of a datagram (\<open>ptr::read_unaligned\<close>).\<close>

definition read_header :: "byte list \<Rightarrow> header" where
  "read_header bs =
     \<lparr>hdr_source_us = of_le (take 8 bs),
      hdr_sequence = of_le (take 4 (drop 8 bs)),
      hdr_payload_size = of_le (take 4 (drop 12 bs)),
      hdr_buf_offset = of_le (take 4 (drop 16 bs)),
      hdr_fragment = of_le (take 2 (drop 20 bs)),
      hdr_fragments = of_le (take 2 (drop 22 bs))\<rparr>"

lemma length_header_bytes [simp]: "length (header_bytes h) = HEADER_SIZE"
  by (simp add: header_bytes_def wire_consts)

lemma read_header_append [simp]: "read_header (header_bytes h @ rest) = h"
  by (simp add: read_header_def header_bytes_def)

lemma drop_header_append [simp]: "drop HEADER_SIZE (header_bytes h @ rest) = rest"
  by simp

lemma le_field:
  "m + n \<le> length bs \<Longrightarrow> 8 * n \<le> LENGTH('a) \<Longrightarrow>
   le_bytes n (of_le (take n (drop m bs)) :: 'a::len word) = take n (drop m bs)"
  using le_bytes_of_le [of "take n (drop m bs)", where 'a = 'a] by simp

lemma header_bytes_read:
  assumes "HEADER_SIZE \<le> length bs"
  shows "header_bytes (read_header bs) = take HEADER_SIZE bs"
proof -
  have "take 24 bs = take 8 bs @ take 4 (drop 8 bs) @ take 4 (drop 12 bs) @
      take 4 (drop 16 bs) @ take 2 (drop 20 bs) @ take 2 (drop 22 bs)"
    using take_add [of 8 16 bs] take_add [of 4 12 "drop 8 bs"] take_add [of 4 8 "drop 12 bs"]
      take_add [of 4 4 "drop 16 bs"] take_add [of 2 2 "drop 20 bs"]
    by simp
  then show ?thesis
    using assms le_field [of 0 8 bs, where 'a = 64]
    by (simp add: header_bytes_def read_header_def wire_consts le_field)
qed

text \<open>The header layout is a bijection between headers and 24-byte strings: the
  receiver reads back every field the sender wrote, whatever payload follows, and a header
  read from the wire writes the same 24 bytes again.\<close>

lemma header_roundtrip:
  "read_header (header_bytes h @ payload) = h \<and>
   length (header_bytes h) = 24 \<and>
   header_bytes (read_header (take 24 (wire @ replicate 24 0))) = take 24 (wire @ replicate 24 0)"
  using header_bytes_read [of "take 24 (wire @ replicate 24 0)"]
  by (simp add: HEADER_SIZE_def)

section \<open>The delta flag of \<open>buf_offset\<close>\<close>

lemma bit_DELTA_BIT [simp]: "bit DELTA_BIT n \<longleftrightarrow> n = 31"
  by (simp only: DELTA_BIT_def bit_push_bit_iff bit_1_iff) auto

lemma DELTA_BIT_neq_0 [simp]: "DELTA_BIT \<noteq> 0"
  by (simp add: DELTA_BIT_def)

lemma delta_bit_set: "(off OR DELTA_BIT) AND DELTA_BIT \<noteq> 0"
proof
  assume "(off OR DELTA_BIT) AND DELTA_BIT = 0"
  then have "bit ((off OR DELTA_BIT) AND DELTA_BIT) 31 = bit (0 :: u32) 31" by simp
  then show False by (simp add: bit_simps)
qed

lemma bit31_iff: "bit (w :: u32) 31 \<longleftrightarrow> 2 ^ 31 \<le> unat w"
proof -
  have "bit w 31 \<longleftrightarrow> odd (unat w div 2 ^ 31)"
    using bit_unsigned_iff [of w 31, where 'a = nat] bit_iff_odd [of "unat w" 31] by simp
  moreover have "unat w < 2 * 2 ^ 31" using unsigned_less [of w, where 'a = nat] by simp
  then have "unat w div 2 ^ 31 < 2" by (rule less_mult_imp_div_less)
  then have "odd (unat w div 2 ^ 31) \<longleftrightarrow> unat w div 2 ^ 31 \<noteq> 0" by (auto dest: less_2_cases)
  ultimately show ?thesis by (simp add: div_eq_0_iff not_less)
qed

end
