(* ===== verification/Proto_Sender.thy ===== *)
theory Proto_Sender
  imports Wire_Header
begin

text \<open>
  The \<open>Sender\<close> of \<open>protocol.rs\<close>: fragmentation of a payload into datagrams of a
  configured size, and heartbeats. The closure \<open>send_fn\<close> is a state transformer:
  it gets the caller's state \<open>'w\<close> (the socket) and a datagram and returns an
  \<open>io::Result\<close> with the new state.
\<close>

type_synonym 'w send_fn = "'w \<Rightarrow> byte list \<Rightarrow> (io_error + unit) \<times> 'w"

record sender =
  snd_sequence :: u32
  snd_buf :: "byte list"
  payload_per_datagram :: nat

definition with_datagram_size :: "nat \<Rightarrow> sender" where
  "with_datagram_size datagram_size =
     (let d = max datagram_size (HEADER_SIZE + 1) in
      \<lparr>snd_sequence = 0, snd_buf = replicate d 0, payload_per_datagram = d - HEADER_SIZE\<rparr>)"

definition sender_new :: sender where
  "sender_new = with_datagram_size MAX_DATAGRAM_SIZE"

definition frag_header :: "u32 \<Rightarrow> nat \<Rightarrow> nat \<Rightarrow> u64 \<Rightarrow> u32 \<Rightarrow> nat \<Rightarrow> header" where
  "frag_header sq n_fragments total_len source_us buf_offset i =
     \<lparr>hdr_source_us = source_us, hdr_sequence = sq, hdr_payload_size = of_nat total_len,
      hdr_buf_offset = buf_offset, hdr_fragment = of_nat i, hdr_fragments = of_nat n_fragments\<rparr>"

fun send_frags ::
  "'w send_fn \<Rightarrow> byte list \<Rightarrow> u64 \<Rightarrow> u32 \<Rightarrow> nat \<Rightarrow> nat list \<Rightarrow> sender \<Rightarrow> 'w \<Rightarrow>
   ((io_error + unit) \<times> sender \<times> 'w) rust" where
  "send_frags f data source_us buf_offset n [] s w = Inr (Inr (), s, w)"
| "send_frags f data source_us buf_offset n (i # is) s w =
     (let total_len = length data; offset = i * payload_per_datagram s in
      rbind (slice offset (min (offset + payload_per_datagram s) total_len) data) (\<lambda>chunk.
      let hdr = frag_header (snd_sequence s) n total_len source_us buf_offset i in
      rbind (store 0 (header_bytes hdr) (snd_buf s)) (\<lambda>buf1.
      rbind (store HEADER_SIZE chunk buf1) (\<lambda>buf2.
      rbind (slice 0 (HEADER_SIZE + length chunk) buf2) (\<lambda>datagram.
      case f w datagram of
        (Inl err, w') \<Rightarrow> Inr (Inl err, s\<lparr>snd_buf := buf2\<rparr>, w')
      | (Inr _, w') \<Rightarrow> send_frags f data source_us buf_offset n is (s\<lparr>snd_buf := buf2\<rparr>) w')))))"

definition send ::
  "'w send_fn \<Rightarrow> sender \<Rightarrow> 'w \<Rightarrow> byte list \<Rightarrow> u64 \<Rightarrow> u32 \<Rightarrow>
   ((io_error + u16) \<times> sender \<times> 'w) rust" where
  "send f s w data source_us buf_offset =
     rbind (div_ceil (length data) (payload_per_datagram s)) (\<lambda>n_fragments.
     if n_fragments = 0 \<or> n_fragments > 65535 then Inr (Inl InvalidData, s, w)
     else
       rbind (send_frags f data source_us buf_offset n_fragments [0..<n_fragments] s w) (\<lambda>(r, s', w').
       case r of
         Inl err \<Rightarrow> Inr (Inl err, s', w')
       | Inr _ \<Rightarrow> Inr (Inr (of_nat n_fragments), s'\<lparr>snd_sequence := snd_sequence s' + 1\<rparr>, w')))"

definition heartbeat_header :: header where
  "heartbeat_header =
     \<lparr>hdr_source_us = 0, hdr_sequence = 0, hdr_payload_size = 0,
      hdr_buf_offset = 0, hdr_fragment = 0, hdr_fragments = 0\<rparr>"

definition send_heartbeat ::
  "'w send_fn \<Rightarrow> sender \<Rightarrow> 'w \<Rightarrow> ((io_error + unit) \<times> sender \<times> 'w) rust" where
  "send_heartbeat f s w =
     rbind (store 0 (header_bytes heartbeat_header) (snd_buf s)) (\<lambda>buf1.
     rbind (slice 0 HEADER_SIZE buf1) (\<lambda>datagram.
     case f w datagram of (r, w') \<Rightarrow> Inr (r, s\<lparr>snd_buf := buf1\<rparr>, w')))"

section \<open>Invariant\<close>

definition wf_sender :: "sender \<Rightarrow> bool" where
  "wf_sender s \<longleftrightarrow> 0 < payload_per_datagram s \<and>
     length (snd_buf s) = HEADER_SIZE + payload_per_datagram s"

lemma wf_with_datagram_size [simp]: "wf_sender (with_datagram_size n)"
  by (simp add: wf_sender_def with_datagram_size_def Let_def max_def)

lemma with_datagram_size_simps [simp]:
  "payload_per_datagram (with_datagram_size n) = max n (HEADER_SIZE + 1) - HEADER_SIZE"
  "snd_sequence (with_datagram_size n) = 0"
  by (simp_all add: with_datagram_size_def Let_def)

section \<open>What a message looks like on the wire\<close>

definition fragment_count :: "nat \<Rightarrow> byte list \<Rightarrow> nat" where
  "fragment_count ppd data = (length data + ppd - 1) div ppd"

definition chunk :: "nat \<Rightarrow> byte list \<Rightarrow> nat \<Rightarrow> byte list" where
  "chunk ppd data i = take ppd (drop (i * ppd) data)"

definition frame :: "u32 \<Rightarrow> nat \<Rightarrow> byte list \<Rightarrow> u64 \<Rightarrow> u32 \<Rightarrow> nat \<Rightarrow> byte list" where
  "frame sq ppd data source_us buf_offset i =
     header_bytes (frag_header sq (fragment_count ppd data) (length data) source_us buf_offset i)
     @ chunk ppd data i"

definition frames :: "u32 \<Rightarrow> nat \<Rightarrow> byte list \<Rightarrow> u64 \<Rightarrow> u32 \<Rightarrow> byte list list" where
  "frames sq ppd data source_us buf_offset =
     map (frame sq ppd data source_us buf_offset) [0..<fragment_count ppd data]"

text \<open>Handing datagrams to the socket until one is refused.\<close>

fun emit :: "'w send_fn \<Rightarrow> 'w \<Rightarrow> byte list list \<Rightarrow> (io_error + unit) \<times> 'w" where
  "emit f w [] = (Inr (), w)"
| "emit f w (d # ds) = (case f w d of (Inl err, w') \<Rightarrow> (Inl err, w') | (Inr _, w') \<Rightarrow> emit f w' ds)"

text \<open>The abstract sender keeps the sequence number and the fragment size only.\<close>

definition sender_abs :: "sender \<Rightarrow> u32 \<times> nat" where
  "sender_abs s = (snd_sequence s, payload_per_datagram s)"

definition send_spec ::
  "'w send_fn \<Rightarrow> u32 \<times> nat \<Rightarrow> 'w \<Rightarrow> byte list \<Rightarrow> u64 \<Rightarrow> u32 \<Rightarrow> (io_error + u16) \<times> (u32 \<times> nat) \<times> 'w" where
  "send_spec f a w data source_us buf_offset =
     (case a of (sq, ppd) \<Rightarrow>
      if data = [] \<or> 65535 * ppd < length data then (Inl InvalidData, (sq, ppd), w)
      else case emit f w (frames sq ppd data source_us buf_offset) of
        (Inl err, w') \<Rightarrow> (Inl err, (sq, ppd), w')
      | (Inr _, w') \<Rightarrow> (Inr (of_nat (fragment_count ppd data)), (sq + 1, ppd), w'))"

section \<open>Facts about fragments\<close>

lemma fragment_count_le_iff: "0 < ppd \<Longrightarrow> fragment_count ppd data \<le> k \<longleftrightarrow> length data \<le> k * ppd"
  unfolding fragment_count_def by (rule ceil_div_le_iff)

lemma fragment_count_eq_0 [simp]: "0 < ppd \<Longrightarrow> fragment_count ppd data = 0 \<longleftrightarrow> data = []"
  using fragment_count_le_iff [of ppd data 0] by simp

lemma less_fragment_count_iff: "0 < ppd \<Longrightarrow> i < fragment_count ppd data \<longleftrightarrow> i * ppd < length data"
  by (meson fragment_count_le_iff not_le)

lemma fragment_count_data: "0 < ppd \<Longrightarrow> length data \<le> fragment_count ppd data * ppd"
  using fragment_count_le_iff [of ppd data "fragment_count ppd data"] by simp

lemma length_chunk: "length (chunk ppd data i) = min ppd (length data - i * ppd)"
  by (simp add: chunk_def)

lemma length_chunk_le: "length (chunk ppd data i) \<le> ppd"
  by (simp add: length_chunk)

lemma chunk_full:
  assumes "0 < ppd" "Suc i < fragment_count ppd data"
  shows "length (chunk ppd data i) = ppd"
proof -
  have "Suc i * ppd < length data" using assms by (simp only: less_fragment_count_iff)
  then show ?thesis by (simp add: length_chunk)
qed

lemma chunk_end:
  "0 < ppd \<Longrightarrow> i < fragment_count ppd data \<Longrightarrow> i * ppd + length (chunk ppd data i) \<le> length data"
  by (simp add: less_fragment_count_iff length_chunk)

lemma concat_chunks: "concat (map (chunk ppd data) [0..<n]) = take (n * ppd) data"
proof (induction n)
  case 0
  then show ?case by simp
next
  case (Suc n)
  have "take (Suc n * ppd) data = take (n * ppd) data @ take ppd (drop (n * ppd) data)"
    using take_add [of "n * ppd" ppd data] by (simp add: add.commute)
  with Suc show ?case by (simp add: chunk_def)
qed

lemma concat_all_chunks:
  "0 < ppd \<Longrightarrow> concat (map (chunk ppd data) [0..<fragment_count ppd data]) = data"
  by (simp add: concat_chunks fragment_count_data)

lemma length_frames [simp]: "length (frames sq ppd data us off) = fragment_count ppd data"
  by (simp add: frames_def)

lemma nth_frames [simp]:
  "i < fragment_count ppd data \<Longrightarrow> frames sq ppd data us off ! i = frame sq ppd data us off i"
  by (simp add: frames_def)

lemma read_header_frame [simp]:
  "read_header (frame sq ppd data us off i) =
     frag_header sq (fragment_count ppd data) (length data) us off i"
  by (simp add: frame_def)

lemma drop_frame [simp]: "drop HEADER_SIZE (frame sq ppd data us off i) = chunk ppd data i"
  by (simp add: frame_def)

lemma length_frame [simp]: "length (frame sq ppd data us off i) = HEADER_SIZE + length (chunk ppd data i)"
  by (simp add: frame_def)

section \<open>The sender implements its specification\<close>

lemma send_frags_spec:
  assumes "wf_sender s" "\<forall>i \<in> set is. i < fragment_count (payload_per_datagram s) data"
  shows "map_sum id (\<lambda>(r, s', w'). (r, sender_abs s', length (snd_buf s'), w'))
      (send_frags f data us off (fragment_count (payload_per_datagram s) data) is s w) =
    Inr (case emit f w (map (frame (snd_sequence s) (payload_per_datagram s) data us off) is) of
      (r, w') \<Rightarrow> (r, sender_abs s, length (snd_buf s), w'))"
  using assms
proof (induction "is" arbitrary: s w)
  case Nil
  then show ?case by simp
next
  case (Cons i "is")
  let ?ppd = "payload_per_datagram s"
  let ?off = "i * ?ppd"
  let ?hdr = "frag_header (snd_sequence s) (fragment_count ?ppd data) (length data) us off i"
  let ?ch = "chunk ?ppd data i" and ?fr = "frame (snd_sequence s) ?ppd data us off i"
  have ppd: "0 < ?ppd" and buf: "length (snd_buf s) = HEADER_SIZE + ?ppd"
    using Cons.prems(1) by (simp_all add: wf_sender_def)
  have "?off < length data" using Cons.prems(2) less_fragment_count_iff [OF ppd] by simp
  then have sl: "slice ?off (min (?off + ?ppd) (length data)) data = Inr ?ch"
    by (simp add: slice_ok chunk_def min_def)
  let ?b1 = "blit 0 (header_bytes ?hdr) (snd_buf s)"
  let ?b2 = "blit HEADER_SIZE ?ch ?b1"
  have st1: "store 0 (header_bytes ?hdr) (snd_buf s) = Inr ?b1"
    using buf by (simp add: store_ok)
  have st2: "store HEADER_SIZE ?ch ?b1 = Inr ?b2"
    using buf length_chunk_le [of ?ppd data i] by (simp add: store_ok)
  have "take (HEADER_SIZE + length ?ch) ?b2 = ?fr"
    by (simp add: blit_def frame_def take_add)
  then have sl2: "slice 0 (HEADER_SIZE + length ?ch) ?b2 = Inr ?fr"
    using buf length_chunk_le [of ?ppd data i] by (simp add: slice_ok)
  define s1 where "s1 = s\<lparr>snd_buf := ?b2\<rparr>"
  have len2: "length ?b2 = length (snd_buf s)"
    using buf length_chunk_le [of ?ppd data i] by simp
  have s1: "wf_sender s1" "sender_abs s1 = sender_abs s" "payload_per_datagram s1 = ?ppd"
    "snd_sequence s1 = snd_sequence s" "length (snd_buf s1) = length (snd_buf s)"
    using Cons.prems(1) len2 by (simp_all add: s1_def wf_sender_def sender_abs_def)
  have rest: "\<forall>i \<in> set is. i < fragment_count (payload_per_datagram s1) data"
    using Cons.prems(2) s1 by simp
  show ?case
    using Cons.IH [OF s1(1) rest] s1
    by (simp add: sl st1 st2 sl2 Let_def s1_def [symmetric] split: prod.split sum.split)
qed

lemma map_sum_id_Inr: "map_sum id g m = Inr y \<longleftrightarrow> (\<exists>x. m = Inr x \<and> g x = y)"
  by (cases m) auto

lemma send_frags_cases:
  assumes "wf_sender s" "emit f w (frames (snd_sequence s) (payload_per_datagram s) data us off) = (r, w')"
  obtains s' where
    "send_frags f data us off (fragment_count (payload_per_datagram s) data)
       [0..<fragment_count (payload_per_datagram s) data] s w = Inr (r, s', w')"
    "sender_abs s' = sender_abs s" "wf_sender s'"
proof -
  from send_frags_spec [OF assms(1), of "[0..<fragment_count (payload_per_datagram s) data]" data f us off w]
  show ?thesis
    using that assms by (auto simp: map_sum_id_Inr frames_def wf_sender_def sender_abs_def)
qed

lemma send_cases:
  assumes "wf_sender s"
  obtains s' where
    "send f s w data us off = (case send_spec f (sender_abs s) w data us off of (r, a, w') \<Rightarrow> Inr (r, s', w'))"
    "wf_sender s'" "sender_abs s' = fst (snd (send_spec f (sender_abs s) w data us off))"
proof -
  let ?ppd = "payload_per_datagram s"
  have ppd: "0 < ?ppd" using assms by (simp add: wf_sender_def)
  have n: "div_ceil (length data) ?ppd = Inr (fragment_count ?ppd data)"
    using ppd by (simp add: div_ceil_ok fragment_count_def)
  have big: "65535 < fragment_count ?ppd data \<longleftrightarrow> 65535 * ?ppd < length data"
    using fragment_count_le_iff [OF ppd, of data 65535] by linarith
  show ?thesis
  proof (cases "data = [] \<or> 65535 * ?ppd < length data")
    case True
    with assms that [of s] show ?thesis
      by (auto simp: send_def send_spec_def n big ppd sender_abs_def)
  next
    case False
    obtain r w' where e: "emit f w (frames (snd_sequence s) ?ppd data us off) = (r, w')" by fastforce
    obtain s' where s': "send_frags f data us off (fragment_count ?ppd data)
        [0..<fragment_count ?ppd data] s w = Inr (r, s', w')"
      "sender_abs s' = sender_abs s" "wf_sender s'"
      using send_frags_cases [OF assms e] .
    show ?thesis
    proof (cases r)
      case (Inl err)
      with False e s' that [of s'] show ?thesis
        by (simp add: send_def send_spec_def n big ppd sender_abs_def)
    next
      case (Inr u)
      with False e s' that [of "s'\<lparr>snd_sequence := snd_sequence s' + 1\<rparr>"] show ?thesis
        by (simp add: send_def send_spec_def n big ppd sender_abs_def wf_sender_def)
    qed
  qed
qed

text \<open>C16: \<open>Sender::send\<close> refines its specification and never panics: an empty payload or one
  of more than 65535 fragments is refused with \<open>InvalidData\<close>, otherwise exactly the frames of
  the message go to the socket in order until it refuses one, and the sequence number is
  incremented (with wrap-around) if and only if every frame was accepted.\<close>

theorem send_refines:
  assumes "wf_sender s"
  shows "map_sum id (\<lambda>(r, s', w'). (r, sender_abs s', w')) (send f s w data us off) =
    Inr (send_spec f (sender_abs s) w data us off)"
proof (rule send_cases [OF assms, of f w data us off])
  fix s'
  assume "send f s w data us off = (case send_spec f (sender_abs s) w data us off of (r, a, w') \<Rightarrow> Inr (r, s', w'))"
    and "sender_abs s' = fst (snd (send_spec f (sender_abs s) w data us off))"
  then show ?thesis by (cases "send_spec f (sender_abs s) w data us off") simp
qed

text \<open>A socket that accepts everything, as the tests use.\<close>

definition record_datagram :: "byte list list send_fn" where
  "record_datagram w d = (Inr (), w @ [d])"

lemma emit_record [simp]: "emit record_datagram w ds = (Inr (), w @ ds)"
  by (induction ds arbitrary: w) (auto simp: record_datagram_def)

theorem send_refines_witness:
  "map_sum id (\<lambda>(r, s', w'). (r, sender_abs s', w'))
     (send record_datagram (with_datagram_size 26) [] [1, 2, 3] 7 9) =
   Inr (Inr 2, (1, 2), [frame 0 2 [1, 2, 3] 7 9 0, frame 0 2 [1, 2, 3] 7 9 1])"
  using send_refines [OF wf_with_datagram_size, of record_datagram 26 "[]" "[1, 2, 3]" 7 9]
  by (simp add: send_spec_def sender_abs_def wire_consts frames_def fragment_count_def upt_rec record_datagram_def)

lemma send_record:
  assumes "wf_sender s" "data \<noteq> []" "length data \<le> 65535 * payload_per_datagram s"
  obtains s' where
    "send record_datagram s w data us off =
       Inr (Inr (of_nat (fragment_count (payload_per_datagram s) data)), s',
            w @ frames (snd_sequence s) (payload_per_datagram s) data us off)"
    "wf_sender s'" "snd_sequence s' = snd_sequence s + 1"
    "payload_per_datagram s' = payload_per_datagram s"
  using send_cases [OF assms(1), of record_datagram w data us off] assms(2,3)
  by (auto simp: send_spec_def sender_abs_def not_less)

text \<open>Fragmentation loses nothing and respects the configured size: the datagrams of a
  message are numbered from 0, announce the true fragment count and total length, are at most
  \<open>datagram_size\<close> bytes long, all but the last are full, and their payloads concatenate to the
  message.\<close>

lemma fragmentation_complete:
  assumes "wf_sender s" "data \<noteq> []" "length data \<le> 65535 * payload_per_datagram s"
  shows "\<exists>n s' ds. send record_datagram s [] data us off = Inr (Inr (of_nat n), s', ds) \<and>
    n = length ds \<and> 0 < n \<and> n \<le> 65535 \<and>
    snd_sequence s' = snd_sequence s + 1 \<and>
    concat (map (drop HEADER_SIZE) ds) = data \<and>
    map read_header ds = map (frag_header (snd_sequence s) n (length data) us off) [0..<n] \<and>
    list_all (\<lambda>d. length d \<le> HEADER_SIZE + payload_per_datagram s) ds \<and>
    list_all (\<lambda>d. length d = HEADER_SIZE + payload_per_datagram s) (butlast ds)"
proof -
  let ?ppd = "payload_per_datagram s" and ?fr = "frames (snd_sequence s) (payload_per_datagram s) data us off"
  let ?n = "fragment_count ?ppd data"
  have ppd: "0 < ?ppd" using assms(1) by (simp add: wf_sender_def)
  obtain s' where s': "send record_datagram s [] data us off = Inr (Inr (of_nat ?n), s', [] @ ?fr)"
    "snd_sequence s' = snd_sequence s + 1"
    using send_record [OF assms, of "[]" us off] by metis
  have n: "0 < ?n" "?n \<le> 65535"
    using fragment_count_eq_0 [OF ppd, of data] assms(2) fragment_count_le_iff [OF ppd, of data 65535] assms(3)
    by blast+
  have payload: "concat (map (drop HEADER_SIZE) ?fr) = data"
    using concat_all_chunks [OF ppd, of data] by (simp add: frames_def comp_def)
  have hdrs: "map read_header ?fr = map (frag_header (snd_sequence s) ?n (length data) us off) [0..<?n]"
    by (simp add: frames_def)
  have all: "list_all (\<lambda>d. length d \<le> HEADER_SIZE + ?ppd) ?fr"
    by (auto simp: list_all_iff frames_def length_chunk)
  have full: "list_all (\<lambda>d. length d = HEADER_SIZE + ?ppd) (butlast ?fr)"
    using chunk_full [OF ppd] by (auto simp: list_all_length nth_butlast)
  show ?thesis
    using s' n payload hdrs all full
    by (intro exI [of _ ?n] exI [of _ s'] exI [of _ ?fr]) simp
qed

lemma fragmentation_complete_witness:
  "\<exists>n s' ds. send record_datagram (with_datagram_size 26) [] [5, 6, 7] 1 2 = Inr (Inr (of_nat n), s', ds) \<and>
    n = length ds \<and> concat (map (drop HEADER_SIZE) ds) = [5, 6, 7]"
  using fragmentation_complete [OF wf_with_datagram_size, of "[5, 6, 7]" 26 1 2]
  by (simp add: wire_consts) blast

section \<open>Heartbeats\<close>

text \<open>A heartbeat is one header-only datagram with \<open>fragments = 0\<close>; it is offered to the
  socket once and leaves the sequence number and the fragment size alone.\<close>

lemma heartbeat_datagram:
  assumes "wf_sender s"
  shows "map_sum id (\<lambda>(r, s', w'). (r, sender_abs s', w')) (send_heartbeat f s w) =
      Inr (case f w (header_bytes heartbeat_header) of (r, w') \<Rightarrow> (r, sender_abs s, w')) \<and>
    hdr_fragments (read_header (header_bytes heartbeat_header @ rest)) = 0"
proof -
  have "HEADER_SIZE \<le> length (snd_buf s)" using assms by (simp add: wf_sender_def)
  then show ?thesis
    by (simp add: send_heartbeat_def store_ok slice_ok heartbeat_header_def sender_abs_def blit_def
        split: prod.split)
qed

lemma send_heartbeat_wf:
  assumes "wf_sender s"
  shows "\<exists>r s' w'. send_heartbeat f s w = Inr (r, s', w') \<and> wf_sender s' \<and> sender_abs s' = sender_abs s"
proof -
  have "HEADER_SIZE \<le> length (snd_buf s)" using assms by (simp add: wf_sender_def)
  with assms show ?thesis
    by (simp add: send_heartbeat_def store_ok slice_ok wf_sender_def sender_abs_def split: prod.split)
qed

end
