(* ===== verification/Machine.thy ===== *)
theory Machine
  imports Rust_Prelude
begin

text \<open>
  The contract every stateful component is proved against: a step that takes an
  input and returns an output and the next state, or panics, an invariant, and a
  condition on the inputs. A component interprets \<open>machine\<close> when its steps keep the
  invariant, and \<open>safe_machine\<close> when they cannot panic either; runs, loops that end at
  an exit, and reachability come with it.
\<close>

type_synonym ('s, 'i, 'o) step = "'s \<Rightarrow> 'i \<Rightarrow> ('o \<times> 's) rust"

text \<open>Feeding a list of inputs to a component.\<close>

fun run :: "('s, 'i, 'o) step \<Rightarrow> 's \<Rightarrow> 'i list \<Rightarrow> ('o list \<times> 's) rust" where
  "run step s [] = Inr ([], s)"
| "run step s (i # is) =
     rbind (step s i) (\<lambda>(o1, s1). rbind (run step s1 is) (\<lambda>(os, s2). Inr (o1 # os, s2)))"

text \<open>A loop that ends at the first output \<open>stop\<close> accepts, or when the inputs end.\<close>

fun run_until ::
  "('o \<Rightarrow> bool) \<Rightarrow> ('s, 'i, 'o) step \<Rightarrow> 's \<Rightarrow> 'i list \<Rightarrow> ('o list \<times> 's) rust" where
  "run_until stop step s [] = Inr ([], s)"
| "run_until stop step s (i # is) =
     rbind (step s i) (\<lambda>(o1, s1).
       if stop o1 then Inr ([o1], s1)
       else rbind (run_until stop step s1 is) (\<lambda>(os, s2). Inr (o1 # os, s2)))"

lemma run_append:
  "run step s (is @ js) =
     rbind (run step s is) (\<lambda>(os, s1). rbind (run step s1 js) (\<lambda>(ps, s2). Inr (os @ ps, s2)))"
proof (induction "is" arbitrary: s)
  case Nil
  show ?case by (cases "run step s js") auto
next
  case (Cons i "is")
  then show ?case
    by (cases "step s i") (auto simp: rbind_def split: sum.split prod.split)
qed

lemma run_snoc:
  "run step s is = Inr (os, s1) \<Longrightarrow> step s1 i = Inr (o1, s2) \<Longrightarrow>
   run step s (is @ [i]) = Inr (os @ [o1], s2)"
  by (simp add: run_append)

lemma run_until_run: "(\<And>x. \<not> stop x) \<Longrightarrow> run_until stop step s is = run step s is"
  by (induction "is" arbitrary: s) (auto simp: rbind_def split: sum.split prod.split)

lemma run_until_append:
  "run_until stop step s is = Inr (os, s1) \<Longrightarrow> list_all (\<lambda>x. \<not> stop x) os \<Longrightarrow>
   run_until stop step s (is @ js) = rbind (run_until stop step s1 js) (\<lambda>(ps, s2). Inr (os @ ps, s2))"
proof (induction "is" arbitrary: s os)
  case Nil
  then show ?case by (cases "run_until stop step s js") auto
next
  case (Cons i "is")
  then obtain o2 s2 where st: "step s i = Inr (o2, s2)" by (auto simp: rbind_eq_Inr)
  with Cons.prems obtain os' where os: "os = o2 # os'" "run_until stop step s2 is = Inr (os', s1)" "\<not> stop o2"
    by (auto simp: rbind_eq_Inr split: if_splits)
  with Cons.IH [OF os(2)] Cons.prems(2) st show ?case
    by (cases "run_until stop step s1 js") auto
qed

lemma run_until_Nil: "run_until stop step s is = Inr ([], s') \<Longrightarrow> s' = s"
  by (cases "is") (auto simp: rbind_eq_Inr split: if_splits)

lemma run_until_snocD:
  "run_until stop step s is = Inr (os @ [o1], s') \<Longrightarrow>
   \<exists>is0 i s1. run_until stop step s is0 = Inr (os, s1) \<and> list_all (\<lambda>x. \<not> stop x) os \<and> step s1 i = Inr (o1, s')"
proof (induction "is" arbitrary: s os)
  case (Cons i "is")
  then obtain o2 s2 where st: "step s i = Inr (o2, s2)"
    "(if stop o2 then Inr ([o2], s2) else rbind (run_until stop step s2 is) (\<lambda>(os, s2). Inr (o2 # os, s2))) = Inr (os @ [o1], s')"
    by (auto simp: rbind_eq_Inr)
  show ?case
  proof (cases os)
    case Nil
    have "o2 = o1" "s2 = s'" using st(2) Nil by (auto simp: rbind_eq_Inr split: if_splits dest: run_until_Nil)
    with st(1) Nil show ?thesis by (intro exI [of _ "[]"] exI [of _ i] exI [of _ s]) simp
  next
    case (Cons o3 os')
    then have "\<not> stop o2" "o3 = o2" "run_until stop step s2 is = Inr (os' @ [o1], s')"
      using st(2) by (auto simp: rbind_eq_Inr split: if_splits)
    with Cons.IH [of s2 os'] obtain is0 j s3 where "run_until stop step s2 is0 = Inr (os', s3)"
      "list_all (\<lambda>x. \<not> stop x) os'" "step s3 j = Inr (o1, s')" by blast
    with st(1) Cons \<open>\<not> stop o2\<close> \<open>o3 = o2\<close> show ?thesis
      by (intro exI [of _ "i # is0"] exI [of _ j] exI [of _ s3]) simp
  qed
qed simp

inductive reachable :: "('i \<Rightarrow> bool) \<Rightarrow> ('s, 'i, 'o) step \<Rightarrow> 's \<Rightarrow> 's \<Rightarrow> bool" for ok step s0 where
  start: "reachable ok step s0 s0"
| step: "reachable ok step s0 s \<Longrightarrow> ok i \<Longrightarrow> step s i = Inr (out, s') \<Longrightarrow> reachable ok step s0 s'"

inductive_simps run_reachable_simps: "reachable ok step s0 s"

lemma run_reachable:
  "run step s is = Inr (os, s') \<Longrightarrow> list_all ok is \<Longrightarrow> reachable ok step s0 s \<Longrightarrow> reachable ok step s0 s'"
proof (induction "is" arbitrary: s os)
  case (Cons i "is")
  then show ?case by (auto simp: rbind_eq_Inr intro: reachable.step)
qed simp

locale machine =
  fixes step :: "('s, 'i, 'o) step" and inv :: "'s \<Rightarrow> bool" and ok :: "'i \<Rightarrow> bool"
  assumes step_inv: "inv s \<Longrightarrow> ok i \<Longrightarrow> step s i = Inr (out, s') \<Longrightarrow> inv s'"
begin

lemma reachable_inv: "reachable ok step s0 s \<Longrightarrow> inv s0 \<Longrightarrow> inv s"
  by (induction rule: reachable.induct) (blast intro: step_inv)+

lemma run_until_inv:
  "inv s \<Longrightarrow> list_all ok is \<Longrightarrow> run_until stop step s is = Inr (os, s') \<Longrightarrow> inv s'"
proof (induction "is" arbitrary: s os)
  case (Cons i "is")
  then show ?case by (auto simp: rbind_eq_Inr split: if_splits dest: step_inv)
qed simp

lemma run_inv: "inv s \<Longrightarrow> list_all ok is \<Longrightarrow> run step s is = Inr (os, s') \<Longrightarrow> inv s'"
  by (blast intro: reachable_inv run_reachable reachable.start)

end

locale safe_machine = machine +
  assumes step_returns: "inv s \<Longrightarrow> ok i \<Longrightarrow> returns (step s i)"
begin

lemma step_ok: "inv s \<Longrightarrow> ok i \<Longrightarrow> \<exists>out s'. step s i = Inr (out, s') \<and> inv s'"
  using step_returns step_inv by (metis surj_pair)

lemma run_until_returns:
  "inv s \<Longrightarrow> list_all ok is \<Longrightarrow> \<exists>os s'. run_until stop step s is = Inr (os, s') \<and> inv s'"
proof (induction "is" arbitrary: s)
  case (Cons i "is")
  obtain o1 s1 where s1: "step s i = Inr (o1, s1)" "inv s1" using step_ok [of s i] Cons.prems by auto
  with Cons.IH [of s1] Cons.prems(2) show ?case by fastforce
qed simp

lemma run_returns:
  "inv s \<Longrightarrow> list_all ok is \<Longrightarrow> \<exists>os s'. run step s is = Inr (os, s') \<and> inv s' \<and> length os = length is"
proof (induction "is" arbitrary: s)
  case (Cons i "is")
  obtain o1 s1 where s1: "step s i = Inr (o1, s1)" "inv s1" using step_ok [of s i] Cons.prems by auto
  with Cons.IH [of s1] Cons.prems(2) show ?case by fastforce
qed simp

lemma reachable_returns: "reachable ok step s0 s \<Longrightarrow> inv s0 \<Longrightarrow> ok i \<Longrightarrow> returns (step s i)"
  by (blast intro: step_returns reachable_inv)

end

end
