(* ===== verification/Proto_Receiver.thy ===== *)
theory Proto_Receiver
  imports Wire_Header Machine
begin

text \<open>
  The \<open>Receiver\<close> of \<open>protocol.rs\<close>: reassembly of fragments into payloads, with
  every guard of \<open>ingest\<close> and \<open>reset\<close> and every slice operation that could panic.
\<close>

section \<open>State and operations\<close>

record ingested =
  assembled :: "byte list option"
  new_seq :: bool
  heartbeat :: bool
  ing_buf_offset :: u32

definition ingested_default :: ingested where
  "ingested_default = \<lparr>assembled = None, new_seq = False, heartbeat = False, ing_buf_offset = 0\<rparr>"

record receiver =
  rcv_buf :: "byte list"
  received :: "bool list"
  max_payload :: nat
  current_seq :: "u32 option"
  total_frags :: u16
  got_frags :: u16
  rcv_payload_size :: nat
  detected_frag_size :: nat
  last_source_us :: u64
  last_fragment_count :: u16
  dropped_sequences :: u64
  last_buf_offset :: u32

definition receiver_new :: "nat \<Rightarrow> receiver" where
  "receiver_new mp =
     \<lparr>rcv_buf = replicate mp 0, received = replicate MAX_FRAGMENTS False, max_payload = mp,
      current_seq = None, total_frags = 0, got_frags = 0, rcv_payload_size = 0,
      detected_frag_size = 0, last_source_us = 0, last_fragment_count = 0,
      dropped_sequences = 0, last_buf_offset = U32_MAX\<rparr>"

definition reset :: "receiver \<Rightarrow> header \<Rightarrow> receiver rust" where
  "reset r hdr =
     (let r1 = (if 0 < unat (got_frags r) \<and> unat (got_frags r) < unat (total_frags r)
                then r\<lparr>dropped_sequences := dropped_sequences r + 1\<rparr> else r)
      in if unat (hdr_fragments hdr) > MAX_FRAGMENTS \<or> unat (hdr_payload_size hdr) > max_payload r1
         then Inr (r1\<lparr>current_seq := Some (hdr_sequence hdr), total_frags := 0, got_frags := 0\<rparr>)
         else
           rbind (store 0 (replicate (unat (hdr_fragments hdr)) False) (received r1)) (\<lambda>recvd.
           Inr (r1\<lparr>current_seq := Some (hdr_sequence hdr), total_frags := hdr_fragments hdr,
                  got_frags := 0, rcv_payload_size := unat (hdr_payload_size hdr),
                  last_buf_offset := hdr_buf_offset hdr, detected_frag_size := 0,
                  received := recvd\<rparr>)))"

text \<open>The second half of \<open>ingest\<close>: a fragment that is in range and not yet received.\<close>

definition store_fragment ::
  "receiver \<Rightarrow> bool \<Rightarrow> nat \<Rightarrow> byte list \<Rightarrow> (ingested \<times> receiver) rust" where
  "store_fragment r first_frag idx data =
     (let quiet = ingested_default\<lparr>new_seq := first_frag\<rparr>;
          r1 = (if idx < unat (total_frags r) - 1 \<and> detected_frag_size r = 0
                then r\<lparr>detected_frag_size := length data\<rparr> else r);
          frag_size = (if 0 < detected_frag_size r1 then detected_frag_size r1
                       else MAX_PAYLOAD_PER_DATAGRAM);
          dest_offset = idx * frag_size
      in if dest_offset + length data > length (rcv_buf r1) then Inr (quiet, r1)
         else
           rbind (store dest_offset data (rcv_buf r1)) (\<lambda>buf.
           rbind (store idx [True] (received r1)) (\<lambda>recvd.
           let r2 = r1\<lparr>rcv_buf := buf, received := recvd, got_frags := got_frags r1 + 1\<rparr>
           in if got_frags r2 = total_frags r2
              then
                let r3 = r2\<lparr>last_fragment_count := total_frags r2, current_seq := None\<rparr>
                in rbind (slice 0 (rcv_payload_size r3) (rcv_buf r3)) (\<lambda>payload.
                   Inr (\<lparr>assembled = Some payload, new_seq = first_frag, heartbeat = False,
                         ing_buf_offset = last_buf_offset r3\<rparr>, r3))
              else Inr (quiet, r2))))"

definition ingest :: "receiver \<Rightarrow> byte list \<Rightarrow> (ingested \<times> receiver) rust" where
  "ingest r datagram =
     (if length datagram < HEADER_SIZE then Inr (ingested_default, r)
      else
        let hdr = read_header datagram in
        if hdr_fragments hdr = 0 then Inr (ingested_default\<lparr>heartbeat := True\<rparr>, r)
        else
          let r1 = (if hdr_fragment hdr = 0 then r\<lparr>last_source_us := hdr_source_us hdr\<rparr> else r);
              is_new = (case current_seq r1 of Some s \<Rightarrow> s \<noteq> hdr_sequence hdr | None \<Rightarrow> True)
          in rbind (if is_new then reset r1 hdr else Inr r1) (\<lambda>r2.
             let first_frag = (hdr_fragment hdr = 0);
                 quiet = ingested_default\<lparr>new_seq := first_frag\<rparr>;
                 idx = unat (hdr_fragment hdr)
             in rbind (if idx \<ge> unat (total_frags r2) then Inr True else index idx (received r2)) (\<lambda>ignore.
                if ignore then Inr (quiet, r2)
                else
                  let data = drop HEADER_SIZE datagram in
                  if length data > MAX_PAYLOAD_PER_DATAGRAM then Inr (quiet, r2)
                  else store_fragment r2 first_frag idx data)))"

text \<open>Feeding a sequence of datagrams, as the receive loop does.\<close>

abbreviation ingest_all :: "receiver \<Rightarrow> byte list list \<Rightarrow> (ingested list \<times> receiver) rust" where
  "ingest_all \<equiv> run ingest"

section \<open>Invariant\<close>

definition marked :: "receiver \<Rightarrow> nat set" where
  "marked r = {i. i < unat (total_frags r) \<and> received r ! i}"

definition wf_receiver :: "receiver \<Rightarrow> bool" where
  "wf_receiver r \<longleftrightarrow>
     length (rcv_buf r) = max_payload r \<and>
     length (received r) = MAX_FRAGMENTS \<and>
     unat (total_frags r) \<le> MAX_FRAGMENTS \<and>
     unat (got_frags r) = card (marked r) \<and>
     rcv_payload_size r \<le> max_payload r"

lemma finite_marked [simp]: "finite (marked r)"
  by (simp add: marked_def)

lemma marked_iff: "i < unat (total_frags r) \<Longrightarrow> received r ! i \<longleftrightarrow> i \<in> marked r"
  by (simp add: marked_def)

lemma marked_subset: "marked r \<subseteq> {..<unat (total_frags r)}"
  by (auto simp: marked_def)

lemma marked_receiver_new [simp]: "marked (receiver_new mp) = {}"
  by (simp add: marked_def receiver_new_def)

lemma wf_receiver_new [simp]: "wf_receiver (receiver_new mp)"
  by (simp add: wf_receiver_def receiver_new_def marked_def wire_consts)

lemma receiver_new_simps [simp]:
  "max_payload (receiver_new mp) = mp"
  "current_seq (receiver_new mp) = None"
  "dropped_sequences (receiver_new mp) = 0"
  "got_frags (receiver_new mp) = 0"
  "total_frags (receiver_new mp) = 0"
  "rcv_buf (receiver_new mp) = replicate mp 0"
  by (simp_all add: receiver_new_def)

lemma length_rcv_buf: "wf_receiver r \<Longrightarrow> length (rcv_buf r) = max_payload r"
  by (simp add: wf_receiver_def)

lemma wf_receiver_last_source_us [simp]:
  "wf_receiver (r\<lparr>last_source_us := u\<rparr>) = wf_receiver r"
  by (simp add: wf_receiver_def marked_def)

text \<open>The effect of \<open>reset\<close>, without the panics.\<close>

definition count_drop :: "receiver \<Rightarrow> receiver" where
  "count_drop r = r\<lparr>dropped_sequences := dropped_sequences r +
     (if 0 < unat (got_frags r) \<and> unat (got_frags r) < unat (total_frags r) then 1 else 0)\<rparr>"

definition malformed :: "receiver \<Rightarrow> header \<Rightarrow> bool" where
  "malformed r hdr \<longleftrightarrow>
     unat (hdr_fragments hdr) > MAX_FRAGMENTS \<or> unat (hdr_payload_size hdr) > max_payload r"

definition fresh_seq :: "receiver \<Rightarrow> header \<Rightarrow> receiver" where
  "fresh_seq r hdr =
     (if malformed r hdr
      then (count_drop r)\<lparr>current_seq := Some (hdr_sequence hdr), total_frags := 0, got_frags := 0\<rparr>
      else (count_drop r)\<lparr>current_seq := Some (hdr_sequence hdr), total_frags := hdr_fragments hdr,
             got_frags := 0, rcv_payload_size := unat (hdr_payload_size hdr),
             last_buf_offset := hdr_buf_offset hdr, detected_frag_size := 0,
             received := replicate (unat (hdr_fragments hdr)) False @
               drop (unat (hdr_fragments hdr)) (received r)\<rparr>)"

lemma count_drop_simps [simp]:
  "rcv_buf (count_drop r) = rcv_buf r"
  "received (count_drop r) = received r"
  "max_payload (count_drop r) = max_payload r"
  "total_frags (count_drop r) = total_frags r"
  "got_frags (count_drop r) = got_frags r"
  "rcv_payload_size (count_drop r) = rcv_payload_size r"
  "last_source_us (count_drop r) = last_source_us r"
  "detected_frag_size (count_drop r) = detected_frag_size r"
  "last_buf_offset (count_drop r) = last_buf_offset r"
  by (simp_all add: count_drop_def)

lemma fresh_seq_simps [simp]:
  "rcv_buf (fresh_seq r hdr) = rcv_buf r"
  "max_payload (fresh_seq r hdr) = max_payload r"
  "current_seq (fresh_seq r hdr) = Some (hdr_sequence hdr)"
  "got_frags (fresh_seq r hdr) = 0"
  "last_source_us (fresh_seq r hdr) = last_source_us r"
  "dropped_sequences (fresh_seq r hdr) = dropped_sequences (count_drop r)"
  by (simp_all add: fresh_seq_def)

lemma reset_eq:
  assumes "wf_receiver r"
  shows "reset r hdr = Inr (fresh_seq r hdr)"
proof -
  have bump: "(if 0 < unat (got_frags r) \<and> unat (got_frags r) < unat (total_frags r)
      then r\<lparr>dropped_sequences := dropped_sequences r + 1\<rparr> else r) = count_drop r"
    by (simp add: count_drop_def)
  show ?thesis
  proof (cases "malformed r hdr")
    case True
    then show ?thesis
      unfolding reset_def Let_def bump fresh_seq_def by (simp add: malformed_def)
  next
    case False
    then have "unat (hdr_fragments hdr) \<le> length (received r)"
      using assms by (simp add: malformed_def wf_receiver_def)
    then have "store 0 (replicate (unat (hdr_fragments hdr)) False) (received r) =
        Inr (replicate (unat (hdr_fragments hdr)) False @ drop (unat (hdr_fragments hdr)) (received r))"
      by (simp add: store_ok blit_def)
    with False show ?thesis
      unfolding reset_def Let_def bump fresh_seq_def by (simp add: malformed_def)
  qed
qed

lemma marked_fresh_seq [simp]: "marked (fresh_seq r hdr) = {}"
  by (auto simp: marked_def fresh_seq_def nth_append)

lemma wf_fresh_seq: "wf_receiver r \<Longrightarrow> wf_receiver (fresh_seq r hdr)"
  using marked_fresh_seq [of r hdr]
  by (auto simp: wf_receiver_def fresh_seq_def malformed_def)

text \<open>The effect of accepting a fragment, without the panics.\<close>

definition detected_after :: "receiver \<Rightarrow> nat \<Rightarrow> byte list \<Rightarrow> nat" where
  "detected_after r idx data =
     (if idx < unat (total_frags r) - 1 \<and> detected_frag_size r = 0 then length data
      else detected_frag_size r)"

definition dest_of :: "receiver \<Rightarrow> nat \<Rightarrow> byte list \<Rightarrow> nat" where
  "dest_of r idx data =
     idx * (if 0 < detected_after r idx data then detected_after r idx data
            else MAX_PAYLOAD_PER_DATAGRAM)"

definition accept :: "receiver \<Rightarrow> nat \<Rightarrow> byte list \<Rightarrow> receiver" where
  "accept r idx data =
     r\<lparr>detected_frag_size := detected_after r idx data,
       rcv_buf := blit (dest_of r idx data) data (rcv_buf r),
       received := (received r)[idx := True],
       got_frags := got_frags r + 1\<rparr>"

lemma accept_simps [simp]:
  "total_frags (accept r idx data) = total_frags r"
  "got_frags (accept r idx data) = got_frags r + 1"
  "max_payload (accept r idx data) = max_payload r"
  "rcv_payload_size (accept r idx data) = rcv_payload_size r"
  "current_seq (accept r idx data) = current_seq r"
  "last_buf_offset (accept r idx data) = last_buf_offset r"
  "dropped_sequences (accept r idx data) = dropped_sequences r"
  "last_source_us (accept r idx data) = last_source_us r"
  "detected_frag_size (accept r idx data) = detected_after r idx data"
  "received (accept r idx data) = (received r)[idx := True]"
  by (simp_all add: accept_def)

lemma store_fragment_eq:
  assumes "wf_receiver r" "idx < unat (total_frags r)"
  shows "store_fragment r first_frag idx data = Inr
    (if dest_of r idx data + length data > length (rcv_buf r)
     then (ingested_default\<lparr>new_seq := first_frag\<rparr>, r\<lparr>detected_frag_size := detected_after r idx data\<rparr>)
     else if got_frags r + 1 = total_frags r
     then (\<lparr>assembled = Some (take (rcv_payload_size r) (rcv_buf (accept r idx data))),
            new_seq = first_frag, heartbeat = False, ing_buf_offset = last_buf_offset r\<rparr>,
           (accept r idx data)\<lparr>last_fragment_count := total_frags r, current_seq := None\<rparr>)
     else (ingested_default\<lparr>new_seq := first_frag\<rparr>, accept r idx data))"
proof -
  let ?r1 = "r\<lparr>detected_frag_size := detected_after r idx data\<rparr>"
  have r1: "(if idx < unat (total_frags r) - 1 \<and> detected_frag_size r = 0
      then r\<lparr>detected_frag_size := length data\<rparr> else r) = ?r1"
    by (simp add: detected_after_def)
  have idx: "idx < length (received r)" and pay: "rcv_payload_size r \<le> length (rcv_buf r)"
    using assms by (auto simp: wf_receiver_def)
  have dest: "idx * (if 0 < detected_frag_size ?r1 then detected_frag_size ?r1
      else MAX_PAYLOAD_PER_DATAGRAM) = dest_of r idx data"
    by (simp add: dest_of_def)
  show ?thesis
    unfolding store_fragment_def Let_def r1 dest
    using idx pay by (simp add: store_def slice_ok accept_def)
qed

lemma marked_accept:
  assumes "wf_receiver r" "idx < unat (total_frags r)"
  shows "marked (accept r idx data) = insert idx (marked r)"
  using assms by (auto simp: marked_def wf_receiver_def nth_list_update)

lemma card_marked_le: "wf_receiver r \<Longrightarrow> card (marked r) \<le> MAX_FRAGMENTS"
  using card_mono [OF _ marked_subset, of r] by (simp add: wf_receiver_def)

lemma unat_got_Suc:
  assumes "wf_receiver r"
  shows "unat (got_frags r + 1) = Suc (card (marked r))"
proof -
  have "unat (got_frags r) + 1 < 2 ^ 16"
    using assms card_marked_le [OF assms] by (simp add: wf_receiver_def wire_consts)
  then have "unat (got_frags r + 1) = unat (got_frags r) + 1"
    by (simp add: unat_word_ariths)
  then show ?thesis using assms by (simp add: wf_receiver_def)
qed

lemma wf_accept:
  assumes "wf_receiver r" "idx < unat (total_frags r)" "\<not> received r ! idx"
    "dest_of r idx data + length data \<le> length (rcv_buf r)"
  shows "wf_receiver (accept r idx data)"
proof -
  have "idx \<notin> marked r" using assms(3) by (simp add: marked_def)
  then have "card (marked (accept r idx data)) = Suc (card (marked r))"
    by (simp add: marked_accept [OF assms(1,2)])
  with assms unat_got_Suc [OF assms(1)] show ?thesis
    by (simp add: wf_receiver_def) (simp add: accept_def)
qed

lemma wf_detected [simp]: "wf_receiver (r\<lparr>detected_frag_size := n\<rparr>) = wf_receiver r"
  by (simp add: wf_receiver_def marked_def)

lemma wf_complete [simp]:
  "wf_receiver (r\<lparr>last_fragment_count := c, current_seq := q\<rparr>) = wf_receiver r"
  by (simp add: wf_receiver_def marked_def)

lemma store_fragment_ok:
  assumes "wf_receiver r" "idx < unat (total_frags r)" "\<not> received r ! idx"
  shows "\<exists>out r'. store_fragment r first_frag idx data = Inr (out, r') \<and> wf_receiver r' \<and>
    max_payload r' = max_payload r"
  using wf_accept [OF assms] assms(1) by (simp add: store_fragment_eq [OF assms(1,2)])

text \<open>
  The three stages of \<open>ingest\<close> for a well-formed receiver: heartbeats and runts, the
  switch to the datagram's sequence, and the acceptance test.
\<close>

definition noted :: "receiver \<Rightarrow> header \<Rightarrow> receiver" where
  "noted r hdr = (if hdr_fragment hdr = 0 then r\<lparr>last_source_us := hdr_source_us hdr\<rparr> else r)"

definition switched :: "receiver \<Rightarrow> header \<Rightarrow> receiver" where
  "switched r hdr =
     (if current_seq r = Some (hdr_sequence hdr) then noted r hdr else fresh_seq (noted r hdr) hdr)"

lemma noted_simps [simp]:
  "rcv_buf (noted r hdr) = rcv_buf r"
  "received (noted r hdr) = received r"
  "max_payload (noted r hdr) = max_payload r"
  "current_seq (noted r hdr) = current_seq r"
  "total_frags (noted r hdr) = total_frags r"
  "got_frags (noted r hdr) = got_frags r"
  "rcv_payload_size (noted r hdr) = rcv_payload_size r"
  "detected_frag_size (noted r hdr) = detected_frag_size r"
  "dropped_sequences (noted r hdr) = dropped_sequences r"
  "last_buf_offset (noted r hdr) = last_buf_offset r"
  "marked (noted r hdr) = marked r"
  "wf_receiver (noted r hdr) = wf_receiver r"
  by (simp_all add: noted_def marked_def)

lemma wf_switched: "wf_receiver r \<Longrightarrow> wf_receiver (switched r hdr)"
  by (simp add: switched_def wf_fresh_seq)

lemma max_payload_switched [simp]: "max_payload (switched r hdr) = max_payload r"
  by (simp add: switched_def)

lemma rcv_buf_switched [simp]: "rcv_buf (switched r hdr) = rcv_buf r"
  by (simp add: switched_def)

lemma current_seq_switched [simp]: "current_seq (switched r hdr) = Some (hdr_sequence hdr)"
  by (simp add: switched_def)

lemma ingest_runt: "length dg < HEADER_SIZE \<Longrightarrow> ingest r dg = Inr (ingested_default, r)"
  by (simp add: ingest_def)

lemma ingest_heartbeat:
  "HEADER_SIZE \<le> length dg \<Longrightarrow> hdr_fragments (read_header dg) = 0 \<Longrightarrow>
   ingest r dg = Inr (ingested_default\<lparr>heartbeat := True\<rparr>, r)"
  by (simp add: ingest_def Let_def)

lemma ingest_data:
  assumes "wf_receiver r" "HEADER_SIZE \<le> length dg" "hdr_fragments (read_header dg) \<noteq> 0"
  shows "ingest r dg =
    (let hdr = read_header dg; r2 = switched r hdr; idx = unat (hdr_fragment hdr);
         data = drop HEADER_SIZE dg
     in if unat (total_frags r2) \<le> idx \<or> received r2 ! idx \<or> MAX_PAYLOAD_PER_DATAGRAM < length data
        then Inr (ingested_default\<lparr>new_seq := hdr_fragment hdr = 0\<rparr>, r2)
        else store_fragment r2 (hdr_fragment hdr = 0) idx data)"
proof -
  let ?hdr = "read_header dg" and ?r2 = "switched r (read_header dg)"
  let ?idx = "unat (hdr_fragment ?hdr)"
  have switch: "(if case current_seq (noted r ?hdr) of Some s \<Rightarrow> s \<noteq> hdr_sequence ?hdr | None \<Rightarrow> True
      then reset (noted r ?hdr) ?hdr else Inr (noted r ?hdr)) = Inr ?r2"
    using assms(1) by (auto simp: switched_def reset_eq split: option.splits)
  have idx: "?idx < length (received ?r2)" if "?idx < unat (total_frags ?r2)"
    using wf_switched [OF assms(1), of ?hdr] that by (simp add: wf_receiver_def)
  show ?thesis
    using assms(2,3) idx unfolding ingest_def Let_def noted_def [symmetric] switch
    by (auto simp: index_ok not_le)
qed

lemma ingest_ok:
  assumes "wf_receiver r"
  shows "\<exists>out r'. ingest r dg = Inr (out, r') \<and> wf_receiver r' \<and> max_payload r' = max_payload r"
proof (cases "length dg < HEADER_SIZE \<or> hdr_fragments (read_header dg) = 0")
  case True
  with assms show ?thesis by (cases "length dg < HEADER_SIZE") (auto simp: ingest_runt ingest_heartbeat)
next
  case False
  let ?r2 = "switched r (read_header dg)" and ?idx = "unat (hdr_fragment (read_header dg))"
  have wf: "wf_receiver ?r2" using assms by (rule wf_switched)
  from False assms wf store_fragment_ok [OF wf, of ?idx "hdr_fragment (read_header dg) = 0" "drop HEADER_SIZE dg"]
  show ?thesis
    by (cases "unat (total_frags ?r2) \<le> ?idx \<or> received ?r2 ! ?idx \<or>
        MAX_PAYLOAD_PER_DATAGRAM < length (drop HEADER_SIZE dg)")
      (auto simp: ingest_data Let_def)
qed

section \<open>No datagram makes the receiver panic\<close>

interpretation rx: safe_machine ingest "\<lambda>r. wf_receiver r \<and> max_payload r = mp" "\<lambda>_. True" for mp
proof
  show "wf_receiver s' \<and> max_payload s' = mp"
    if "wf_receiver s \<and> max_payload s = mp" "ingest s i = Inr (out, s')" for s i out s'
    using that ingest_ok [of s i] by auto
  show "returns (ingest s i)" if "wf_receiver s \<and> max_payload s = mp" for s i
    using that ingest_ok [of s i] by auto
qed

text \<open>C14: whatever datagrams arrive, of any length and content, a receiver made by
  \<open>Receiver::new\<close> processes all of them without a panic, and its reassembly buffer keeps the
  size it was allocated with.\<close>

theorem ingest_total:
  "\<exists>outs r'. ingest_all (receiver_new mp) datagrams = Inr (outs, r') \<and>
     length outs = length datagrams \<and> wf_receiver r' \<and> length (rcv_buf r') = mp"
proof -
  have "wf_receiver (receiver_new mp) \<and> max_payload (receiver_new mp) = mp" by simp
  from rx.run_returns [OF this, of datagrams] show ?thesis by (auto simp: length_rcv_buf list_all_iff)
qed

end
