(* ===== verification/Reassembly.thy ===== *)
theory Reassembly
  imports Proto_Sender Proto_Receiver
begin

text \<open>
  The sender and the receiver together: a receiver that has got some of the
  fragments of a message, in any order and with repetitions, and the theorems
  that the last missing fragment returns the message and nothing before it does.
\<close>

definition good_message :: "nat \<Rightarrow> byte list \<Rightarrow> bool" where
  "good_message ppd data \<longleftrightarrow>
     0 < ppd \<and> ppd \<le> MAX_PAYLOAD_PER_DATAGRAM \<and> data \<noteq> [] \<and>
     fragment_count ppd data \<le> MAX_FRAGMENTS"

text \<open>What the receiver holds once the fragments in \<open>S\<close> have been accepted.\<close>

definition holds :: "u32 \<Rightarrow> nat \<Rightarrow> byte list \<Rightarrow> u64 \<Rightarrow> u32 \<Rightarrow> receiver \<Rightarrow> nat set \<Rightarrow> bool" where
  "holds sq ppd data us off r S \<longleftrightarrow>
     wf_receiver r \<and> current_seq r = Some sq \<and>
     unat (total_frags r) = fragment_count ppd data \<and> marked r = S \<and>
     rcv_payload_size r = length data \<and> last_buf_offset r = off \<and>
     (0 \<in> S \<longrightarrow> last_source_us r = us) \<and>
     detected_frag_size r = (if \<exists>i \<in> S. i < fragment_count ppd data - 1 then ppd else 0) \<and>
     (\<forall>i \<in> S. take (length (chunk ppd data i)) (drop (i * ppd) (rcv_buf r)) = chunk ppd data i)"

text \<open>The fragment size is known, or not needed, when fragment \<open>i\<close> arrives.\<close>

definition placeable :: "nat \<Rightarrow> byte list \<Rightarrow> nat set \<Rightarrow> nat \<Rightarrow> bool" where
  "placeable ppd data S i \<longleftrightarrow>
     i < fragment_count ppd data - 1 \<or> (\<exists>j \<in> S. j < fragment_count ppd data - 1) \<or>
     fragment_count ppd data = 1 \<or> ppd = MAX_PAYLOAD_PER_DATAGRAM"

definition quiet :: "nat \<Rightarrow> ingested" where
  "quiet i = ingested_default\<lparr>new_seq := (i = 0)\<rparr>"

definition complete :: "byte list \<Rightarrow> u32 \<Rightarrow> nat \<Rightarrow> ingested" where
  "complete data off i =
     \<lparr>assembled = Some data, new_seq = (i = 0), heartbeat = False, ing_buf_offset = off\<rparr>"

section \<open>Messages fit the header fields\<close>

lemma good_message_bounds:
  assumes "good_message ppd data"
  shows "0 < ppd" "0 < fragment_count ppd data" "fragment_count ppd data \<le> 256"
    "length data < 2 ^ 32"
proof -
  show ppd: "0 < ppd" using assms by (simp add: good_message_def)
  then have "fragment_count ppd data \<noteq> 0"
    using assms fragment_count_eq_0 [OF ppd, of data] unfolding good_message_def by blast
  then show "0 < fragment_count ppd data" by simp
  show "fragment_count ppd data \<le> 256"
    using assms by (simp add: good_message_def wire_consts)
  then have "length data \<le> 256 * ppd" using fragment_count_le_iff [OF ppd] by blast
  also have "\<dots> \<le> 256 * 8976"
    using assms by (intro mult_le_mono) (auto simp: good_message_def wire_consts)
  finally show "length data < 2 ^ 32" by simp
qed

lemma frag_header_fields:
  assumes "good_message ppd data" "i < fragment_count ppd data"
    and h_def: "h = frag_header sq (fragment_count ppd data) (length data) us off i"
  shows "unat (hdr_fragment h) = i" "unat (hdr_fragments h) = fragment_count ppd data"
    "unat (hdr_payload_size h) = length data" "hdr_fragments h \<noteq> 0"
    "hdr_sequence h = sq" "hdr_buf_offset h = off" "hdr_source_us h = us"
    "hdr_fragment h = 0 \<longleftrightarrow> i = 0"
proof -
  note b = good_message_bounds [OF assms(1)]
  show i: "unat (hdr_fragment h) = i"
    using b assms(2) by (simp add: h_def frag_header_def unat_of_nat_small)
  show n: "unat (hdr_fragments h) = fragment_count ppd data"
    using b by (simp add: h_def frag_header_def unat_of_nat_small)
  show "unat (hdr_payload_size h) = length data"
    using b by (simp add: h_def frag_header_def unat_of_nat_small)
  show "hdr_fragments h \<noteq> 0" using n b by (metis less_irrefl unsigned_0)
  show "hdr_sequence h = sq" "hdr_buf_offset h = off" "hdr_source_us h = us"
    by (simp_all add: h_def frag_header_def)
  show "hdr_fragment h = 0 \<longleftrightarrow> i = 0" using i by (metis unat_eq_zero unsigned_0)
qed

section \<open>Chunks in the buffer\<close>

lemma chunk_windows_all:
  assumes "0 < ppd" "length data \<le> length buf"
    "\<And>i. i < fragment_count ppd data \<Longrightarrow>
       take (length (chunk ppd data i)) (drop (i * ppd) buf) = chunk ppd data i"
  shows "take (length data) buf = data"
proof (rule nth_equalityI)
  show "length (take (length data) buf) = length data" using assms(2) by simp
  fix p assume "p < length (take (length data) buf)"
  then have p: "p < length data" by simp
  let ?i = "p div ppd" and ?j = "p mod ppd"
  have ij: "?i * ppd + ?j = p" by simp
  have i: "?i < fragment_count ppd data"
    using assms(1) p by (metis le_less_trans less_fragment_count_iff div_times_less_eq_dividend)
  have j: "?j < length (chunk ppd data ?i)"
    using assms(1) p ij by (simp add: length_chunk less_diff_conv add.commute)
  have le: "?i * ppd \<le> length data" "?i * ppd \<le> length buf" using ij p assms(2) by linarith+
  have "buf ! p = take (length (chunk ppd data ?i)) (drop (?i * ppd) buf) ! ?j"
    using j nth_drop [OF le(2), of ?j] by (simp only: nth_take ij)
  also have "\<dots> = chunk ppd data ?i ! ?j" using assms(3) [OF i] by simp
  also have "\<dots> = data ! p"
    using assms(1) nth_drop [OF le(1), of ?j] by (simp only: chunk_def nth_take mod_less_divisor ij)
  finally show "take (length data) buf ! p = data ! p" using p by simp
qed

lemma blit_chunk_window:
  assumes "0 < ppd" "i \<noteq> j" "j * ppd + length (chunk ppd data j) \<le> length buf"
  shows "take (length (chunk ppd data i)) (drop (i * ppd) (blit (j * ppd) (chunk ppd data j) buf)) =
    take (length (chunk ppd data i)) (drop (i * ppd) buf)"
proof (cases "i < j")
  case True
  then have "i * ppd + length (chunk ppd data i) \<le> j * ppd"
    using length_chunk_le [of ppd data i] mult_le_mono1 [of "Suc i" j ppd] by simp
  with assms(3) show ?thesis by (rule blit_frame_before)
next
  case False
  then have "j * ppd + length (chunk ppd data j) \<le> i * ppd"
    using assms(2) length_chunk_le [of ppd data j] mult_le_mono1 [of "Suc j" i ppd] by simp
  with assms(3) show ?thesis by (rule blit_frame_after)
qed

section \<open>One fragment\<close>

lemma fresh_holds:
  assumes "good_message ppd data" "i < fragment_count ppd data" "wf_receiver r"
    "length data \<le> max_payload r" "current_seq r \<noteq> Some sq"
  shows "holds sq ppd data us off
    (switched r (frag_header sq (fragment_count ppd data) (length data) us off i)) {}"
proof -
  define h where "h = frag_header sq (fragment_count ppd data) (length data) us off i"
  note f = frag_header_fields [OF assms(1,2) h_def]
  have r2: "switched r h = fresh_seq (noted r h) h"
    using assms(5) f by (simp add: switched_def)
  have ok: "\<not> malformed (noted r h) h"
    using assms(4) f good_message_bounds [OF assms(1)] by (simp add: malformed_def wire_consts)
  have "wf_receiver (switched r h)" using assms(3) by (rule wf_switched)
  then show ?thesis
    unfolding h_def [symmetric]
    using f ok by (simp add: holds_def r2) (simp add: fresh_seq_def)
qed

lemma same_seq_holds:
  assumes "good_message ppd data" "i < fragment_count ppd data" "holds sq ppd data us off r S"
  shows "holds sq ppd data us off
    (switched r (frag_header sq (fragment_count ppd data) (length data) us off i)) S"
proof -
  define h where "h = frag_header sq (fragment_count ppd data) (length data) us off i"
  note f = frag_header_fields [OF assms(1,2) h_def]
  have "switched r h = noted r h" using assms(3) f by (simp add: switched_def holds_def)
  then show ?thesis
    unfolding h_def [symmetric] using assms(3) f by (simp add: holds_def) (simp add: noted_def)
qed

lemma accept_holds:
  assumes "good_message ppd data" "i < fragment_count ppd data" "holds sq ppd data us off r S"
    "i \<notin> S" "placeable ppd data S i" "length data \<le> max_payload r"
    "i = 0 \<longrightarrow> last_source_us r = us"
  shows "dest_of r i (chunk ppd data i) + length (chunk ppd data i) \<le> length (rcv_buf r)"
    and "holds sq ppd data us off (accept r i (chunk ppd data i)) (insert i S)"
proof -
  let ?n = "fragment_count ppd data" and ?c = "chunk ppd data i"
  note b = good_message_bounds [OF assms(1)]
  have r: "wf_receiver r" "unat (total_frags r) = ?n" "marked r = S"
    using assms(3) by (simp_all add: holds_def)
  have buf: "length (rcv_buf r) = max_payload r" using r(1) by (rule length_rcv_buf)
  have detected: "detected_after r i ?c = (if i < ?n - 1 \<or> (\<exists>j \<in> S. j < ?n - 1) then ppd else 0)"
    using assms(3) b chunk_full [OF b(1), of i data]
    by (auto simp: detected_after_def holds_def less_diff_conv)
  have dest: "dest_of r i ?c = i * ppd"
  proof (cases "i < ?n - 1 \<or> (\<exists>j \<in> S. j < ?n - 1)")
    case True
    then show ?thesis using b(1) unfolding dest_of_def detected by simp
  next
    case False
    then have "?n = 1 \<or> ppd = MAX_PAYLOAD_PER_DATAGRAM" using assms(5) by (auto simp: placeable_def)
    with False assms(2) show ?thesis unfolding dest_of_def detected by auto
  qed
  have fits: "i * ppd + length ?c \<le> length data" using chunk_end [OF b(1) assms(2)] .
  then show room: "dest_of r i ?c + length ?c \<le> length (rcv_buf r)"
    using assms(6) buf dest by simp
  have i: "i < unat (total_frags r)" "\<not> received r ! i"
    using r assms(2,4) by (auto simp: marked_def)
  have win: "take (length (chunk ppd data j)) (drop (j * ppd) (rcv_buf (accept r i ?c))) = chunk ppd data j"
    if "j \<in> insert i S" for j
  proof (cases "j = i")
    case True
    then show ?thesis using room dest by (simp add: accept_def blit_window)
  next
    case False
    with that have "j \<in> S" by simp
    then have "take (length (chunk ppd data j)) (drop (j * ppd) (rcv_buf r)) = chunk ppd data j"
      using assms(3) by (simp add: holds_def)
    then show ?thesis
      using blit_chunk_window [OF b(1) False] room dest by (simp add: accept_def)
  qed
  have "marked (accept r i ?c) = insert i S" using marked_accept [OF r(1) i(1)] r(3) by simp
  then show "holds sq ppd data us off (accept r i ?c) (insert i S)"
    unfolding holds_def
    using wf_accept [OF r(1) i room] assms(3,7) win detected by (auto simp: holds_def)
qed

lemma ingest_frame_unfold:
  assumes "good_message ppd data" "i < fragment_count ppd data" "wf_receiver r"
    and h_def: "h = frag_header sq (fragment_count ppd data) (length data) us off i"
  shows "ingest r (frame sq ppd data us off i) =
    (if unat (total_frags (switched r h)) \<le> i \<or> received (switched r h) ! i
     then Inr (quiet i, switched r h)
     else store_fragment (switched r h) (i = 0) i (chunk ppd data i))"
proof -
  have "length (chunk ppd data i) \<le> MAX_PAYLOAD_PER_DATAGRAM"
    using assms(1) length_chunk_le [of ppd data i] by (simp add: good_message_def)
  then show ?thesis
    using frag_header_fields [OF assms(1,2) h_def]
    by (simp add: ingest_data [OF assms(3)] Let_def flip: h_def) (simp add: quiet_def)
qed

lemma ingest_frame:
  assumes "good_message ppd data" "i < fragment_count ppd data"
    "holds sq ppd data us off (switched r (frag_header sq (fragment_count ppd data) (length data) us off i)) S"
    "wf_receiver r" "length data \<le> max_payload r" "i \<in> S \<or> placeable ppd data S i"
  shows "\<exists>r'. ingest r (frame sq ppd data us off i) =
      Inr (if i \<notin> S \<and> insert i S = {..<fragment_count ppd data} then complete data off i else quiet i, r') \<and>
    wf_receiver r' \<and> max_payload r' = max_payload r \<and>
    dropped_sequences r' = dropped_sequences (switched r (frag_header sq (fragment_count ppd data) (length data) us off i)) \<and>
    (if i \<notin> S \<and> insert i S = {..<fragment_count ppd data}
     then current_seq r' = None \<and> last_source_us r' = us
     else holds sq ppd data us off r' (insert i S))"
proof -
  let ?n = "fragment_count ppd data" and ?c = "chunk ppd data i"
  define h where "h = frag_header sq ?n (length data) us off i"
  note b = good_message_bounds [OF assms(1)]
  note f = frag_header_fields [OF assms(1,2) h_def]
  define r2 where "r2 = switched r h"
  have h2: "holds sq ppd data us off r2 S" using assms(3) by (simp add: r2_def h_def)
  have us: "i = 0 \<longrightarrow> last_source_us r2 = us"
    using f by (auto simp: r2_def switched_def noted_def)
  have wf: "wf_receiver r2" and tot: "unat (total_frags r2) = ?n" and S: "marked r2 = S"
    using h2 by (simp_all add: holds_def)
  have rec: "received r2 ! i \<longleftrightarrow> i \<in> S" using S tot assms(2) by (auto simp: marked_def)
  have ing: "ingest r (frame sq ppd data us off i) =
      (if i \<in> S then Inr (quiet i, r2) else store_fragment r2 (i = 0) i ?c)"
    using assms(2) tot rec by (simp add: ingest_frame_unfold [OF assms(1,2,4) h_def] flip: r2_def)
  show ?thesis
  proof (cases "i \<in> S")
    case True
    then show ?thesis
      using ing h2 wf by (auto simp: insert_absorb r2_def h_def)
  next
    case False
    have mp: "max_payload r2 = max_payload r" by (simp add: r2_def)
    note acc = accept_holds [OF assms(1,2) h2 False _ _ us]
    have room: "dest_of r2 i ?c + length ?c \<le> length (rcv_buf r2)"
      and holds: "holds sq ppd data us off (accept r2 i ?c) (insert i S)"
      using acc assms(5,6) False mp by auto
    have "unat (got_frags r2 + 1) = card (insert i S)"
      using unat_got_Suc [OF wf] S False finite_marked [of r2] by simp
    then have full: "got_frags r2 + 1 = total_frags r2 \<longleftrightarrow> insert i S = {..<?n}"
      using tot S marked_subset [of r2] assms(2) finite_marked [of r2]
      by (metis card_lessThan card_subset_eq finite_lessThan insert_subset lessThan_iff unsigned_word_eqI)
    have pay: "take (rcv_payload_size r2) (rcv_buf (accept r2 i ?c)) = data" if "insert i S = {..<?n}"
    proof -
      have "length data \<le> length (rcv_buf (accept r2 i ?c))"
        using holds assms(5) mp length_rcv_buf [of "accept r2 i ?c"] by (simp add: holds_def)
      moreover have "rcv_payload_size r2 = length data" using h2 by (simp add: holds_def)
      ultimately show ?thesis
        using chunk_windows_all [OF b(1), of data "rcv_buf (accept r2 i ?c)"] holds that
        by (simp add: holds_def)
    qed
    have us': "insert i S = {..<?n} \<longrightarrow> last_source_us r2 = us"
      using holds b(2) by (auto simp: holds_def)
    have off: "last_buf_offset r2 = off" using h2 by (simp add: holds_def)
    have wf': "wf_receiver (accept r2 i ?c)" using holds by (simp add: holds_def)
    have i: "i < unat (total_frags r2)" using tot assms(2) by simp
    show ?thesis
      using False room full pay us' off holds wf' mp
      by (auto simp: ing store_fragment_eq [OF wf i] complete_def quiet_def simp flip: h_def r2_def)
  qed
qed

section \<open>Deliveries\<close>

lemma deliver_incomplete:
  assumes "good_message ppd data" "holds sq ppd data us off r S" "length data \<le> max_payload r"
    "set is \<subseteq> {..<fragment_count ppd data}" "S \<union> set is \<noteq> {..<fragment_count ppd data}"
    "is = [] \<or> placeable ppd data S (hd is)" "S \<subseteq> {..<fragment_count ppd data}"
  shows "\<exists>r'. ingest_all r (map (frame sq ppd data us off) is) = Inr (map quiet is, r') \<and>
    holds sq ppd data us off r' (S \<union> set is) \<and> max_payload r' = max_payload r \<and>
    dropped_sequences r' = dropped_sequences r"
  using assms(2-)
proof (induction "is" arbitrary: r S)
  case Nil
  then show ?case by simp
next
  case (Cons i "is")
  let ?n = "fragment_count ppd data"
  define h where "h = frag_header sq ?n (length data) us off i"
  have i: "i < ?n" using Cons.prems(3) by simp
  have sw: "holds sq ppd data us off (switched r h) S"
    unfolding h_def by (rule same_seq_holds [OF assms(1) i Cons.prems(1)])
  have wf: "wf_receiver r" "current_seq r = Some sq" using Cons.prems(1) by (simp_all add: holds_def)
  have nd: "dropped_sequences (switched r h) = dropped_sequences r"
    using wf(2) frag_header_fields [OF assms(1) i h_def] by (simp add: switched_def)
  have ne: "insert i S \<noteq> {..<?n}" using Cons.prems(3,4,6) by auto
  from ingest_frame [OF assms(1) i, of sq us off r S] sw wf(1) Cons.prems(2,5) ne
  obtain r1 where r1: "ingest r (frame sq ppd data us off i) = Inr (quiet i, r1)"
    "holds sq ppd data us off r1 (insert i S)" "max_payload r1 = max_payload r"
    "dropped_sequences r1 = dropped_sequences r"
    by (auto simp: nd simp flip: h_def)
  have pl: "is = [] \<or> placeable ppd data (insert i S) (hd is)"
    using Cons.prems(5) by (auto simp: placeable_def)
  from Cons.IH [OF r1(2)] Cons.prems pl r1
  show ?case by (auto simp: insert_commute)
qed

lemma deliver_all:
  assumes msg: "good_message ppd data" and r: "wf_receiver r" "length data \<le> max_payload r"
    "current_seq r \<noteq> Some sq"
    and order: "set is \<subseteq> {..<fragment_count ppd data}" "k \<notin> set is"
      "insert k (set is) = {..<fragment_count ppd data}"
    and first: "placeable ppd data {} (hd (is @ [k]))"
  shows "\<exists>r'. ingest_all r (map (frame sq ppd data us off) (is @ [k])) =
      Inr (map quiet is @ [complete data off k], r') \<and>
    wf_receiver r' \<and> max_payload r' = max_payload r \<and> current_seq r' = None \<and>
    last_source_us r' = us \<and> dropped_sequences r' = dropped_sequences (count_drop r)"
proof (cases "is")
  case Nil
  let ?n = "fragment_count ppd data"
  have k: "k < ?n" using order by auto
  define h where "h = frag_header sq ?n (length data) us off k"
  have sw: "holds sq ppd data us off (switched r h) {}"
    unfolding h_def by (rule fresh_holds [OF msg k r])
  have dr: "dropped_sequences (switched r h) = dropped_sequences (count_drop r)"
    using r(3) frag_header_fields [OF msg k h_def]
    by (simp add: switched_def) (simp add: count_drop_def noted_def)
  from ingest_frame [OF msg k, of sq us off r "{}"] sw r Nil first order(3) dr
  show ?thesis by (auto simp: fun_upd_def simp flip: h_def)
next
  case (Cons i js)
  let ?n = "fragment_count ppd data"
  have i: "i < ?n" using order Cons by auto
  define h where "h = frag_header sq ?n (length data) us off i"
  have sw: "holds sq ppd data us off (switched r h) {}"
    unfolding h_def by (rule fresh_holds [OF msg i r])
  have dr: "dropped_sequences (switched r h) = dropped_sequences (count_drop r)"
    using r(3) frag_header_fields [OF msg i h_def]
    by (simp add: switched_def) (simp add: count_drop_def noted_def)
  have kne: "k \<noteq> i" "k < ?n" using order Cons by auto
  then have one: "{i} \<noteq> {..<?n}" by auto
  from ingest_frame [OF msg i, of sq us off r "{}"] sw r Cons first one
  obtain r1 where r1: "ingest r (frame sq ppd data us off i) = Inr (quiet i, r1)"
    "holds sq ppd data us off r1 {i}" "max_payload r1 = max_payload r"
    "dropped_sequences r1 = dropped_sequences (count_drop r)"
    by (auto simp: dr simp flip: h_def)
  have pl: "placeable ppd data {i} j" for j
    using first Cons by (auto simp: placeable_def)
  have rest: "set js \<subseteq> {..<?n}" "{i} \<union> set js \<noteq> {..<?n}" "js = [] \<or> placeable ppd data {i} (hd js)" "{i} \<subseteq> {..<?n}"
    using order Cons pl kne by auto
  from deliver_incomplete [OF msg r1(2) _ rest] r(2) r1(3)
  obtain r2 where r2: "ingest_all r1 (map (frame sq ppd data us off) js) = Inr (map quiet js, r2)"
    "holds sq ppd data us off r2 (insert i (set js))" "max_payload r2 = max_payload r"
    "dropped_sequences r2 = dropped_sequences (count_drop r)"
    using r1(4) by auto
  define hk where "hk = frag_header sq ?n (length data) us off k"
  have swk: "holds sq ppd data us off (switched r2 hk) (insert i (set js))"
    unfolding hk_def by (rule same_seq_holds [OF msg kne(2) r2(2)])
  have wf2: "wf_receiver r2" "current_seq r2 = Some sq" using r2(2) by (simp_all add: holds_def)
  have nd: "dropped_sequences (switched r2 hk) = dropped_sequences r2"
    using wf2(2) frag_header_fields [OF msg kne(2) hk_def] by (simp add: switched_def)
  have plk: "placeable ppd data (insert i (set js)) k" using pl [of k] by (auto simp: placeable_def)
  have all: "insert k (insert i (set js)) = {..<?n}" "k \<notin> insert i (set js)" using order Cons by auto
  from ingest_frame [OF msg kne(2), of sq us off r2 "insert i (set js)"] swk wf2 r2 r plk all
  obtain r3 where r3: "ingest r2 (frame sq ppd data us off k) = Inr (complete data off k, r3)"
    "wf_receiver r3" "max_payload r3 = max_payload r" "current_seq r3 = None"
    "last_source_us r3 = us" "dropped_sequences r3 = dropped_sequences (count_drop r)"
    by (auto simp: nd simp flip: hk_def)
  have "ingest_all r (map (frame sq ppd data us off) is) = Inr (map quiet is, r2)"
    using r1(1) r2(1) Cons by simp
  with r3 show ?thesis by (simp add: run_append)
qed

text \<open>A message of one fragment.\<close>

lemma single_delivered:
  assumes "good_message ppd data" "fragment_count ppd data = 1"
    and q: "wf_receiver q" "length data \<le> max_payload q" "current_seq q \<noteq> Some sq"
  shows "\<exists>r'. ingest q (frame sq ppd data us off 0) = Inr (complete data off 0, r') \<and>
    wf_receiver r' \<and> max_payload r' = max_payload q \<and> current_seq r' = None"
  using deliver_all [OF assms(1) q, of "[]" 0 us off] assms(2)
  by (auto simp: placeable_def rbind_eq_Inr)

text \<open>C4: Reassembly depends on the order of the fragments only in which one comes first. Let the
  fragments of a message that fits the protocol and the buffer arrive in any order, with any
  repetitions before completion, where the first to arrive is not the final fragment unless the
  message has only one or the sender uses the default datagram size. If \<open>k\<close> is the last missing one,
  the receiver returns exactly the sent bytes and offset at \<open>k\<close> and no payload before, keeps the
  sender's timestamp, and counts the sequence it had to abandon. What happens when the final
  fragment does come first is \<open>final_fragment_first_misplaced\<close>.\<close>

theorem reassembly_any_order:
  assumes "good_message ppd data" "wf_receiver r" "length data \<le> max_payload r"
    "current_seq r \<noteq> Some sq"
    "set is \<subseteq> {..<fragment_count ppd data}" "k \<notin> set is"
    "insert k (set is) = {..<fragment_count ppd data}"
    "hd (is @ [k]) = fragment_count ppd data - 1 \<longrightarrow>
       fragment_count ppd data = 1 \<or> ppd = MAX_PAYLOAD_PER_DATAGRAM"
  shows "\<exists>r'. ingest_all r (map (frame sq ppd data us off) (is @ [k])) =
      Inr (map quiet is @ [complete data off k], r') \<and>
    wf_receiver r' \<and> max_payload r' = max_payload r \<and> current_seq r' = None \<and>
    last_source_us r' = us \<and> dropped_sequences r' = dropped_sequences (count_drop r)"
proof (rule deliver_all [OF assms(1-7)])
  have "hd (is @ [k]) < fragment_count ppd data" using assms(5,7) by (cases "is") auto
  with assms(8) show "placeable ppd data {} (hd (is @ [k]))" by (auto simp: placeable_def)
qed

theorem reassembly_any_order_witness:
  "\<exists>r'. ingest_all (receiver_new 10) (map (frame 4 2 [1, 2, 3, 4, 5] 7 9) [1, 1, 2, 1, 0]) =
     Inr ([quiet 1, quiet 1, quiet 2, quiet 1, complete [1, 2, 3, 4, 5] 9 0], r') \<and>
   last_source_us r' = 7"
proof -
  have n: "fragment_count 2 [1, 2, 3, 4, 5 :: byte] = 3" by (simp add: fragment_count_def)
  have s: "insert 0 (set [1, 1, 2, 1]) = {..<(3::nat)}" by auto
  show ?thesis
    using reassembly_any_order [of 2 "[1, 2, 3, 4, 5]" "receiver_new 10" 4 "[1, 1, 2, 1]" 0 7 9] s
    by (auto simp: good_message_def n wire_consts)
qed

end
