(* ===== verification/Transport.thy ===== *)
theory Transport
  imports Reassembly
begin

text \<open>
  Properties of the transport as a whole: a message through \<open>Sender::send\<close> and
  \<open>Receiver::ingest\<close>, rejection of malformed and oversized datagrams, the count
  of abandoned sequences, and the delivery of duplicates.
\<close>

section \<open>End to end\<close>

text \<open>C7: a message that fits the protocol, sent over a lossless ordered network, is returned by
  the receiver exactly once and unchanged, at the last datagram, with its offset and timestamp.\<close>

theorem send_ingest_roundtrip:
  assumes "wf_sender s" "good_message (payload_per_datagram s) data"
    "wf_receiver r" "length data \<le> max_payload r" "current_seq r \<noteq> Some (snd_sequence s)"
  shows "\<exists>n s' ds r' outs last.
    send record_datagram s [] data us off = Inr (Inr (of_nat n), s', ds) \<and>
    snd_sequence s' = snd_sequence s + 1 \<and>
    ingest_all r ds = Inr (outs @ [last], r') \<and> length ds = n \<and>
    list_all (\<lambda>out. assembled out = None) outs \<and>
    assembled last = Some data \<and> ing_buf_offset last = off \<and>
    last_source_us r' = us \<and> current_seq r' = None \<and> wf_receiver r'"
proof -
  let ?ppd = "payload_per_datagram s" and ?sq = "snd_sequence s"
  let ?n = "fragment_count ?ppd data"
  note b = good_message_bounds [OF assms(2)]
  have "length data \<le> 65535 * ?ppd"
    using fragment_count_le_iff [OF b(1), of data 65535] b(3) by simp
  moreover have "data \<noteq> []" using assms(2) by (simp add: good_message_def)
  ultimately obtain s' where s': "send record_datagram s [] data us off =
      Inr (Inr (of_nat ?n), s', [] @ frames ?sq ?ppd data us off)" "snd_sequence s' = ?sq + 1"
    using send_record [OF assms(1), of data "[]" us off] by metis
  obtain m where m: "?n = Suc m" using b(2) by (auto simp: gr0_conv_Suc)
  have split: "frames ?sq ?ppd data us off = map (frame ?sq ?ppd data us off) ([0..<m] @ [m])"
    by (simp add: frames_def m)
  have ins: "insert m (set [0..<m]) = {..<?n}" using m by auto
  have first: "placeable ?ppd data {} (hd ([0..<m] @ [m]))"
    using m hd_upt [of 0 "Suc m"] by (auto simp: placeable_def)
  have "set [0..<m] \<subseteq> {..<?n}" "m \<notin> set [0..<m]" using m by auto
  from deliver_all [OF assms(2-5) this ins first, of us off]
  obtain r' where r': "ingest_all r (map (frame ?sq ?ppd data us off) ([0..<m] @ [m])) =
      Inr (map quiet [0..<m] @ [complete data off m], r')"
    "wf_receiver r'" "current_seq r' = None" "last_source_us r' = us" by blast
  have "list_all (\<lambda>out. assembled out = None) (map quiet [0..<m])"
    by (simp add: list_all_iff quiet_def ingested_default_def)
  with s' r' split show ?thesis
    by (intro exI [of _ ?n] exI [of _ s'] exI [of _ "frames ?sq ?ppd data us off"] exI [of _ r']
        exI [of _ "map quiet [0..<m]"] exI [of _ "complete data off m"])
      (simp add: complete_def m)
qed

theorem send_ingest_roundtrip_witness:
  "\<exists>n s' ds r' outs last.
    send record_datagram (with_datagram_size 26) [] [1, 2, 3] 5 64 = Inr (Inr (of_nat n), s', ds) \<and>
    ingest_all (receiver_new 8) ds = Inr (outs @ [last], r') \<and>
    assembled last = Some [1, 2, 3] \<and> ing_buf_offset last = 64 \<and> last_source_us r' = 5"
  using send_ingest_roundtrip [of "with_datagram_size 26" "[1, 2, 3]" "receiver_new 8" 5 64]
  by (simp add: good_message_def fragment_count_def wire_consts) blast

section \<open>Rejected datagrams\<close>

lemma ingest_blocked:
  assumes "wf_receiver r" "total_frags r = 0" "got_frags r = 0" "current_seq r = Some sq"
    "hdr_sequence (read_header dg) = sq"
  shows "\<exists>out r'. ingest r dg = Inr (out, r') \<and> assembled out = None \<and>
    rcv_buf r' = rcv_buf r \<and> wf_receiver r' \<and> total_frags r' = 0 \<and> got_frags r' = 0 \<and>
    current_seq r' = Some sq \<and> dropped_sequences r' = dropped_sequences r"
proof (cases "length dg < HEADER_SIZE \<or> hdr_fragments (read_header dg) = 0")
  case True
  with assms show ?thesis
    by (cases "length dg < HEADER_SIZE") (auto simp: ingest_runt ingest_heartbeat ingested_default_def)
next
  case False
  have "switched r (read_header dg) = noted r (read_header dg)"
    using assms by (simp add: switched_def)
  with False assms show ?thesis by (simp add: ingest_data Let_def ingested_default_def)
qed

lemma run_blocked:
  assumes "wf_receiver r" "total_frags r = 0" "got_frags r = 0" "current_seq r = Some sq"
    "\<forall>dg \<in> set dgs. hdr_sequence (read_header dg) = sq"
  shows "\<exists>outs r'. ingest_all r dgs = Inr (outs, r') \<and> list_all (\<lambda>out. assembled out = None) outs \<and>
    rcv_buf r' = rcv_buf r \<and> got_frags r' = 0 \<and> dropped_sequences r' = dropped_sequences r"
  using assms
proof (induction dgs arbitrary: r)
  case Nil
  then show ?case by simp
next
  case (Cons dg dgs)
  from ingest_blocked [OF Cons.prems(1-4), of dg] Cons.prems(5)
  obtain out r1 where r1: "ingest r dg = Inr (out, r1)" "assembled out = None" "rcv_buf r1 = rcv_buf r"
    "wf_receiver r1" "total_frags r1 = 0" "got_frags r1 = 0" "current_seq r1 = Some sq"
    "dropped_sequences r1 = dropped_sequences r"
    by auto
  from Cons.IH [OF r1(4-7)] Cons.prems(5) r1 show ?case by auto
qed

lemma ingest_malformed:
  assumes "wf_receiver r" "HEADER_SIZE \<le> length dg" "hdr_fragments (read_header dg) \<noteq> 0"
    "current_seq r \<noteq> Some (hdr_sequence (read_header dg))" "malformed r (read_header dg)"
  shows "\<exists>out r'. ingest r dg = Inr (out, r') \<and> assembled out = None \<and> rcv_buf r' = rcv_buf r \<and>
    wf_receiver r' \<and> max_payload r' = max_payload r \<and> total_frags r' = 0 \<and> got_frags r' = 0 \<and>
    current_seq r' = Some (hdr_sequence (read_header dg))"
proof -
  let ?h = "read_header dg"
  have sw: "switched r ?h = fresh_seq (noted r ?h) ?h" using assms(4) by (simp add: switched_def)
  have "malformed (noted r ?h) ?h" using assms(5) by (simp add: malformed_def)
  then have f: "total_frags (switched r ?h) = 0" "got_frags (switched r ?h) = 0"
    by (simp_all add: sw) (simp add: fresh_seq_def)
  then have "ingest r dg = Inr (ingested_default\<lparr>new_seq := hdr_fragment ?h = 0\<rparr>, switched r ?h)"
    using assms(1-3) by (simp add: ingest_data Let_def)
  then show ?thesis using f wf_switched [OF assms(1)] by (simp add: ingested_default_def)
qed

text \<open>Inside a running sequence the two fields are not looked at: datagrams that differ in nothing
  else have the same effect.\<close>

lemma running_sequence_unchecked:
  assumes "wf_receiver r" "HEADER_SIZE \<le> length d1" "HEADER_SIZE \<le> length d2"
    and "read_header d2 = (read_header d1)\<lparr>hdr_fragments := n, hdr_payload_size := z, hdr_buf_offset := w\<rparr>"
    and "drop HEADER_SIZE d2 = drop HEADER_SIZE d1" "hdr_fragments (read_header d1) \<noteq> 0" "n \<noteq> 0"
    and "current_seq r = Some (hdr_sequence (read_header d1))"
  shows "ingest r d2 = ingest r d1"
proof -
  have "switched r (read_header d2) = switched r (read_header d1)"
    using assms(4,8) by (simp add: switched_def noted_def)
  then show ?thesis using assms(1-7) by (simp add: ingest_data Let_def)
qed

text \<open>C30: A datagram that opens a sequence (its sequence number is not the one under way) and
  announces more than 256 fragments or a payload larger than the buffer is rejected together with
  every later datagram of that sequence that follows without another in between: nothing is
  assembled and the reassembly buffer is not written. A datagram that continues a sequence is not
  checked again (\<open>running_sequence_unchecked\<close>).\<close>

theorem malformed_rejected:
  assumes "wf_receiver r" "HEADER_SIZE \<le> length dg" "hdr_fragments (read_header dg) \<noteq> 0"
    "current_seq r \<noteq> Some (hdr_sequence (read_header dg))"
    "unat (hdr_fragments (read_header dg)) > 256 \<or>
     unat (hdr_payload_size (read_header dg)) > max_payload r"
    "\<forall>d \<in> set dgs. hdr_sequence (read_header d) = hdr_sequence (read_header dg)"
  shows "\<exists>outs r'. ingest_all r (dg # dgs) = Inr (outs, r') \<and>
    list_all (\<lambda>out. assembled out = None) outs \<and> rcv_buf r' = rcv_buf r"
proof -
  have "malformed r (read_header dg)" using assms(5) by (simp add: malformed_def wire_consts)
  from ingest_malformed [OF assms(1-4) this] obtain out r1 where r1: "ingest r dg = Inr (out, r1)"
    "assembled out = None" "rcv_buf r1 = rcv_buf r" "wf_receiver r1" "total_frags r1 = 0"
    "got_frags r1 = 0" "current_seq r1 = Some (hdr_sequence (read_header dg))" by blast
  from run_blocked [OF r1(4-7) assms(6)] r1(1-3) show ?thesis by auto
qed

definition bad_datagram :: "byte list" where
  "bad_datagram = header_bytes (frag_header 99 257 100 0 0 0) @ [0, 0]"

theorem malformed_rejected_witness:
  "\<exists>outs r'. ingest_all (receiver_new 50) [bad_datagram, bad_datagram] = Inr (outs, r') \<and>
     list_all (\<lambda>out. assembled out = None) outs \<and> rcv_buf r' = replicate 50 0"
  using malformed_rejected [of "receiver_new 50" bad_datagram "[bad_datagram]"]
  by (simp add: bad_datagram_def frag_header_def HEADER_SIZE_def)

lemma ingest_oversized:
  assumes "wf_receiver r" "MAX_DATAGRAM_SIZE < length dg"
  shows "\<exists>out. ingest r dg = Inr (out, if hdr_fragments (read_header dg) = 0 then r
      else switched r (read_header dg)) \<and> assembled out = None"
proof (cases "hdr_fragments (read_header dg) = 0")
  case True
  with assms show ?thesis by (auto simp: ingest_heartbeat wire_consts ingested_default_def)
next
  case False
  with assms show ?thesis by (auto simp: ingest_data Let_def wire_consts ingested_default_def)
qed

text \<open>A datagram longer than 9000 bytes never contributes a byte: nothing is assembled, no
  fragment is marked and the buffer is not written. A sender configured above 9000 bytes therefore
  gets no full fragment through.\<close>

lemma oversized_discarded:
  assumes "wf_receiver r" "MAX_DATAGRAM_SIZE < length dg"
  shows "\<exists>out r'. ingest r dg = Inr (out, r') \<and> assembled out = None \<and>
    rcv_buf r' = rcv_buf r \<and> marked r' \<subseteq> marked r"
proof -
  from ingest_oversized [OF assms] obtain out where "assembled out = None"
    "ingest r dg = Inr (out, if hdr_fragments (read_header dg) = 0 then r else switched r (read_header dg))"
    by blast
  then show ?thesis by (auto simp: switched_def)
qed

lemma oversized_discarded_witness:
  "\<exists>out r'. ingest (receiver_new 20000) (frame 0 9001 (replicate 18000 7) 1 2 0) = Inr (out, r') \<and>
     assembled out = None \<and> rcv_buf r' = replicate 20000 0 \<and> marked r' = {}"
proof -
  have "MAX_DATAGRAM_SIZE < length (frame 0 9001 (replicate 18000 (7 :: byte)) 1 2 0)"
    by (simp add: length_chunk wire_consts)
  from oversized_discarded [OF wf_receiver_new this, of 20000] show ?thesis
    by auto
qed

section \<open>Accounting of abandoned sequences\<close>

text \<open>Every datagram adds at most one to \<open>dropped_sequences\<close>, and adds it exactly when it
  opens another sequence while the current one has some but not all of its fragments.\<close>

lemma dropped_sequences_exact:
  assumes "wf_receiver r"
  shows "\<exists>out r'. ingest r dg = Inr (out, r') \<and>
    dropped_sequences r' = dropped_sequences r +
      (if HEADER_SIZE \<le> length dg \<and> hdr_fragments (read_header dg) \<noteq> 0 \<and>
          current_seq r \<noteq> Some (hdr_sequence (read_header dg)) \<and>
          marked r \<noteq> {} \<and> marked r \<noteq> {..<unat (total_frags r)} then 1 else 0)"
proof (cases "length dg < HEADER_SIZE \<or> hdr_fragments (read_header dg) = 0")
  case True
  then show ?thesis by (cases "length dg < HEADER_SIZE") (auto simp: ingest_runt ingest_heartbeat)
next
  case False
  let ?h = "read_header dg"
  let ?r2 = "switched r ?h"
  have wf: "wf_receiver ?r2" using assms by (rule wf_switched)
  have got: "unat (got_frags r) = card (marked r)" using assms by (simp add: wf_receiver_def)
  have "0 < card (marked r) \<longleftrightarrow> marked r \<noteq> {}" by (simp add: card_gt_0_iff)
  moreover have "card (marked r) < unat (total_frags r) \<longleftrightarrow> marked r \<noteq> {..<unat (total_frags r)}"
    by (metis card_lessThan card_mono card_subset_eq finite_lessThan le_neq_implies_less less_irrefl
        marked_subset)
  ultimately have cd: "dropped_sequences (count_drop r) = dropped_sequences r +
      (if marked r \<noteq> {} \<and> marked r \<noteq> {..<unat (total_frags r)} then 1 else 0)"
    by (simp add: count_drop_def got)
  have "dropped_sequences (count_drop (noted r ?h)) = dropped_sequences (count_drop r)"
    by (simp add: count_drop_def)
  with cd have r2: "dropped_sequences ?r2 = dropped_sequences r +
      (if current_seq r \<noteq> Some (hdr_sequence ?h) \<and>
          marked r \<noteq> {} \<and> marked r \<noteq> {..<unat (total_frags r)} then 1 else 0)"
    by (simp add: switched_def)
  show ?thesis
  proof (cases "unat (total_frags ?r2) \<le> unat (hdr_fragment ?h) \<or>
      received ?r2 ! unat (hdr_fragment ?h) \<or>
      MAX_PAYLOAD_PER_DATAGRAM < length (drop HEADER_SIZE dg)")
    case True
    with False assms r2 show ?thesis by (simp add: ingest_data Let_def)
  next
    case accept: False
    then have "unat (hdr_fragment ?h) < unat (total_frags ?r2)" by simp
    with False accept assms r2 show ?thesis by (simp add: ingest_data Let_def store_fragment_eq [OF wf])
  qed
qed

lemma dropped_sequences_exact_witness:
  "\<exists>out r'. ingest (receiver_new 4) (frame 3 2 [1, 2, 3] 7 9 0) = Inr (out, r') \<and>
     dropped_sequences r' = 0"
  using dropped_sequences_exact [of "receiver_new 4" "frame 3 2 [1, 2, 3] 7 9 0"]
  by auto

section \<open>Where reassembly goes wrong\<close>

text \<open>The receiver does not discard duplicates of a completed message. Completion clears
  \<open>current_seq\<close>, so a second copy of a single-fragment datagram opens the sequence again and the
  same payload is delivered twice.\<close>

lemma duplicate_redelivered:
  assumes "good_message ppd data" "fragment_count ppd data = 1" "wf_receiver r"
    "length data \<le> max_payload r" "current_seq r \<noteq> Some sq"
  shows "\<exists>r'. ingest_all r [frame sq ppd data us off 0, frame sq ppd data us off 0] =
    Inr ([complete data off 0, complete data off 0], r')"
proof -
  note one = single_delivered [OF assms(1,2)]
  from one [OF assms(3-5), of us off] obtain r1 where "ingest r (frame sq ppd data us off 0) = Inr (complete data off 0, r1)"
    "wf_receiver r1" "length data \<le> max_payload r1" "current_seq r1 \<noteq> Some sq"
    using assms(4) by auto
  moreover from one [OF this(2-4), of us off] obtain r2 where
    "ingest r1 (frame sq ppd data us off 0) = Inr (complete data off 0, r2)" by blast
  ultimately show ?thesis by simp
qed

lemma duplicate_redelivered_witness:
  "\<exists>r'. ingest_all (receiver_new 4) [frame 8 3 [1, 2] 0 112 0, frame 8 3 [1, 2] 0 112 0] =
    Inr ([complete [1, 2] 112 0, complete [1, 2] 112 0], r')"
  using duplicate_redelivered [of 3 "[1, 2]" "receiver_new 4" 8 0 112]
  by (simp add: good_message_def fragment_count_def wire_consts)

end
