(* ===== verification/Misassembly.thy ===== *)
theory Misassembly
  imports Transport
begin

text \<open>
  The two situations in which the receiver assembles something that was not sent: a message whose
  sending a full socket interrupted is continued by the next one, which has its sequence number; and
  a final fragment that comes first is placed for the wrong datagram size. Both are stated for
  messages of any number of fragments and a receiver that has been in use.
\<close>

section \<open>Fragments in order, over whatever the buffer held\<close>

text \<open>The receiver expects \<open>n\<close> fragments and a payload of \<open>sz\<close> bytes, has those in \<open>e\<close> and the first
  \<open>j\<close>, and the first \<open>j\<close> chunks of \<open>x\<close> have been written over the buffer \<open>buf\<close>.\<close>

definition fills ::
  "u32 \<Rightarrow> nat \<Rightarrow> nat \<Rightarrow> nat \<Rightarrow> u32 \<Rightarrow> byte list \<Rightarrow> byte list \<Rightarrow> nat set \<Rightarrow> receiver \<Rightarrow> nat \<Rightarrow> bool" where
  "fills sq n ppd sz off x buf e r j \<longleftrightarrow> wf_receiver r \<and> current_seq r = Some sq \<and>
     unat (total_frags r) = n \<and> marked r = e \<union> {..<j} \<and> rcv_payload_size r = sz \<and> last_buf_offset r = off \<and>
     detected_frag_size r = (if j = 0 then 0 else ppd) \<and> rcv_buf r = blit 0 (take (j * ppd) x) buf"

text \<open>Fragment \<open>i\<close> of \<open>y\<close> brings chunk \<open>i\<close> of \<open>x\<close>.\<close>

definition brings :: "nat \<Rightarrow> nat \<Rightarrow> byte list \<Rightarrow> byte list \<Rightarrow> byte list \<Rightarrow> nat \<Rightarrow> bool" where
  "brings n ppd x y buf i \<longleftrightarrow> i < n \<and> i < fragment_count ppd y \<and> chunk ppd x i = chunk ppd y i \<and>
     i * ppd \<le> length x \<and> i * ppd + length (chunk ppd y i) \<le> length buf \<and> (i = 0 \<longrightarrow> length (chunk ppd y i) = ppd)"

lemma fills_wf: "fills sq n ppd sz off x buf e r j \<Longrightarrow> wf_receiver r" "fills sq n ppd sz off x buf e r j \<Longrightarrow> current_seq r = Some sq"
  by (simp_all add: fills_def)

lemma fills_fresh:
  assumes "good_message ppd y" "i < fragment_count ppd y" "wf_receiver r" "length y \<le> max_payload r" "current_seq r \<noteq> Some sq"
  shows "fills sq (fragment_count ppd y) ppd (length y) off x (rcv_buf r) {}
    (switched r (frag_header sq (fragment_count ppd y) (length y) us off i)) 0"
  using fresh_holds [OF assms, of us off] by (simp add: fills_def holds_def)

lemma fills_switched:
  assumes "good_message ppd y" "i < fragment_count ppd y" "fills sq n ppd sz off x buf e r j"
  shows "fills sq n ppd sz off x buf e (switched r (frag_header sq (fragment_count ppd y) (length y) us o2 i)) j"
proof -
  define h where "h = frag_header sq (fragment_count ppd y) (length y) us o2 i"
  have "switched r h = noted r h"
    using assms(3) frag_header_fields(5) [OF assms(1,2) h_def] by (simp add: switched_def fills_def)
  then show ?thesis unfolding h_def [symmetric] using assms(3) by (simp add: fills_def)
qed

text \<open>A fragment that is there already changes nothing.\<close>

lemma fills_dup:
  assumes "good_message ppd y" "i < fragment_count ppd y" "fills sq n ppd sz off x buf e r j" "i \<in> e \<union> {..<j}"
  shows "\<exists>r'. ingest r (frame sq ppd y us o2 i) = Inr (quiet i, r') \<and> fills sq n ppd sz off x buf e r' j \<and>
    max_payload r' = max_payload r"
proof -
  define h where "h = frag_header sq (fragment_count ppd y) (length y) us o2 i"
  have f: "fills sq n ppd sz off x buf e (switched r h) j" unfolding h_def by (rule fills_switched [OF assms(1-3)])
  then have "received (switched r h) ! i" using assms(4) by (auto simp: fills_def marked_def)
  then have "ingest r (frame sq ppd y us o2 i) = Inr (quiet i, switched r h)"
    by (simp add: ingest_frame_unfold [OF assms(1,2) fills_wf(1) [OF assms(3)] h_def])
  with f show ?thesis by simp
qed

lemma fills_dups:
  assumes "good_message ppd y" "fills sq n ppd sz off x buf e r j" "\<forall>i\<in>set is. i < fragment_count ppd y \<and> i < j"
  shows "\<exists>r'. ingest_all r (map (frame sq ppd y us o2) is) = Inr (map quiet is, r') \<and>
    fills sq n ppd sz off x buf e r' j \<and> max_payload r' = max_payload r"
  using assms(2,3)
proof (induction "is" arbitrary: r)
  case (Cons i "is")
  obtain r1 where r1: "ingest r (frame sq ppd y us o2 i) = Inr (quiet i, r1)" "fills sq n ppd sz off x buf e r1 j"
    "max_payload r1 = max_payload r"
    using fills_dup [OF assms(1) _ Cons.prems(1), of i us o2] Cons.prems(2) by auto
  from Cons.IH [OF r1(2)] Cons.prems(2) r1 show ?case by auto
qed simp

text \<open>The next fragment in order is stored, and completes the message when it was the last missing.\<close>

lemma blit_next_chunk:
  assumes "j * ppd \<le> length x" "j * ppd + length (chunk ppd x j) \<le> length buf"
  shows "blit (j * ppd) (chunk ppd x j) (blit 0 (take (j * ppd) x) buf) = blit 0 (take (Suc j * ppd) x) buf"
proof -
  have "take (Suc j * ppd) x = take (j * ppd) x @ chunk ppd x j"
    by (simp add: chunk_def add.commute [of ppd] take_add)
  with assms show ?thesis by (simp add: blit_def min_def add.commute)
qed

lemma fills_step:
  assumes "good_message ppd y" "1 < n" "brings n ppd x y buf j" "j \<notin> e" "wf_receiver r" "length buf = max_payload r"
    and h_def: "h = frag_header sq (fragment_count ppd y) (length y) us o2 j"
    and f: "fills sq n ppd sz off x buf e (switched r h) j"
  shows "\<exists>r'. ingest r (frame sq ppd y us o2 j) = Inr (if insert j (e \<union> {..<j}) = {..<n}
      then complete (take sz (blit 0 (take (Suc j * ppd) x) buf)) off j else quiet j, r') \<and>
    max_payload r' = max_payload r \<and>
    (insert j (e \<union> {..<j}) \<noteq> {..<n} \<longrightarrow> fills sq n ppd sz off x buf e r' (Suc j))"
proof -
  let ?c = "chunk ppd y j"
  define r2 where "r2 = switched r h"
  have b: "j < n" "j < fragment_count ppd y" "chunk ppd x j = ?c" "j * ppd \<le> length x" "j * ppd + length ?c \<le> length buf"
    "j = 0 \<longrightarrow> length ?c = ppd" using assms(3) by (simp_all add: brings_def)
  have r2: "wf_receiver r2" "unat (total_frags r2) = n" "marked r2 = e \<union> {..<j}" "rcv_payload_size r2 = sz"
    "last_buf_offset r2 = off" "rcv_buf r2 = blit 0 (take (j * ppd) x) buf" "current_seq r2 = Some sq"
    using f by (simp_all add: fills_def r2_def)
  have mp: "max_payload r2 = max_payload r" by (simp add: r2_def)
  have ppd: "0 < ppd" using assms(1) by (simp add: good_message_def)
  then have det: "detected_after r2 j ?c = ppd"
    using f b(1,6) assms(2) by (auto simp: detected_after_def fills_def r2_def)
  have dest: "dest_of r2 j ?c = j * ppd" using ppd by (simp add: dest_of_def det)
  have room: "dest_of r2 j ?c + length ?c \<le> length (rcv_buf r2)"
    using b(5) assms(6) length_rcv_buf [OF r2(1)] dest mp by simp
  have i: "j < unat (total_frags r2)" "\<not> received r2 ! j"
    using r2(2,3) b(1) assms(4) marked_iff [of j r2] by auto
  have buf: "rcv_buf (accept r2 j ?c) = blit 0 (take (Suc j * ppd) x) buf"
    unfolding accept_def dest r2(6) using blit_next_chunk [OF b(4), of buf] b(3,5) by simp
  have "unat (got_frags r2 + 1) = card (insert j (e \<union> {..<j}))"
    using unat_got_Suc [OF r2(1)] r2(3) assms(4) finite_marked [of r2] by simp
  moreover have "insert j (e \<union> {..<j}) \<subseteq> {..<n}" using marked_subset [of r2] r2(2,3) b(1) by auto
  ultimately have full: "got_frags r2 + 1 = total_frags r2 \<longleftrightarrow> insert j (e \<union> {..<j}) = {..<n}"
    using r2(2) by (metis card_lessThan card_subset_eq finite_lessThan unsigned_word_eqI)
  have "ingest r (frame sq ppd y us o2 j) = store_fragment r2 (j = 0) j ?c"
    using i by (simp add: ingest_frame_unfold [OF assms(1) b(2) assms(5) h_def] flip: r2_def)
  also have "\<dots> = Inr (if insert j (e \<union> {..<j}) = {..<n}
      then (complete (take sz (blit 0 (take (Suc j * ppd) x) buf)) off j,
            (accept r2 j ?c)\<lparr>last_fragment_count := total_frags r2, current_seq := None\<rparr>)
      else (quiet j, accept r2 j ?c))"
    using room by (simp add: store_fragment_eq [OF r2(1) i(1)] full buf r2(4,5) complete_def quiet_def)
  finally have ing: "ingest r (frame sq ppd y us o2 j) = \<dots>" .
  have "fills sq n ppd sz off x buf e (accept r2 j ?c) (Suc j)"
    using wf_accept [OF r2(1) i room] marked_accept [OF r2(1) i(1)] r2 det ppd buf by (auto simp: fills_def)
  with ing mp show ?thesis by auto
qed

lemma fills_run:
  assumes "good_message ppd y" "1 < n" "j \<le> m" "\<forall>i\<in>{j..<m}. brings n ppd x y buf i \<and> i \<notin> e"
    and "e \<union> {..<m} \<noteq> {..<n}" "fills sq n ppd sz off x buf e r j" "length buf = max_payload r"
  shows "\<exists>r'. ingest_all r (map (frame sq ppd y us o2) [j..<m]) = Inr (map quiet [j..<m], r') \<and>
    fills sq n ppd sz off x buf e r' m \<and> max_payload r' = max_payload r"
  using assms(3-5)
proof (induction m rule: dec_induct)
  case base
  then show ?case using assms(6) by simp
next
  case (step m)
  have lt: "i < n" if "i \<in> e" for i using that assms(6) marked_subset [of r] by (auto simp: fills_def)
  have m: "brings n ppd x y buf m" "m \<notin> e" using step.prems(1) step.hyps by auto
  then have mn: "m < n" "m < fragment_count ppd y" by (simp_all add: brings_def)
  have "e \<union> {..<m} \<noteq> {..<n}" using m(2) mn(1) by auto
  then obtain r1 where r1: "ingest_all r (map (frame sq ppd y us o2) [j..<m]) = Inr (map quiet [j..<m], r1)"
    "fills sq n ppd sz off x buf e r1 m" "max_payload r1 = max_payload r"
    using step.IH step.prems by auto
  have ins: "insert m (e \<union> {..<m}) \<noteq> {..<n}" using step.prems(2) by (auto simp: lessThan_Suc)
  have "length buf = max_payload r1" using assms(7) r1(3) by simp
  from fills_step [OF assms(1,2) m fills_wf(1) [OF r1(2)] this refl fills_switched [OF assms(1) mn(2) r1(2)], of us o2] ins
  obtain r2 where r2: "ingest r1 (frame sq ppd y us o2 m) = Inr (quiet m, r2)" "max_payload r2 = max_payload r1"
    "fills sq n ppd sz off x buf e r2 (Suc m)" by auto
  have "ingest_all r (map (frame sq ppd y us o2) [j..<m] @ [frame sq ppd y us o2 m]) = Inr (map quiet [j..<m] @ [quiet m], r2)"
    by (rule run_snoc [OF r1(1) r2(1)])
  with r2 r1(3) step.hyps(1) show ?case by simp
qed

lemma chunk_take: "Suc i * ppd \<le> c \<Longrightarrow> chunk ppd (take c y) i = chunk ppd y i"
  by (simp add: chunk_def drop_take)

lemma brings_self:
  "0 < ppd \<Longrightarrow> i < fragment_count ppd y \<Longrightarrow> 1 < fragment_count ppd y \<Longrightarrow> length y \<le> length buf \<Longrightarrow>
   brings (fragment_count ppd y) ppd y y buf i"
  using chunk_end [of ppd i y] chunk_full [of ppd 0 y] by (simp add: brings_def)

section \<open>A final fragment that comes first\<close>






section \<open>A message that a full socket interrupts\<close>

text \<open>A socket that takes \<open>k\<close> datagrams and refuses the next with \<open>WouldBlock\<close>.\<close>

definition refuse_after :: "nat \<Rightarrow> byte list list send_fn" where
  "refuse_after k w d = (if length w < k then (Inr (), w @ [d]) else (Inl WouldBlock, w))"

lemma emit_refused:
  "length w \<le> k \<Longrightarrow> k < length w + length ds \<Longrightarrow> emit (refuse_after k) w ds = (Inl WouldBlock, w @ take (k - length w) ds)"
proof (induction ds arbitrary: w)
  case (Cons d ds)
  show ?case
  proof (cases "length w < k")
    case True
    then have "k - length w = Suc (k - length (w @ [d]))" by simp
    with True Cons show ?thesis by (simp add: refuse_after_def)
  qed (use Cons.prems in \<open>simp add: refuse_after_def\<close>)
qed simp

lemma message_sends:
  "good_message ppd y \<Longrightarrow> y \<noteq> [] \<and> length y \<le> 65535 * ppd"
  using fragment_count_le_iff [of ppd y 65535] good_message_bounds [of ppd y] by (auto simp: good_message_def)

text \<open>A failed \<open>send\<close> does not use up its sequence number.\<close>

lemma interrupted_then_sent:
  assumes "wf_sender s" "ppd = payload_per_datagram s" "sq = snd_sequence s" "good_message ppd a" "good_message ppd b"
    and "k < fragment_count ppd a"
  obtains s1 s2 where
    "send (refuse_after k) s [] a us off = Inr (Inl WouldBlock, s1, take k (frames sq ppd a us off))"
    "send record_datagram s1 (take k (frames sq ppd a us off)) b us2 off2 =
      Inr (Inr (of_nat (fragment_count ppd b)), s2, take k (frames sq ppd a us off) @ frames sq ppd b us2 off2)"
proof -
  have "send_spec (refuse_after k) (sender_abs s) [] a us off = (Inl WouldBlock, (sq, ppd), take k (frames sq ppd a us off))"
    using message_sends [OF assms(4)] assms(2,3,6) emit_refused [of "[]" k "frames sq ppd a us off"]
    by (simp add: send_spec_def sender_abs_def)
  then obtain s1 where s1: "send (refuse_after k) s [] a us off = Inr (Inl WouldBlock, s1, take k (frames sq ppd a us off))"
    "wf_sender s1" "sender_abs s1 = (sq, ppd)"
    using send_cases [OF assms(1), of "refuse_after k" "[]" a us off] by auto
  then have "snd_sequence s1 = sq" "payload_per_datagram s1 = ppd" by (simp_all add: sender_abs_def)
  then show ?thesis
    using send_record [OF s1(2), of b "take k (frames sq ppd a us off)" us2 off2] message_sends [OF assms(5)] s1(1) that
    by metis
qed

lemma take_frames: "m \<le> fragment_count ppd y \<Longrightarrow> take m (frames sq ppd y us off) = map (frame sq ppd y us off) [0..<m]"
  by (simp add: frames_def take_map)

lemma mixed_chunks:
  assumes "c = k * ppd" "c \<le> length a" "c \<le> length b" and x: "x = take c a @ drop c b"
  shows "length x = length b" "i < k \<Longrightarrow> chunk ppd x i = chunk ppd a i" "k \<le> i \<Longrightarrow> chunk ppd x i = chunk ppd b i"
proof -
  have t: "take c x = take c a" "drop c x = drop c b" using assms(2) by (simp_all add: x)
  show "length x = length b" using assms(2,3) by (simp add: x)
  show "chunk ppd x i = chunk ppd a i" if "i < k"
  proof -
    have "Suc i * ppd \<le> c" using that mult_le_mono1 [of "Suc i" k ppd] by (simp add: assms(1))
    then show ?thesis using chunk_take [of i ppd c x] chunk_take [of i ppd c a] t(1) by simp
  qed
  show "chunk ppd x i = chunk ppd b i" if "k \<le> i"
  proof -
    have "i * ppd = (i * ppd - c) + c" using that mult_le_mono1 [of k i ppd] by (simp add: assms(1))
    then have d: "drop (i * ppd) y = drop (i * ppd - c) (drop c y)" for y :: "byte list" by (metis drop_drop)
    show ?thesis unfolding chunk_def d [of x] d [of b] t(2) ..
  qed
qed

text \<open>The first \<open>k\<close> fragments of \<open>a\<close>.\<close>

lemma opening_fragments:
  assumes "good_message ppd a" "wf_receiver r" "length a \<le> max_payload r" "current_seq r \<noteq> Some sq"
    and "0 < k" "k < fragment_count ppd a" "\<forall>i<k. chunk ppd x i = chunk ppd a i" "k * ppd \<le> length x"
  shows "\<exists>r'. ingest_all r (map (frame sq ppd a us off) [0..<k]) = Inr (map quiet [0..<k], r') \<and>
    fills sq (fragment_count ppd a) ppd (length a) off x (rcv_buf r) {} r' k \<and> max_payload r' = max_payload r"
proof -
  let ?n = "fragment_count ppd a"
  note ppd = good_message_bounds(1) [OF assms(1)]
  have n: "0 < ?n" "1 < ?n" using assms(5,6) by simp_all
  have len: "length (rcv_buf r) = max_payload r" by (rule length_rcv_buf [OF assms(2)])
  have le: "i * ppd \<le> length x" if "i < k" for i using mult_le_mono1 [OF less_imp_le [OF that], of ppd] assms(8) by linarith
  have brings: "brings ?n ppd x a (rcv_buf r) i" if "i < k" for i
    using brings_self [OF ppd, of i a "rcv_buf r"] le [OF that] that assms(3,6,7) n(2) len by (simp add: brings_def)
  define h where "h = frag_header sq ?n (length a) us off 0"
  have f: "fills sq ?n ppd (length a) off x (rcv_buf r) {} (switched r h) 0"
    unfolding h_def by (rule fills_fresh [OF assms(1) n(1) assms(2-4)])
  have "insert 0 ({} \<union> {..<0}) \<noteq> {..<?n}" using n(2) by auto
  with fills_step [OF assms(1) n(2) brings [OF assms(5)] _ assms(2) len h_def f] obtain r1 where
    r1: "ingest r (frame sq ppd a us off 0) = Inr (quiet 0, r1)" "max_payload r1 = max_payload r"
      "fills sq ?n ppd (length a) off x (rcv_buf r) {} r1 (Suc 0)" by auto
  have "{} \<union> {..<k} \<noteq> {..<?n}" using assms(6) by auto
  moreover have "\<forall>i\<in>{Suc 0..<k}. brings ?n ppd x a (rcv_buf r) i \<and> i \<notin> {}" using brings by auto
  ultimately obtain r2 where "ingest_all r1 (map (frame sq ppd a us off) [Suc 0..<k]) = Inr (map quiet [Suc 0..<k], r2)"
    "fills sq ?n ppd (length a) off x (rcv_buf r) {} r2 k" "max_payload r2 = max_payload r1"
    using fills_run [OF assms(1) n(2) _ _ _ r1(3), of k us off] assms(5) len r1(2) by auto
  moreover have "[0..<k] = 0 # [Suc 0..<k]" using assms(5) by (rule upt_conv_Cons)
  ultimately show ?thesis using r1(1,2) by simp
qed

lemma take_blit_take: "l \<le> c \<Longrightarrow> take l (blit 0 (take c x) buf) = take l (x @ drop (length x) buf)"
  by (cases "length x \<le> c") (simp_all add: blit_def min_def)

text \<open>The fragments of \<open>b\<close> under the same sequence number, once the first \<open>k\<close> are there.\<close>

lemma other_fragments:
  assumes "good_message ppd b" "length b \<le> max_payload r" "length buf = max_payload r"
    and "fills sq n ppd sz off x buf {} r k" "0 < k" "k < n" "m = min (fragment_count ppd b) n"
    and "\<forall>i. k \<le> i \<and> i < m \<longrightarrow> chunk ppd x i = chunk ppd b i" "k < m \<Longrightarrow> length x = length b"
  shows "\<exists>r'. ingest_all r (map (frame sq ppd b us off2) [0..<m]) = Inr (map quiet [0..<m - 1] @
      [if n \<le> fragment_count ppd b then complete (take sz (blit 0 (take (n * ppd) x) buf)) off (n - 1) else quiet (m - 1)], r')"
proof -
  note ppd = good_message_bounds [OF assms(1)]
  have m: "0 < m" "m \<le> fragment_count ppd b" "m \<le> n" "1 < n" using ppd(2) assms(5-7) by auto
  then have snoc: "map quiet [0..<m] = map quiet [0..<m - 1] @ [quiet (m - 1)]"
    by (metis Suc_diff_1 list.simps(8,9) map_append upt_Suc_append zero_le)
  have dup: "\<forall>i\<in>set [0..<min k m]. i < fragment_count ppd b \<and> i < k" using m(2) by auto
  obtain r1 where r1: "ingest_all r (map (frame sq ppd b us off2) [0..<min k m]) = Inr (map quiet [0..<min k m], r1)"
    "fills sq n ppd sz off x buf {} r1 k" "max_payload r1 = max_payload r"
    using fills_dups [OF assms(1,4) dup, of us off2] by blast
  show ?thesis
  proof (cases "m \<le> k")
    case True
    then have "m = fragment_count ppd b" "\<not> n \<le> fragment_count ppd b" using assms(6,7) by auto
    moreover have "min k m = m" using True by simp
    ultimately show ?thesis using r1(1) snoc by auto
  next
    case False
    then have lx: "length x = length b" by (intro assms(9)) simp
    have brings: "brings n ppd x b buf i" if "k \<le> i" "i < m" for i
      using chunk_end [of ppd i b] ppd(1) that assms(2,3,5,8) m(2,3) lx by (auto simp: brings_def)
    have lb: "length buf = max_payload r1" using assms(3) r1(3) by simp
    have run: "\<exists>r'. ingest_all r1 (map (frame sq ppd b us off2) [k..<j]) = Inr (map quiet [k..<j], r') \<and>
        fills sq n ppd sz off x buf {} r' j \<and> max_payload r' = max_payload r1" if "k \<le> j" "j \<le> m" "j < n" for j
      by (rule fills_run [OF assms(1) m(4) that(1) _ _ r1(2) lb]) (use brings that in auto)
    have upt: "[0..<min k m] @ [k..<j] = [0..<j]" if "k \<le> j" for j
      using False that upt_add_eq_append [of 0 k "j - k"] by simp
    show ?thesis
    proof (cases "n \<le> fragment_count ppd b")
      case True
      then have mn: "m = n" using assms(7) by simp
      have kn: "k \<le> n - 1" "n - 1 \<le> m" "n - 1 < n" using assms(6) mn by linarith+
      obtain r2 where r2: "ingest_all r1 (map (frame sq ppd b us off2) [k..<n - 1]) = Inr (map quiet [k..<n - 1], r2)"
        "fills sq n ppd sz off x buf {} r2 (n - 1)" "max_payload r2 = max_payload r1"
        using run [OF kn] by blast
      have b: "brings n ppd x b buf (n - 1)" "n - 1 \<notin> {}" "length buf = max_payload r2" "n - 1 < fragment_count ppd b"
        using brings [of "n - 1"] assms(6) mn lb r2(3) True by auto
      have all: "insert (n - 1) ({} \<union> {..<n - 1}) = {..<n}" "Suc (n - 1) = n" using m(4) by auto
      from fills_step [OF assms(1) m(4) b(1,2) fills_wf(1) [OF r2(2)] b(3) refl fills_switched [OF assms(1) b(4) r2(2)], of us off2]
      obtain r3 where r3: "ingest r2 (frame sq ppd b us off2 (n - 1)) =
          Inr (complete (take sz (blit 0 (take (n * ppd) x) buf)) off (n - 1), r3)"
        unfolding all by auto
      have "ingest_all r (map (frame sq ppd b us off2) ([0..<min k m] @ [k..<n - 1])) =
          Inr (map quiet ([0..<min k m] @ [k..<n - 1]), r2)"
        using r1(1) r2(1) by (simp add: run_append)
      then have "ingest_all r (map (frame sq ppd b us off2) [0..<n - 1]) = Inr (map quiet [0..<n - 1], r2)"
        unfolding upt [OF kn(1)] .
      from run_snoc [OF this r3] have "ingest_all r (map (frame sq ppd b us off2) ([0..<n - 1] @ [n - 1])) =
          Inr (map quiet [0..<n - 1] @ [complete (take sz (blit 0 (take (n * ppd) x) buf)) off (n - 1)], r3)"
        by (simp only: map_append list.map)
      moreover have "[0..<n - 1] @ [n - 1] = [0..<n]" using upt_Suc_append [of 0 "n - 1"] all(2) by simp
      ultimately show ?thesis unfolding if_P [OF True] mn by metis
    next
      case few: False
      then have "m < n" using assms(7) by simp
      with run [of m] False obtain r2 where "ingest_all r1 (map (frame sq ppd b us off2) [k..<m]) = Inr (map quiet [k..<m], r2)" by auto
      then have "ingest_all r (map (frame sq ppd b us off2) ([0..<min k m] @ [k..<m])) = Inr (map quiet ([0..<min k m] @ [k..<m]), r2)"
        using r1(1) by (simp add: run_append)
      then have "ingest_all r (map (frame sq ppd b us off2) [0..<m]) = Inr (map quiet [0..<m], r2)"
        using upt [of m] False by (metis nat_le_linear)
      then show ?thesis unfolding if_not_P [OF few] snoc by blast
    qed
  qed
qed

text \<open>C39: A message that a full socket interrupts is mixed with the next one. \<open>send\<close> leaves the sequence
  number alone when the socket refuses a datagram, so the next message goes out under the same
  number, and a receiver that got the first \<open>k\<close> fragments of the first message takes the second's
  fragments for the missing ones. If the second message has at least as many fragments as the first,
  the receiver completes a payload of the first message's length under its offset: the first \<open>k\<close> chunks
  of the first message, then the second message's bytes, then, where that is shorter, what the buffer
  held. If it has fewer fragments, nothing is assembled.\<close>

theorem interrupted_send_mixes:
  assumes "wf_sender s" "ppd = payload_per_datagram s" "good_message ppd a" "good_message ppd b"
    and "wf_receiver r" "length a \<le> max_payload r" "length b \<le> max_payload r" "current_seq r \<noteq> Some (snd_sequence s)"
    and "n = fragment_count ppd a" "m = fragment_count ppd b" "0 < k" "k < n"
  shows "\<exists>s1 ds1 s2 ds2 r'.
    send (refuse_after k) s [] a us off = Inr (Inl WouldBlock, s1, ds1) \<and> length ds1 = k \<and>
    send record_datagram s1 ds1 b us2 off2 = Inr (Inr (of_nat m), s2, ds2) \<and> length ds2 = k + m \<and>
    ingest_all r (take (k + n) ds2) = Inr (map quiet ([0..<k] @ [0..<min m n - 1]) @
      [if n \<le> m then complete (take (length a) (take (k * ppd) a @ drop (k * ppd) b @ drop (length b) (rcv_buf r))) off (n - 1)
       else quiet (m - 1)], r')"
proof -
  let ?sq = "snd_sequence s" let ?x = "take (k * ppd) a @ drop (k * ppd) b"
  obtain s1 s2 where s: "send (refuse_after k) s [] a us off = Inr (Inl WouldBlock, s1, take k (frames ?sq ppd a us off))"
    "send record_datagram s1 (take k (frames ?sq ppd a us off)) b us2 off2 =
      Inr (Inr (of_nat m), s2, take k (frames ?sq ppd a us off) @ frames ?sq ppd b us2 off2)"
    using interrupted_then_sent [OF assms(1,2) refl assms(3,4)] assms(9,10,12) by metis
  note ppd = good_message_bounds(1) [OF assms(3)]
  have la: "k * ppd \<le> length a" using less_fragment_count_iff [OF ppd, of k a] assms(9,12) by simp
  have lb: "k * ppd \<le> length b" if "k < m" using less_fragment_count_iff [OF ppd, of k b] assms(10) that by simp
  have xa: "\<forall>i<k. chunk ppd ?x i = chunk ppd a i"
  proof (intro allI impI)
    fix i assume "i < k"
    then have "Suc i * ppd \<le> k * ppd" by (intro mult_le_mono1) simp
    then show "chunk ppd ?x i = chunk ppd a i"
      using la chunk_take [of i ppd "k * ppd" ?x] chunk_take [of i ppd "k * ppd" a] by simp
  qed
  obtain r1 where r1: "ingest_all r (map (frame ?sq ppd a us off) [0..<k]) = Inr (map quiet [0..<k], r1)"
    "fills ?sq n ppd (length a) off ?x (rcv_buf r) {} r1 k" "max_payload r1 = max_payload r"
    using opening_fragments [OF assms(3,5,6,8,11) _ xa, of us off] assms(9,12) la by auto
  have len: "length (rcv_buf r) = max_payload r1" using length_rcv_buf [OF assms(5)] r1(3) by simp
  have xb: "\<forall>i. k \<le> i \<and> i < min m n \<longrightarrow> chunk ppd ?x i = chunk ppd b i" "k < min m n \<Longrightarrow> length ?x = length b"
    using mixed_chunks [OF refl la lb refl] by auto
  obtain r2 where r2: "ingest_all r1 (map (frame ?sq ppd b us2 off2) [0..<min m n]) = Inr (map quiet [0..<min m n - 1] @
      [if n \<le> m then complete (take (length a) (blit 0 (take (n * ppd) ?x) (rcv_buf r))) off (n - 1) else quiet (min m n - 1)], r2)"
    using other_fragments [OF assms(4) _ len r1(2) assms(11,12) _ xb(1) xb(2), of us2 off2] assms(7,10) r1(3) by auto
  have "length (take k (frames ?sq ppd a us off)) = k" using assms(9,12) by simp
  moreover from this have "take (k + n) (take k (frames ?sq ppd a us off) @ frames ?sq ppd b us2 off2) =
      map (frame ?sq ppd a us off) [0..<k] @ map (frame ?sq ppd b us2 off2) [0..<min m n]"
  proof -
    have "take n (frames ?sq ppd b us2 off2) = take (min m n) (frames ?sq ppd b us2 off2)" by (simp add: assms(10) min_def)
    also have "\<dots> = map (frame ?sq ppd b us2 off2) [0..<min m n]" by (rule take_frames) (simp add: assms(10))
    finally show ?thesis using take_frames [of k ppd a ?sq us off] assms(9,12) by simp
  qed
  moreover have "take (length a) (blit 0 (take (n * ppd) ?x) (rcv_buf r)) =
      take (length a) (take (k * ppd) a @ drop (k * ppd) b @ drop (length b) (rcv_buf r))" if "n \<le> m"
  proof -
    have x: "length ?x = length b" using xb(2) that assms(12) by simp
    have an: "length a \<le> n * ppd" using fragment_count_le_iff [OF ppd, of a n] assms(9) by simp
    show ?thesis unfolding take_blit_take [OF an] x append_assoc ..
  qed
  moreover have "min m n - 1 = m - 1" if "\<not> n \<le> m" using that by simp
  moreover have "length (take k (frames ?sq ppd a us off) @ frames ?sq ppd b us2 off2) = k + m"
    using assms(9,10,12) by simp
  ultimately show ?thesis using s r1(1) r2 by (simp add: run_append)
qed

text \<open>A three-fragment message interrupted after two fragments, then one of three shorter by a byte; and
  one of a single fragment.\<close>

theorem interrupted_send_mixes_witness:
  "\<exists>s1 ds1 s2 ds2 r'.
    send (refuse_after 2) (with_datagram_size 26) [] [1, 2, 3, 4, 5, 6] 0 112 = Inr (Inl WouldBlock, s1, ds1) \<and>
    send record_datagram s1 ds1 [11, 12, 13, 14, 15] 0 224 = Inr (Inr 3, s2, ds2) \<and>
    ingest_all (receiver_new 10) ds2 =
      Inr ([quiet 0, quiet 1, quiet 0, quiet 1, complete [1, 2, 3, 4, 15, 0] 112 2], r')"
proof -
  let ?a = "[1, 2, 3, 4, 5, 6] :: byte list" and ?b = "[11, 12, 13, 14, 15] :: byte list" and ?r = "receiver_new 10"
  have n: "fragment_count 2 ?a = 3" "fragment_count 2 ?b = 3" by (simp_all add: fragment_count_def)
  have g: "good_message 2 ?a" "good_message 2 ?b" "length ?a \<le> max_payload ?r" "length ?b \<le> max_payload ?r"
    "current_seq ?r \<noteq> Some (snd_sequence (with_datagram_size 26))"
    using n by (simp_all add: good_message_def wire_consts)
  have p: "2 = payload_per_datagram (with_datagram_size 26)" by (simp add: wire_consts)
  obtain s1 ds1 s2 ds2 r' where r: "send (refuse_after 2) (with_datagram_size 26) [] ?a 0 112 = Inr (Inl WouldBlock, s1, ds1)"
    "length ds1 = 2" "send record_datagram s1 ds1 ?b 0 224 = Inr (Inr (of_nat 3), s2, ds2)"
    "length ds2 = 2 + 3" "ingest_all ?r (take (2 + 3) ds2) = Inr (map quiet ([0..<2] @ [0..<min 3 3 - 1]) @
      [if 3 \<le> (3 :: nat) then complete (take (length ?a) (take (2 * 2) ?a @ drop (2 * 2) ?b @ drop (length ?b) (rcv_buf ?r))) 112 (3 - 1)
       else quiet (3 - 1)], r')"
    using interrupted_send_mixes [OF wf_with_datagram_size p g(1,2) wf_receiver_new g(3-5) n [symmetric], of 2 0 112 0 224] by auto
  have "map quiet ([0..<2] @ [0..<min 3 3 - 1]) = [quiet 0, quiet 1, quiet 0, quiet 1]" by (simp add: upt_rec)
  with r show ?thesis by (simp add: upt_rec del: run.simps) 
qed

end
