(* ===== verification/Telemetry_Map.thy ===== *)
theory Telemetry_Map
  imports Rust_Prelude
begin

text \<open>
  The irsdk shared-memory map: the header fields the program reads
  (\<open>telemetry/windows.rs\<close>, \<open>source.rs\<close>, \<open>ibt_writer.rs\<close>), the choice of the
  active variable buffer, the end of the static prefix, and the
  \<open>TelemetryProvider\<close> interface with its two implementations.
\<close>

definition MAX_TELEMETRY_SIZE :: nat where
  "MAX_TELEMETRY_SIZE = 2 * 1024 * 1024"

definition IRSDK_HEADER_SIZE :: nat where
  "IRSDK_HEADER_SIZE = 112"

definition I32_MIN :: i32 where
  "I32_MIN = push_bit 31 1"

section \<open>Reading the header\<close>

definition i32_at :: "byte list \<Rightarrow> nat \<Rightarrow> i32" where
  "i32_at d off = of_le (take 4 (drop off d))"

text \<open>\<open>i32::from_le_bytes(d[off..off + 4].try_into()...)\<close>\<close>

definition read_i32 :: "byte list \<Rightarrow> nat \<Rightarrow> i32 rust" where
  "read_i32 d off = rbind (slice off (off + 4) d) (\<lambda>s. Inr (of_le s))"

lemma read_i32_ok [panic_free]: "off + 4 \<le> length d \<Longrightarrow> read_i32 d off = Inr (i32_at d off)"
  by (simp add: read_i32_def i32_at_def slice_ok)

text \<open>Slot \<open>i\<close> of the ring: \<open>tickCount\<close> at \<open>48 + 16 i\<close>, \<open>bufOffset\<close> four bytes later.\<close>

definition slot_tick :: "byte list \<Rightarrow> nat \<Rightarrow> i32" where
  "slot_tick d i = i32_at d (48 + i * 16)"

definition slot_off :: "byte list \<Rightarrow> nat \<Rightarrow> nat" where
  "slot_off d i = usize_of_i32 (i32_at d (48 + i * 16 + 4))"

section \<open>The active variable buffer (\<open>WindowsTelemetry::active_var_buf\<close>)\<close>

fun scan_slots :: "byte list \<Rightarrow> nat list \<Rightarrow> i32 \<times> nat \<times> nat \<Rightarrow> (i32 \<times> nat \<times> nat) rust" where
  "scan_slots d [] best = Inr best"
| "scan_slots d (i # is) (best_tick, best_off, best_tick_off) =
     (let b = 48 + i * 16 in
      rbind (read_i32 d b) (\<lambda>tick.
      rbind (read_i32 d (b + 4)) (\<lambda>off.
      scan_slots d is
        (if sint best_tick < sint tick then (tick, usize_of_i32 off, b)
         else (best_tick, best_off, best_tick_off)))))"

definition active_var_buf :: "byte list \<Rightarrow> (nat \<times> nat \<times> i32 \<times> nat) option rust" where
  "active_var_buf d =
     (if length d < IRSDK_HEADER_SIZE then Inr None
      else
        rbind (read_i32 d 36) (\<lambda>bl.
        let buf_len = usize_of_i32 bl in
        if buf_len = 0 \<or> length d < buf_len then Inr None
        else
          rbind (read_i32 d 32) (\<lambda>nb.
          let num_buf = min (usize_of_i32 nb) 4 in
          if num_buf = 0 then Inr None
          else
            rbind (scan_slots d [0..<num_buf] (I32_MIN, 0, 48)) (\<lambda>(best_tick, best_off, best_tick_off).
            if length d < uadd best_off buf_len then Inr None
            else Inr (Some (best_off, buf_len, best_tick, best_tick_off))))))"

section \<open>The end of the static prefix (\<open>session_info_end\<close> of \<open>source.rs\<close>)\<close>

fun min_buf_offset :: "byte list \<Rightarrow> nat list \<Rightarrow> nat \<Rightarrow> nat rust" where
  "min_buf_offset d [] min_off = Inr min_off"
| "min_buf_offset d (i # is) min_off =
     (let b = 48 + i * 16 in
      if length d < b + 8 then Inr (length d)
      else
        rbind (read_i32 d (b + 4)) (\<lambda>o4.
        let off = usize_of_i32 o4 in
        min_buf_offset d is
          (if IRSDK_HEADER_SIZE < off \<and> off < length d then min min_off off else min_off)))"

definition session_info_end :: "byte list \<Rightarrow> nat rust" where
  "session_info_end d =
     (if length d < IRSDK_HEADER_SIZE then Inr (length d)
      else
        rbind (read_i32 d 32) (\<lambda>nb.
        let num_buf = min (usize_of_i32 nb) 4 in
        if num_buf = 0 then Inr (length d)
        else min_buf_offset d [0..<num_buf] (length d)))"

section \<open>The writer's view of the ring (\<open>active_varbuf\<close> of \<open>ibt_writer.rs\<close>)\<close>

fun scan_varbufs :: "byte list \<Rightarrow> nat list \<Rightarrow> (i32 \<times> nat) option \<Rightarrow> (i32 \<times> nat) option rust" where
  "scan_varbufs d [] best = Inr best"
| "scan_varbufs d (i # is) best =
     (let base = 48 + i * 16 in
      rbind (read_i32 d base) (\<lambda>tc.
      rbind (read_i32 d (base + 4)) (\<lambda>bo.
      scan_varbufs d is
        (if (case best of None \<Rightarrow> True | Some (btc, _) \<Rightarrow> sint btc < sint tc)
         then Some (tc, usize_of_i32 bo) else best))))"

definition clamp_i32 :: "int \<Rightarrow> int \<Rightarrow> i32 \<Rightarrow> nat" where
  "clamp_i32 lo hi w = nat (max lo (min hi (sint w)))"

definition active_varbuf :: "byte list \<Rightarrow> (i32 \<times> nat) option rust" where
  "active_varbuf d =
     (if length d < IRSDK_HEADER_SIZE then Inr None
      else
        rbind (read_i32 d 32) (\<lambda>nb.
        scan_varbufs d [0..<clamp_i32 1 4 nb] None))"

section \<open>What the scans compute\<close>

text \<open>The number of ring slots the two readers look at, and the slot with the highest tick.\<close>

definition ring_slots :: "byte list \<Rightarrow> nat" where
  "ring_slots d = min (usize_of_i32 (i32_at d 32)) 4"

definition first_max :: "byte list \<Rightarrow> nat \<Rightarrow> nat \<Rightarrow> bool" where
  "first_max d n i \<longleftrightarrow> i < n \<and> (\<forall>j<n. sint (slot_tick d j) \<le> sint (slot_tick d i))
     \<and> (\<forall>j<i. sint (slot_tick d j) < sint (slot_tick d i))"

lemma first_max_unique: "first_max d n i \<Longrightarrow> first_max d n k \<Longrightarrow> i = k"
  unfolding first_max_def by (metis leD linorder_neqE_nat)

lemma first_max_bound: "first_max d n i \<Longrightarrow> i < n"
  by (simp add: first_max_def)

lemma first_max_Suc_keep:
  "first_max d n i \<Longrightarrow> \<not> sint (slot_tick d i) < sint (slot_tick d n) \<Longrightarrow> first_max d (Suc n) i"
  by (auto simp: first_max_def less_Suc_eq)

lemma first_max_Suc_new:
  "first_max d n i \<Longrightarrow> sint (slot_tick d i) < sint (slot_tick d n) \<Longrightarrow> first_max d (Suc n) n"
  by (auto simp: first_max_def less_Suc_eq intro: le_less_trans less_imp_le)

lemma sint_I32_MIN: "sint I32_MIN = - (2 ^ 31)"
  by (simp add: I32_MIN_def)

lemma I32_MIN_le: "sint I32_MIN \<le> sint (w :: i32)"
  using sint_ge [of w] by (simp add: sint_I32_MIN)

lemma ring_slots_le: "ring_slots d \<le> 4"
  by (simp add: ring_slots_def)

lemma slot_in_header: "i < n \<Longrightarrow> n \<le> 4 \<Longrightarrow> 112 \<le> length d \<Longrightarrow> 48 + i * 16 + 8 \<le> length d"
  by simp

text \<open>Both scans read inside the header, so they are folds of their loop bodies.\<close>

abbreviation slot_step :: "byte list \<Rightarrow> nat \<Rightarrow> i32 \<times> nat \<times> nat \<Rightarrow> i32 \<times> nat \<times> nat" where
  "slot_step d i best \<equiv>
     (if sint (fst best) < sint (slot_tick d i) then (slot_tick d i, slot_off d i, 48 + i * 16) else best)"

abbreviation varbuf_step :: "byte list \<Rightarrow> nat \<Rightarrow> (i32 \<times> nat) option \<Rightarrow> (i32 \<times> nat) option" where
  "varbuf_step d i best \<equiv>
     (if (case best of None \<Rightarrow> True | Some (btc, _) \<Rightarrow> sint btc < sint (slot_tick d i))
      then Some (slot_tick d i, slot_off d i) else best)"

lemma scan_slots_fold:
  "\<forall>i\<in>set is. 48 + i * 16 + 8 \<le> length d \<Longrightarrow> scan_slots d is best = Inr (fold (slot_step d) is best)"
proof (induction "is" arbitrary: best)
  case (Cons i "is")
  obtain t a p where "best = (t, a, p)" by (cases best)
  with Cons show ?case
    by (simp add: read_i32_ok slot_tick_def slot_off_def Let_def)
qed simp

lemma scan_varbufs_fold:
  "\<forall>i\<in>set is. 48 + i * 16 + 8 \<le> length d \<Longrightarrow> scan_varbufs d is best = Inr (fold (varbuf_step d) is best)"
  by (induction "is" arbitrary: best)
    (simp_all add: read_i32_ok slot_tick_def slot_off_def Let_def split: option.split)

lemma fold_slots_max:
  "(\<forall>j<n. slot_tick d j = I32_MIN) \<and> fold (slot_step d) [0..<n] (I32_MIN, 0, 48) = (I32_MIN, 0, 48)
   \<or> (\<exists>i. first_max d n i \<and> slot_tick d i \<noteq> I32_MIN \<and>
        fold (slot_step d) [0..<n] (I32_MIN, 0, 48) = (slot_tick d i, slot_off d i, 48 + i * 16))"
  (is "?none n \<or> ?some n")
proof (induction n)
  case 0
  then show ?case by simp
next
  case (Suc n)
  show ?case
  proof (cases "?none n")
    case none: True
    show ?thesis
    proof (cases "slot_tick d n = I32_MIN")
      case True
      then show ?thesis using none by (auto simp: less_Suc_eq)
    next
      case False
      then have lt: "sint I32_MIN < sint (slot_tick d n)"
        using I32_MIN_le [of "slot_tick d n"] by (metis order_less_le signed_word_eqI)
      then have "first_max d (Suc n) n" using none by (auto simp: first_max_def less_Suc_eq)
      then show ?thesis using none lt False by auto
    qed
  next
    case False
    with Suc.IH obtain i where i: "first_max d n i" "slot_tick d i \<noteq> I32_MIN"
      "fold (slot_step d) [0..<n] (I32_MIN, 0, 48) = (slot_tick d i, slot_off d i, 48 + i * 16)" by blast
    show ?thesis
    proof (cases "sint (slot_tick d i) < sint (slot_tick d n)")
      case True
      moreover have "slot_tick d n \<noteq> I32_MIN"
        using True I32_MIN_le [of "slot_tick d i"] by auto
      ultimately show ?thesis using i first_max_Suc_new by auto
    next
      case False
      then show ?thesis using i first_max_Suc_keep by auto
    qed
  qed
qed

lemma fold_varbufs_max:
  "0 < n \<Longrightarrow> \<exists>i. first_max d n i \<and> fold (varbuf_step d) [0..<n] None = Some (slot_tick d i, slot_off d i)"
proof (induction n)
  case (Suc n)
  show ?case
  proof (cases n)
    case 0
    then show ?thesis by (auto simp: first_max_def)
  next
    case (Suc m)
    with Suc.IH obtain i where "first_max d n i"
      "fold (varbuf_step d) [0..<n] None = Some (slot_tick d i, slot_off d i)" by blast
    then show ?thesis
      by (cases "sint (slot_tick d i) < sint (slot_tick d n)")
        (auto dest: first_max_Suc_new first_max_Suc_keep)
  qed
qed simp

section \<open>The active buffer\<close>

lemma first_max_exists: "0 < n \<Longrightarrow> \<exists>i. first_max d n i"
  using fold_varbufs_max by blast

lemma active_var_buf_short [simp]: "length d < 112 \<Longrightarrow> active_var_buf d = Inr None"
  by (simp add: active_var_buf_def IRSDK_HEADER_SIZE_def)

lemma scan_slots_max:
  assumes "112 \<le> length d" "n \<le> 4" "first_max d n k" "slot_tick d k \<noteq> I32_MIN"
  shows "scan_slots d [0..<n] (I32_MIN, 0, 48) = Inr (slot_tick d k, slot_off d k, 48 + k * 16)"
proof -
  have "scan_slots d [0..<n] (I32_MIN, 0, 48) = Inr (fold (slot_step d) [0..<n] (I32_MIN, 0, 48))"
    using assms(1,2) by (intro scan_slots_fold) auto
  moreover consider "\<forall>j<n. slot_tick d j = I32_MIN"
    | i where "first_max d n i"
      "fold (slot_step d) [0..<n] (I32_MIN, 0, 48) = (slot_tick d i, slot_off d i, 48 + i * 16)"
    using fold_slots_max [of n d] by blast
  then have "fold (slot_step d) [0..<n] (I32_MIN, 0, 48) = (slot_tick d k, slot_off d k, 48 + k * 16)"
  proof cases
    case 1
    then show ?thesis using assms(4) first_max_bound [OF assms(3)] by blast
  next
    case (2 i)
    then show ?thesis using first_max_unique [OF assms(3)] by blast
  qed
  ultimately show ?thesis by simp
qed

lemma active_var_buf_eq:
  assumes "112 \<le> length d" and k: "first_max d (ring_slots d) k" "slot_tick d k \<noteq> I32_MIN"
  shows "active_var_buf d =
    (let off = slot_off d k; len = usize_of_i32 (i32_at d 36) in
     Inr (if len = 0 \<or> length d < len \<or> length d < uadd off len then None
          else Some (off, len, slot_tick d k, 48 + k * 16)))"
proof -
  have n: "min (usize_of_i32 (i32_at d 32)) 4 = ring_slots d" by (simp add: ring_slots_def)
  have "ring_slots d \<noteq> 0" using k by (auto simp: first_max_def)
  then show ?thesis
    using assms scan_slots_max [OF assms(1) ring_slots_le k]
    by (simp add: active_var_buf_def IRSDK_HEADER_SIZE_def read_i32_ok Let_def n)
qed

lemma active_var_buf_returns [panic_free]: "returns (active_var_buf d)"
proof (cases "length d < 112")
  case False
  have "returns (scan_slots d [0..<min x 4] best)" for x best
    by (intro exI, rule scan_slots_fold) (use False in auto)
  with False show ?thesis
    by (auto simp: active_var_buf_def IRSDK_HEADER_SIZE_def read_i32_ok Let_def rbind_def
        split: sum.split prod.split) (metis sum.distinct(1))+
qed simp

text \<open>What a successful selection says about the map.\<close>

lemma active_var_buf_SomeD:
  assumes "active_var_buf d = Inr (Some (off, len, tick, tick_off))"
  shows "112 \<le> length d" "0 < len" "len \<le> length d" "uadd off len \<le> length d" "tick_off + 8 \<le> 112"
    "len = usize_of_i32 (i32_at d 36)"
    "(\<exists>k. first_max d (ring_slots d) k \<and> off = slot_off d k \<and> tick = slot_tick d k \<and> tick_off = 48 + k * 16)
     \<or> off = 0 \<and> tick = I32_MIN \<and> tick_off = 48"
proof -
  show l: "112 \<le> length d" using assms by (cases "length d < 112") auto
  have "scan_slots d [0..<ring_slots d] (I32_MIN, 0, 48) =
      Inr (fold (slot_step d) [0..<ring_slots d] (I32_MIN, 0, 48))"
    using l ring_slots_le [of d] by (intro scan_slots_fold) auto
  with assms l have r: "fold (slot_step d) [0..<ring_slots d] (I32_MIN, 0, 48) = (tick, off, tick_off)"
    "0 < len" "len \<le> length d" "uadd off len \<le> length d" "len = usize_of_i32 (i32_at d 36)"
    by (auto simp: active_var_buf_def IRSDK_HEADER_SIZE_def read_i32_ok Let_def ring_slots_def
        split: if_splits prod.splits)
  show "0 < len" "len \<le> length d" "uadd off len \<le> length d" "len = usize_of_i32 (i32_at d 36)"
    using r by blast+
  show c: "(\<exists>k. first_max d (ring_slots d) k \<and> off = slot_off d k \<and> tick = slot_tick d k \<and> tick_off = 48 + k * 16)
     \<or> off = 0 \<and> tick = I32_MIN \<and> tick_off = 48"
    using fold_slots_max [of "ring_slots d" d] r(1) by auto
  then show "tick_off + 8 \<le> 112" using ring_slots_le [of d] by (auto dest: first_max_bound)
qed

definition offsets_nonneg :: "byte list \<Rightarrow> bool" where
  "offsets_nonneg d \<longleftrightarrow> (\<forall>i<4. 0 \<le> sint (i32_at d (48 + i * 16 + 4)))"

lemma active_var_buf_in_bounds:
  assumes "active_var_buf d = Inr (Some (off, len, tick, tick_off))"
    and "offsets_nonneg d" "length d < 2 ^ 63"
  shows "off + len \<le> length d" "uadd off len = off + len"
proof -
  note D = active_var_buf_SomeD [OF assms(1)]
  have "off < 2 ^ 31" using D(7)
  proof
    assume "\<exists>k. first_max d (ring_slots d) k \<and> off = slot_off d k \<and> tick = slot_tick d k \<and> tick_off = 48 + k * 16"
    then obtain k where "k < ring_slots d" "off = slot_off d k" by (auto dest: first_max_bound)
    moreover have "k < 4" using \<open>k < ring_slots d\<close> ring_slots_le [of d] by simp
    ultimately show ?thesis
      using assms(2) usize_of_i32_lt [of "i32_at d (48 + k * 16 + 4)"]
      by (simp add: offsets_nonneg_def slot_off_def)
  qed auto
  then show "uadd off len = off + len" using D(3) assms(3) by simp
  then show "off + len \<le> length d" using D(4) by simp
qed

text \<open>C27: \<open>active_var_buf\<close> picks the ring slot with the highest \<open>tickCount\<close> (the first
  of several), reports where that count is stored, and the region it returns lies inside the
  map whenever the header's \<open>bufOffset\<close> of that slot is not negative.\<close>

theorem active_var_buf_newest:
  assumes "active_var_buf d = Inr (Some (off, len, tick, tick_off))"
    and "i < ring_slots d" "slot_tick d i \<noteq> I32_MIN" and "length d < 2 ^ 63"
  shows "\<exists>k. first_max d (ring_slots d) k \<and> tick_off = 48 + k * 16 \<and> tick = i32_at d tick_off \<and>
    off = slot_off d k \<and> 0 < len \<and> len = usize_of_i32 (i32_at d 36) \<and>
    (0 \<le> sint (i32_at d (tick_off + 4)) \<longrightarrow> off + len \<le> length d)"
proof -
  have l: "112 \<le> length d" using assms(1) by (cases "length d < 112") auto
  obtain k where k: "first_max d (ring_slots d) k"
    using first_max_exists [of "ring_slots d" d] assms(2) by auto
  with assms(2,3) have "slot_tick d k \<noteq> I32_MIN"
    using I32_MIN_le [of "slot_tick d i"] by (metis dual_order.antisym first_max_def signed_word_eqI)
  from active_var_buf_eq [OF l k this] assms(1)
  have r: "off = slot_off d k" "len = usize_of_i32 (i32_at d 36)" "tick = slot_tick d k"
    "tick_off = 48 + k * 16" "len \<noteq> 0" "len \<le> length d" "uadd off len \<le> length d"
    by (auto simp: Let_def split: if_splits)
  have "off + len \<le> length d" if "0 \<le> sint (i32_at d (tick_off + 4))"
  proof -
    have "off < 2 ^ 31" using usize_of_i32_lt [OF that] r by (simp add: slot_off_def add.commute)
    with r assms(4) show ?thesis by simp
  qed
  with k r show ?thesis by (auto simp: slot_tick_def)
qed

definition demo_map :: "i32 \<Rightarrow> i32 \<Rightarrow> byte list" where
  "demo_map tick off1 = replicate 32 0 @ le_bytes 4 (2 :: i32) @ le_bytes 4 (4 :: i32) @ replicate 8 0
     @ le_bytes 4 (7 :: i32) @ le_bytes 4 (112 :: i32) @ replicate 8 0
     @ le_bytes 4 tick @ le_bytes 4 off1 @ replicate 8 0
     @ replicate 32 0 @ replicate 8 1"

lemma i32_at_demo:
  "length (demo_map t o1) = 120" "i32_at (demo_map t o1) 32 = 2" "i32_at (demo_map t o1) 36 = 4"
  "i32_at (demo_map t o1) 48 = 7" "i32_at (demo_map t o1) 52 = 112"
  "i32_at (demo_map t o1) 64 = t" "i32_at (demo_map t o1) 68 = o1"
  by (simp_all add: demo_map_def i32_at_def)

theorem active_var_buf_newest_witness:
  "active_var_buf (demo_map 9 116) = Inr (Some (116, 4, 9, 64)) \<and>
   (\<exists>k. first_max (demo_map 9 116) (ring_slots (demo_map 9 116)) k \<and> 64 = 48 + k * 16)"
proof -
  note w = i32_at_demo [of 9 116]
  have r: "ring_slots (demo_map 9 116) = 2" using w by (simp add: ring_slots_def usize_of_i32_nonneg)
  have k: "first_max (demo_map 9 116) 2 1"
    using w by (auto simp: first_max_def slot_tick_def less_2_cases_iff)
  have a: "active_var_buf (demo_map 9 116) = Inr (Some (116, 4, 9, 64))"
    using active_var_buf_eq [of "demo_map 9 116" 1] k w
    by (simp add: r slot_tick_def slot_off_def usize_of_i32_nonneg Let_def I32_MIN_def)
  show ?thesis
    using active_var_buf_newest [OF a, of 0] a r w
    by (simp add: slot_tick_def I32_MIN_def)
qed

text \<open>The bounds check of \<open>active_var_buf\<close> wraps: a slot whose \<open>bufOffset\<close> is
  negative, by no more than \<open>bufLen\<close>, passes it although the region it names starts beyond the
  end of every map, so that slicing the map at the returned offset panics.\<close>

lemma negative_buf_offset_passes:
  assumes "112 \<le> length d" "length d < 2 ^ 63" and k: "first_max d (ring_slots d) k" "slot_tick d k \<noteq> I32_MIN"
    and neg: "sint (i32_at d (48 + k * 16 + 4)) < 0"
    and len: "- sint (i32_at d (48 + k * 16 + 4)) \<le> sint (i32_at d 36)" "sint (i32_at d 36) \<le> int (length d)"
  shows "\<exists>off len tick tick_off. active_var_buf d = Inr (Some (off, len, tick, tick_off)) \<and>
    length d < off \<and> slice off (uadd off len) d = Inl Slice_Index"
proof -
  let ?off = "slot_off d k" and ?len = "usize_of_i32 (i32_at d 36)"
  let ?o = "sint (i32_at d (48 + k * 16 + 4))"
  have l: "int ?len = sint (i32_at d 36)" using len neg by (simp add: usize_of_i32_nonneg)
  have "- (2 ^ 31) \<le> ?o" using sint_ge [of "i32_at d (48 + k * 16 + 4)"] by simp
  then have o: "int ?off = ?o + 2 ^ 64"
    using neg mod_pos_pos_trivial [of "?o + 2 ^ 64" "2 ^ 64"]
    by (simp add: slot_off_def usize_of_i32_alt)
  have b: "?len \<noteq> 0" "?len \<le> length d" using l len neg by linarith+
  have "2 ^ 64 \<le> int ?off + int ?len" using l o len by linarith
  then have c: "2 ^ 64 \<le> ?off + ?len" by simp
  then have u: "uadd ?off ?len = ?off + ?len - 2 ^ 64"
    using o l len neg assms(2) by (simp add: uadd_def le_mod_geq c)
  have "int (length d) < 2 ^ 63" using assms(2) by simp
  then have "int (length d) < int ?off" using o \<open>- (2 ^ 31) \<le> ?o\<close> by simp
  then have big: "length d < ?off" by simp
  have "?off < 2 ^ 64" using o neg by simp
  with u b c assms(2) have "uadd ?off ?len < ?off" "\<not> length d < uadd ?off ?len" by simp_all
  then show ?thesis
    using active_var_buf_eq [OF assms(1) k] b big by (simp add: Let_def slice_def)
qed

lemma negative_buf_offset_passes_witness:
  "\<exists>off len tick tick_off. active_var_buf (demo_map 9 (- 1)) = Inr (Some (off, len, tick, tick_off)) \<and>
    slice off (uadd off len) (demo_map 9 (- 1)) = Inl Slice_Index"
proof -
  note w = i32_at_demo [of 9 "- 1"]
  have r: "ring_slots (demo_map 9 (- 1)) = 2" using w by (simp add: ring_slots_def usize_of_i32_nonneg)
  have k: "first_max (demo_map 9 (- 1)) (ring_slots (demo_map 9 (- 1))) 1"
    using w r by (auto simp: first_max_def slot_tick_def less_2_cases_iff)
  show ?thesis
    using negative_buf_offset_passes [OF _ _ k] w by (simp add: slot_tick_def I32_MIN_def) blast
qed

section \<open>The end of the static prefix\<close>

abbreviation in_range_off :: "byte list \<Rightarrow> nat \<Rightarrow> bool" where
  "in_range_off d i \<equiv> 112 < slot_off d i \<and> slot_off d i < length d"

lemma min_buf_offset_fold:
  "\<forall>i\<in>set is. 48 + i * 16 + 8 \<le> length d \<Longrightarrow>
   min_buf_offset d is m = Inr (fold (\<lambda>i m. if in_range_off d i then min m (slot_off d i) else m) is m)"
  by (induction "is" arbitrary: m)
    (simp_all add: read_i32_ok slot_off_def Let_def IRSDK_HEADER_SIZE_def)

lemma fold_min_off:
  "let r = fold (\<lambda>i m. if in_range_off d i then min m (slot_off d i) else m) [0..<n] m in
   r \<le> m \<and> (\<forall>i<n. in_range_off d i \<longrightarrow> r \<le> slot_off d i) \<and> (r = m \<or> (\<exists>i<n. in_range_off d i \<and> r = slot_off d i))"
  by (induction n) (auto simp: Let_def less_Suc_eq min_def)

lemma session_info_end_eq:
  "112 \<le> length d \<Longrightarrow> session_info_end d =
     Inr (fold (\<lambda>i m. if in_range_off d i then min m (slot_off d i) else m) [0..<ring_slots d] (length d))"
  using min_buf_offset_fold [of "[0..<ring_slots d]" d "length d"] ring_slots_le [of d]
  by (auto simp: session_info_end_def IRSDK_HEADER_SIZE_def read_i32_ok Let_def ring_slots_def)

text \<open>C36: \<open>session_info_end\<close> returns for every map, never beyond its end. It is the least offset of
  the ring slots that lies strictly beyond the 112-byte header and before the end of the map, and
  the end of the map when no slot has such an offset or the map is shorter than a header. A
  session-info frame therefore ends at or before every such buffer; a slot whose offset points
  into the header, or at its end, is not looked at.\<close>

theorem session_info_end_prefix:
  "\<exists>e. session_info_end d = Inr e \<and> e \<le> length d \<and>
     (length d < 112 \<longrightarrow> e = length d) \<and>
     (112 \<le> length d \<longrightarrow>
       (\<forall>i<ring_slots d. 112 < slot_off d i \<and> slot_off d i < length d \<longrightarrow> e \<le> slot_off d i) \<and>
       (e = length d \<or> 112 < e \<and> e < length d \<and> (\<exists>i<ring_slots d. e = slot_off d i)))"
proof (cases "112 \<le> length d")
  case True
  then show ?thesis using session_info_end_eq [OF True] fold_min_off [of d "ring_slots d" "length d"]
    by (auto simp: Let_def)
next
  case False
  then show ?thesis by (simp add: session_info_end_def IRSDK_HEADER_SIZE_def)
qed

theorem session_info_end_prefix_witness:
  "session_info_end (demo_map 9 116) = Inr 116"
proof -
  have "ring_slots (demo_map 9 116) = 2"
    using i32_at_demo [of 9 116] by (simp add: ring_slots_def usize_of_i32_nonneg)
  then show ?thesis
    using session_info_end_prefix [of "demo_map 9 116"] i32_at_demo [of 9 116]
    by (auto simp: slot_off_def usize_of_i32_nonneg less_2_cases_iff all_conj_distrib)
qed

lemma session_info_end_returns [panic_free]: "returns (session_info_end d)"
  using session_info_end_eq [of d]
  by (cases "112 \<le> length d") (auto simp: session_info_end_def IRSDK_HEADER_SIZE_def)

lemma session_info_end_le: "session_info_end d = Inr e \<Longrightarrow> e \<le> length d"
  using fold_min_off [of d "ring_slots d" "length d"] session_info_end_eq [of d]
  by (cases "112 \<le> length d") (auto simp: Let_def session_info_end_def IRSDK_HEADER_SIZE_def)

section \<open>The two readers of the ring agree\<close>

lemma clamp_i32_range: "lo \<le> hi \<Longrightarrow> nat lo \<le> clamp_i32 lo hi w \<and> clamp_i32 lo hi w \<le> nat hi"
  by (auto simp: clamp_i32_def)

lemma clamp_ring_slots: "1 \<le> sint (i32_at d 32) \<Longrightarrow> clamp_i32 1 4 (i32_at d 32) = ring_slots d"
  by (simp add: clamp_i32_def ring_slots_def usize_of_i32_nonneg max_def min_def nat_le_iff)

lemma active_varbuf_eq:
  assumes "112 \<le> length d"
  shows "\<exists>k. first_max d (clamp_i32 1 4 (i32_at d 32)) k \<and>
    active_varbuf d = Inr (Some (slot_tick d k, slot_off d k))"
proof -
  let ?n = "clamp_i32 1 4 (i32_at d 32)"
  have n: "0 < ?n" "?n \<le> 4" using clamp_i32_range [of 1 4 "i32_at d 32"] by auto
  then have "scan_varbufs d [0..<?n] None = Inr (fold (varbuf_step d) [0..<?n] None)"
    using assms by (intro scan_varbufs_fold) auto
  with fold_varbufs_max [OF n(1), of d] assms show ?thesis
    by (auto simp: active_varbuf_def IRSDK_HEADER_SIZE_def read_i32_ok)
qed

text \<open>C28: On a header with at least one ring slot, the sender's choice of the active
  variable buffer and the disk writer's choice are the same slot, although one clamps \<open>numBuf\<close>
  after an unsigned cast and the other as a signed number.\<close>

theorem ring_readers_agree:
  assumes "active_var_buf d = Inr (Some (off, len, tick, tick_off))"
    and "1 \<le> sint (i32_at d 32)" "tick \<noteq> I32_MIN"
  shows "active_varbuf d = Inr (Some (tick, off))"
proof -
  have l: "112 \<le> length d" using assms(1) by (cases "length d < 112") auto
  obtain k where k: "first_max d (ring_slots d) k"
    "active_varbuf d = Inr (Some (slot_tick d k, slot_off d k))"
    using active_varbuf_eq [OF l] clamp_ring_slots [OF assms(2)] by auto
  have "slot_tick d k \<noteq> I32_MIN"
  proof
    assume "slot_tick d k = I32_MIN"
    then have "\<not> (\<exists>i<ring_slots d. slot_tick d i \<noteq> I32_MIN)"
      using k(1) I32_MIN_le by (metis dual_order.antisym first_max_def signed_word_eqI)
    then have "scan_slots d [0..<ring_slots d] (I32_MIN, 0, 48) = Inr (I32_MIN, 0, 48)"
      using fold_slots_max [of "ring_slots d" d] scan_slots_fold [of "[0..<ring_slots d]" d "(I32_MIN, 0, 48)"]
        l ring_slots_le [of d] by (auto simp: first_max_def)
    then show False
      using assms l by (auto simp: active_var_buf_def IRSDK_HEADER_SIZE_def read_i32_ok Let_def
          ring_slots_def [symmetric] split: if_splits)
  qed
  then show ?thesis using active_var_buf_eq [OF l k(1)] k(2) assms(1)
    by (auto simp: Let_def split: if_splits)
qed

theorem ring_readers_agree_witness: "active_varbuf (demo_map 9 116) = Inr (Some (9, 116))"
proof -
  note w = i32_at_demo [of 9 116]
  have r: "ring_slots (demo_map 9 116) = 2" using w by (simp add: ring_slots_def usize_of_i32_nonneg)
  have "first_max (demo_map 9 116) 2 1"
    using w by (auto simp: first_max_def slot_tick_def less_2_cases_iff)
  then have "active_var_buf (demo_map 9 116) = Inr (Some (116, 4, 9, 64))"
    using active_var_buf_eq [of "demo_map 9 116" 1] w
    by (simp add: r slot_tick_def slot_off_def usize_of_i32_nonneg Let_def I32_MIN_def)
  then show ?thesis using ring_readers_agree w by (simp add: I32_MIN_def)
qed

end
