(* ===== verification/Windows_Map.thy ===== *)
theory Windows_Map
  imports Telemetry_Map "HOL-Library.Multiset"
begin

text \<open>
  The Windows side of the telemetry map (\<open>telemetry/windows.rs\<close>): \<open>open\<close>, \<open>create\<close>,
  \<open>drop\<close>, \<open>clear_status\<close> and \<open>zero_on_exit\<close>. The Win32 functions are not part of the
  repository: their results are arguments, and each operation returns the list of the calls
  it makes, so that what is acquired, released and written can be stated.
\<close>

type_synonym handle = int

definition INVALID_HANDLE_VALUE :: handle where
  "INVALID_HANDLE_VALUE = - 1"

datatype telemetry_error = Unavailable | Other

datatype call =
    OpenFileMappingW handle
  | CreateFileMappingW u32 u32 handle
  | MapViewOfFile nat
  | OpenEventW handle
  | CreateEventW handle
  | UnmapViewOfFile nat
  | CloseHandle handle
  | WriteZeros nat nat
  | Sleep nat

record windows_telemetry =
  h_map :: handle
  h_event :: handle
  view :: nat
  win_size :: nat

section \<open>The operations\<close>

definition bad_handle :: "handle \<Rightarrow> bool" where
  "bad_handle h \<longleftrightarrow> h = 0 \<or> h = INVALID_HANDLE_VALUE"

text \<open>\<open>open\<close>: the results of \<open>OpenFileMappingW\<close>, \<open>MapViewOfFile\<close>, \<open>OpenEventW\<close> and
  \<open>VirtualQuery\<close>.\<close>

definition open_win ::
  "handle \<Rightarrow> nat \<Rightarrow> handle \<Rightarrow> nat option \<Rightarrow> (telemetry_error + windows_telemetry) \<times> call list" where
  "open_win hm v he region =
     (if bad_handle hm then (Inl Unavailable, [OpenFileMappingW hm])
      else if v = 0 then (Inl Unavailable, [OpenFileMappingW hm, MapViewOfFile v, CloseHandle hm])
      else if bad_handle he then
        (Inl Unavailable, [OpenFileMappingW hm, MapViewOfFile v, OpenEventW he, UnmapViewOfFile v, CloseHandle hm])
      else
        (Inr \<lparr>h_map = hm, h_event = he, view = v,
           win_size = (case region of None \<Rightarrow> MAX_TELEMETRY_SIZE | Some n \<Rightarrow> n)\<rparr>,
         [OpenFileMappingW hm, MapViewOfFile v, OpenEventW he]))"

definition size_high :: "u64 \<Rightarrow> u32" where
  "size_high s = ucast (drop_bit 32 s)"

definition size_low :: "u64 \<Rightarrow> u32" where
  "size_low s = ucast (s AND 0xFFFFFFFF)"

definition create_win ::
  "u64 \<Rightarrow> handle \<Rightarrow> nat \<Rightarrow> handle \<Rightarrow> (telemetry_error + windows_telemetry) \<times> call list" where
  "create_win sz hm v he =
     (let c = CreateFileMappingW (size_high sz) (size_low sz) hm in
      if hm = 0 then (Inl Other, [c])
      else if v = 0 then (Inl Other, [c, MapViewOfFile v, CloseHandle hm])
      else if bad_handle he then
        (Inl Other, [c, MapViewOfFile v, CreateEventW he, UnmapViewOfFile v, CloseHandle hm])
      else
        (Inr \<lparr>h_map = hm, h_event = he, view = v, win_size = unat sz\<rparr>,
         [c, MapViewOfFile v, CreateEventW he]))"

definition drop_win :: "windows_telemetry \<Rightarrow> windows_telemetry \<times> call list" where
  "drop_win t =
     (let (t1, c1) = (if view t \<noteq> 0 then (t\<lparr>view := 0\<rparr>, [UnmapViewOfFile (view t)]) else (t, []));
          (t2, c2) = (if h_map t1 \<noteq> 0 \<and> h_map t1 \<noteq> INVALID_HANDLE_VALUE
                      then (t1\<lparr>h_map := 0\<rparr>, [CloseHandle (h_map t1)]) else (t1, []));
          (t3, c3) = (if h_event t2 \<noteq> 0 \<and> h_event t2 \<noteq> INVALID_HANDLE_VALUE
                      then (t2\<lparr>h_event := 0\<rparr>, [CloseHandle (h_event t2)]) else (t2, []))
      in (t3, c1 @ c2 @ c3))"

text \<open>The event and the size of the region, from what \<open>WaitForSingleObject\<close>, \<open>SetEvent\<close> and
  \<open>VirtualQuery\<close> return.\<close>

definition WAIT_OBJECT_0 :: u32 where
  "WAIT_OBJECT_0 = 0"

definition wait_for_data :: "u32 \<Rightarrow> bool" where
  "wait_for_data res \<longleftrightarrow> res = WAIT_OBJECT_0"

definition signal_data_ready :: "i32 \<Rightarrow> telemetry_error + unit" where
  "signal_data_ready res = (if res = 0 then Inl Other else Inr ())"

definition query_region_size :: "u64 \<Rightarrow> nat \<Rightarrow> nat option" where
  "query_region_size ret region_size = (if ret = 0 then None else Some region_size)"

text \<open>\<open>clear_status\<close> on the bytes of the map.\<close>

definition clear_status :: "byte list \<Rightarrow> byte list rust" where
  "clear_status d = (if 8 \<le> length d then store 4 (le_bytes 4 (0 :: u32)) d else Inr d)"

text \<open>\<open>zero_on_exit\<close>: \<open>env a\<close> is what \<open>OpenFileMappingW\<close> and \<open>MapViewOfFile\<close> give at attempt \<open>a\<close>;
  durations are in milliseconds.\<close>

fun zero_attempts :: "(nat \<Rightarrow> handle \<times> nat) \<Rightarrow> nat \<Rightarrow> nat list \<Rightarrow> call list" where
  "zero_attempts env sz [] = []"
| "zero_attempts env sz (attempt # rest) =
     (let (h, v) = env attempt in
      if bad_handle h then
        OpenFileMappingW h # (if attempt < 3 then [Sleep 5000] else []) @ zero_attempts env sz rest
      else if v = 0 then
        [OpenFileMappingW h, MapViewOfFile v, CloseHandle h] @ (if attempt < 3 then [Sleep 5000] else [])
          @ zero_attempts env sz rest
      else [OpenFileMappingW h, MapViewOfFile v, WriteZeros v sz, UnmapViewOfFile v, Sleep 500, CloseHandle h])"

definition zero_on_exit :: "(nat \<Rightarrow> handle \<times> nat) \<Rightarrow> nat \<Rightarrow> call list" where
  "zero_on_exit env sz = zero_attempts env sz [1, 2, 3]"

section \<open>Acquiring and releasing\<close>

datatype resource = Handle handle | View nat

fun acquires :: "call \<Rightarrow> resource multiset" where
  "acquires (OpenFileMappingW h) = (if bad_handle h then {#} else {#Handle h#})"
| "acquires (CreateFileMappingW _ _ h) = (if bad_handle h then {#} else {#Handle h#})"
| "acquires (MapViewOfFile v) = (if v = 0 then {#} else {#View v#})"
| "acquires (OpenEventW h) = (if bad_handle h then {#} else {#Handle h#})"
| "acquires (CreateEventW h) = (if bad_handle h then {#} else {#Handle h#})"
| "acquires _ = {#}"

fun releases :: "call \<Rightarrow> resource multiset" where
  "releases (UnmapViewOfFile v) = {#View v#}"
| "releases (CloseHandle h) = {#Handle h#}"
| "releases _ = {#}"

definition acquired :: "call list \<Rightarrow> resource multiset" where
  "acquired cs = sum_list (List.map acquires cs)"

definition released :: "call list \<Rightarrow> resource multiset" where
  "released cs = sum_list (List.map releases cs)"

lemma resources_simps [simp]:
  "acquired [] = {#}" "released [] = {#}"
  "acquired (c # cs) = acquires c + acquired cs" "released (c # cs) = releases c + released cs"
  "acquired (cs @ ds) = acquired cs + acquired ds" "released (cs @ ds) = released cs + released ds"
  by (simp_all add: acquired_def released_def)

text \<open>No operation leaks: what a failed operation acquired it has released, and what a
  successful one acquired is what dropping its result releases.\<close>

definition leak_free :: "(telemetry_error + windows_telemetry) \<times> call list \<Rightarrow> bool" where
  "leak_free r = (case r of
      (Inl _, cs) \<Rightarrow> acquired cs = released cs
    | (Inr t, cs) \<Rightarrow> acquired cs = released cs + released (snd (drop_win t)))"

text \<open>C29: Opening iRacing's map and creating the local one leak no handle and no view on any
  path: a failed attempt has closed everything it opened, a successful one holds exactly what
  \<open>drop\<close> gives back, and a second \<open>drop\<close> does nothing.\<close>

theorem windows_map_leak_free:
  "leak_free (open_win hm v he region) \<and> (cm \<noteq> INVALID_HANDLE_VALUE \<longrightarrow> leak_free (create_win sz cm v he))
   \<and> snd (drop_win (fst (drop_win t))) = []"
  by (auto simp: leak_free_def open_win_def create_win_def drop_win_def bad_handle_def Let_def)

theorem windows_map_leak_free_witness: "leak_free (create_win 2097152 3 4096 0)"
  using windows_map_leak_free [of 1 4096 0 None 3 2097152]
  by (simp add: INVALID_HANDLE_VALUE_def)

lemma create_size_words:
  "unat (size_high s) * 2 ^ 32 + unat (size_low s) = unat s"
proof -
  have "unat s < 2 ^ 32 * 2 ^ 32" using unsigned_less [of s, where 'a = nat] by simp
  then have "unat s div 2 ^ 32 < 2 ^ 32" by (simp add: less_mult_imp_div_less)
  then have hi: "unat (size_high s) = unat s div 2 ^ 32"
    by (simp add: size_high_def unsigned_ucast_eq unat_drop_bit_eq take_bit_eq_mod del: drop_bit_numeral_bit0)
      (simp add: drop_bit_eq_div)
  have "s AND 0xFFFFFFFF = take_bit 32 s" by (simp add: take_bit_eq_mask mask_eq_exp_minus_1)
  then have lo: "unat (size_low s) = unat s mod 2 ^ 32"
    by (simp only: size_low_def unsigned_ucast_eq unsigned_take_bit_eq) (simp add: take_bit_eq_mod)
  show ?thesis unfolding hi lo by (rule div_mult_mod_eq)
qed

fun slept :: "call \<Rightarrow> nat" where
  "slept (Sleep n) = n"
| "slept _ = 0"

fun zero_writes :: "call \<Rightarrow> nat list" where
  "zero_writes (WriteZeros _ n) = [n]"
| "zero_writes _ = []"

definition zeroed :: "call list \<Rightarrow> nat list" where
  "zeroed cs = concat (List.map zero_writes cs)"

definition sleep_ms :: "call list \<Rightarrow> nat" where
  "sleep_ms cs = sum_list (List.map slept cs)"

lemma trace_simps [simp]:
  "zeroed [] = []" "zeroed (c # cs) = zero_writes c @ zeroed cs" "zeroed (cs @ ds) = zeroed cs @ zeroed ds"
  "sleep_ms [] = 0" "sleep_ms (c # cs) = slept c + sleep_ms cs"
  "sleep_ms (cs @ ds) = sleep_ms cs + sleep_ms ds"
  by (simp_all add: zeroed_def sleep_ms_def)

definition writable :: "handle \<times> nat \<Rightarrow> bool" where
  "writable r \<longleftrightarrow> \<not> bad_handle (fst r) \<and> snd r \<noteq> 0"

lemma zero_attempts_released: "acquired (zero_attempts env sz as) = released (zero_attempts env sz as)"
  by (induction "as") (auto simp: Let_def split: prod.split)

lemma zero_attempts_writes:
  "zeroed (zero_attempts env sz as) = (if \<exists>a\<in>set as. writable (env a) then [sz] else [])"
  by (induction "as") (auto simp: writable_def Let_def split: prod.splits)

lemma zero_on_exit_slept: "sleep_ms (zero_on_exit env sz) \<le> 10500"
  by (cases "env 1"; cases "env 2"; cases "env 3") (simp add: zero_on_exit_def Let_def)

text \<open>C37: \<open>CreateFileMappingW\<close> receives the size split into two 32-bit words that
  together are the whole 64-bit size, and \<open>zero_on_exit\<close> makes at most three attempts: it
  zeroes the whole map exactly once, if one of the attempts could open it, leaves no handle or
  view behind on any path, and never sleeps more than 10.5 seconds.\<close>

theorem zero_on_exit_bounded:
  "acquired (zero_on_exit env sz) = released (zero_on_exit env sz)
   \<and> zeroed (zero_on_exit env sz) =
       (if writable (env 1) \<or> writable (env 2) \<or> writable (env 3) then [sz] else [])
   \<and> sleep_ms (zero_on_exit env sz) \<le> 10500
   \<and> unat (size_high s) * 2 ^ 32 + unat (size_low s) = unat s"
  using zero_on_exit_slept [of env sz] create_size_words [of s]
    zero_attempts_writes [of env sz "[1, 2, 3]"] zero_attempts_released [of env sz "[1, 2, 3]"]
  unfolding zero_on_exit_def by (metis list.set_intros(1,2) list.set_cases set_ConsD empty_iff list.set(1))

lemma clear_status_eq: "8 \<le> length d \<Longrightarrow> clear_status d = Inr (blit 4 [0, 0, 0, 0] d)"
  by (simp add: clear_status_def store_ok numeral_eq_Suc)

text \<open>\<open>clear_status\<close> cannot panic; it zeroes the status field and leaves every other
  byte of the map and its length alone.\<close>

lemma clear_status_frame:
  "\<exists>d'. clear_status d = Inr d' \<and> length d' = length d \<and>
     (\<forall>i<length d. d' ! i = (if 8 \<le> length d \<and> 4 \<le> i \<and> i < 8 then 0 else d ! i))"
proof (cases "8 \<le> length d")
  case True
  have "[0, 0, 0, 0] ! (i - 4) = (0 :: byte)" if "4 \<le> i" "i < 8" for i
    using that by (auto simp: less_Suc_eq numeral_eq_Suc le_Suc_eq)
  with True show ?thesis by (auto simp: clear_status_eq nth_blit)
next
  case False
  then show ?thesis by (simp add: clear_status_def)
qed

lemma clear_status_frame_witness:
  "\<exists>d'. clear_status (replicate 9 1) = Inr d' \<and> d' ! 3 = 1 \<and> d' ! 4 = 0 \<and> d' ! 7 = 0 \<and> d' ! 8 = 1"
  using clear_status_frame [of "replicate 9 1"] by fastforce

end
