(* ===== verification/Stats.thy ===== *)
theory Stats
  imports Machine
begin

text \<open>
  Transfer statistics (\<open>stats.rs\<close>): the counters of the current five-second window, the
  lifetime totals and the percentiles of the printed line. Counters are the \<open>u64\<close> and
  \<open>u128\<close> of the code and wrap; instants are microseconds. The floating-point rates and the
  text of the line are not modelled, its integers are.
\<close>

definition PRINT_INTERVAL :: int where
  "PRINT_INTERVAL = 5000000"

text \<open>\<open>Instant::elapsed\<close> saturates at zero.\<close>

definition elapsed :: "int \<Rightarrow> int \<Rightarrow> int" where
  "elapsed now since = max 0 (now - since)"

record stats =
  st_name :: string
  started_at :: int
  window_start :: int
  updates :: u64
  st_bytes :: u64
  uncompressed_bytes :: u64
  delta_updates :: u64
  dropped :: u64
  partial_latencies :: "u64 list"
  full_latencies :: "u64 list"
  source_latencies :: "u64 list"
  lifetime_updates :: u64
  lifetime_bytes :: u64
  lifetime_uncompressed_bytes :: u64
  lifetime_dropped :: u64
  lifetime_latency_sum :: u128
  lifetime_latency_min :: u64
  lifetime_latency_max :: u64

definition stats_new :: "string \<Rightarrow> int \<Rightarrow> stats" where
  "stats_new nm now =
     \<lparr>st_name = nm, started_at = now, window_start = now, updates = 0, st_bytes = 0,
      uncompressed_bytes = 0, delta_updates = 0, dropped = 0, partial_latencies = [],
      full_latencies = [], source_latencies = [], lifetime_updates = 0, lifetime_bytes = 0,
      lifetime_uncompressed_bytes = 0, lifetime_dropped = 0, lifetime_latency_sum = 0,
      lifetime_latency_min = - 1, lifetime_latency_max = 0\<rparr>"

section \<open>Recording\<close>

record sample =
  smp_compressed :: nat
  smp_uncompressed :: nat
  smp_source_us :: u64
  smp_transit_us :: u64
  smp_is_full :: bool
  smp_is_delta :: bool

definition total_us :: "sample \<Rightarrow> u64" where
  "total_us x = smp_source_us x + smp_transit_us x"

definition record_frame :: "sample \<Rightarrow> stats \<Rightarrow> stats" where
  "record_frame x s0 =
     (let s1 = s0\<lparr>updates := updates s0 + 1,
            st_bytes := st_bytes s0 + of_nat (smp_compressed x),
            uncompressed_bytes := uncompressed_bytes s0 + of_nat (smp_uncompressed x)\<rparr>;
          s2 = (if smp_is_delta x then s1\<lparr>delta_updates := delta_updates s1 + 1\<rparr> else s1);
          s3 = (if smp_is_full x then s2\<lparr>full_latencies := full_latencies s2 @ [total_us x]\<rparr>
                else
                  let p = s2\<lparr>partial_latencies := partial_latencies s2 @ [total_us x]\<rparr>
                  in if 0 < smp_transit_us x
                     then p\<lparr>source_latencies := source_latencies p @ [smp_source_us x]\<rparr> else p);
          s4 = s3\<lparr>lifetime_updates := lifetime_updates s3 + 1,
            lifetime_bytes := lifetime_bytes s3 + of_nat (smp_compressed x),
            lifetime_uncompressed_bytes := lifetime_uncompressed_bytes s3 + of_nat (smp_uncompressed x),
            lifetime_latency_sum := lifetime_latency_sum s3 + ucast (total_us x)\<rparr>;
          s5 = (if total_us x < lifetime_latency_min s4 then s4\<lparr>lifetime_latency_min := total_us x\<rparr> else s4)
      in if lifetime_latency_max s5 < total_us x then s5\<lparr>lifetime_latency_max := total_us x\<rparr> else s5)"

definition record_dropped :: "u64 \<Rightarrow> stats \<Rightarrow> stats" where
  "record_dropped count s =
     s\<lparr>dropped := dropped s + count, lifetime_dropped := lifetime_dropped s + count\<rparr>"

definition lifetime_avg :: "stats \<Rightarrow> u64" where
  "lifetime_avg s = ucast (lifetime_latency_sum s div ucast (lifetime_updates s))"

definition lifetime_snapshot :: "stats \<Rightarrow> u64 \<times> u64 \<times> u64" where
  "lifetime_snapshot s =
     (lifetime_updates s, lifetime_bytes s, if 0 < lifetime_updates s then lifetime_avg s else 0)"

section \<open>The printed window\<close>

text \<open>\<open>select_nth_unstable(k)\<close> panics out of range and gives the element of rank \<open>k\<close>.\<close>

definition select_nth :: "nat \<Rightarrow> u64 list \<Rightarrow> u64 rust" where
  "select_nth k xs = index k (sort xs)"

definition percentiles :: "u64 list \<Rightarrow> (u64 \<times> u64 \<times> u64) rust" where
  "percentiles xs =
     (if xs = [] then Inr (0, 0, 0)
      else
        let n = length xs; p50_idx = n div 2; p99_idx = min (n * 99 div 100) (n - 1) in
        rbind (select_nth (n - 1) xs) (\<lambda>mx.
        rbind (select_nth p99_idx xs) (\<lambda>p99.
        rbind (select_nth p50_idx xs) (\<lambda>p50.
        Inr (p50, p99, mx)))))"

definition checked_div :: "u64 \<Rightarrow> u64 \<Rightarrow> u64 option" where
  "checked_div a b = (if b = 0 then None else Some (a div b))"

definition saturating_sub :: "u64 \<Rightarrow> u64 \<Rightarrow> u64" where
  "saturating_sub a b = (if a < b then 0 else a - b)"

record stats_line =
  ln_partial :: "u64 \<times> u64 \<times> u64"
  ln_full :: "(u64 \<times> u64) option"
  ln_source :: "(u64 \<times> u64) option"
  ln_delta_pct :: "u64 option"
  ln_dropped :: u64

definition stats_window_line :: "stats \<Rightarrow> stats_line rust" where
  "stats_window_line s =
     rbind (percentiles (partial_latencies s)) (\<lambda>pp.
     let full_count = of_nat (length (full_latencies s));
         full_avg = (case checked_div (sum_list (full_latencies s)) full_count of
                       Some a \<Rightarrow> a | None \<Rightarrow> 0)
     in rbind (percentiles (source_latencies s)) (\<lambda>(sp50, sp99, _).
        Inr \<lparr>ln_partial = pp,
             ln_full = (if 0 < full_count then Some (full_count, full_avg) else None),
             ln_source = (if source_latencies s = [] then None else Some (sp50, sp99)),
             ln_delta_pct =
               (if 0 < delta_updates s
                then checked_div (delta_updates s * 100) (saturating_sub (updates s) full_count)
                else None),
             ln_dropped = dropped s\<rparr>))"

text \<open>\<open>maybe_print\<close> with the instants it reads before and after printing.\<close>

definition maybe_print :: "int \<Rightarrow> int \<Rightarrow> stats \<Rightarrow> (stats_line option \<times> stats) rust" where
  "maybe_print now now' s =
     (if elapsed now (window_start s) < PRINT_INTERVAL then Inr (None, s)
      else
        rbind (stats_window_line s) (\<lambda>line.
        Inr (Some line,
          s\<lparr>updates := 0, st_bytes := 0, uncompressed_bytes := 0, delta_updates := 0, dropped := 0,
            partial_latencies := [], full_latencies := [], source_latencies := [],
            window_start := now'\<rparr>)))"

definition print_summary :: "stats \<Rightarrow> (u64 \<times> u64 \<times> u64 \<times> u64 \<times> u64) option" where
  "print_summary s =
     (if lifetime_updates s = 0 then None
      else Some (lifetime_updates s, lifetime_avg s, lifetime_latency_min s, lifetime_latency_max s,
                 lifetime_dropped s))"

section \<open>Percentiles\<close>

lemma select_nth_ok: "k < length xs \<Longrightarrow> select_nth k xs = Inr (sort xs ! k)"
  by (simp add: select_nth_def index_ok)

lemma p99_index: "0 < n \<Longrightarrow> n * 99 div 100 < (n :: nat)"
  by (simp add: div_less_iff_less_mult)

lemma percentiles_eq:
  "xs \<noteq> [] \<Longrightarrow> percentiles xs =
     Inr (sort xs ! (length xs div 2), sort xs ! min (length xs * 99 div 100) (length xs - 1),
          sort xs ! (length xs - 1))"
  using p99_index [of "length xs"] by (simp add: percentiles_def select_nth_ok Let_def)

lemma percentiles_returns [panic_free]: "returns (percentiles xs)"
  using percentiles_eq [of xs] by (cases "xs = []") (auto simp: percentiles_def)

text \<open>At least \<open>k + 1\<close> samples are no larger than the one of rank \<open>k\<close>.\<close>

lemma rank_count:
  assumes "k < length (xs :: 'a::linorder list)"
  shows "Suc k \<le> length (filter (\<lambda>x. x \<le> sort xs ! k) xs)"
proof -
  have "length (filter (\<lambda>x. x \<le> sort xs ! k) (sort xs)) = length (filter (\<lambda>x. x \<le> sort xs ! k) xs)"
    by (metis filter_sort length_sort)
  moreover have "\<forall>i\<le>k. sort xs ! i \<le> sort xs ! k" using assms by (auto intro: sorted_nth_mono)
  then have "{..k} \<subseteq> {i. i < length (sort xs) \<and> sort xs ! i \<le> sort xs ! k}" using assms by auto
  then have "card {..k} \<le> card {i. i < length (sort xs) \<and> sort xs ! i \<le> sort xs ! k}"
    by (intro card_mono) auto
  ultimately show ?thesis by (simp add: length_filter_conv_card)
qed

lemma rank_count_less:
  assumes "k < length (xs :: 'a::linorder list)"
  shows "length (filter (\<lambda>x. x < sort xs ! k) xs) \<le> k"
proof -
  have "length (filter (\<lambda>x. x < sort xs ! k) (sort xs)) = length (filter (\<lambda>x. x < sort xs ! k) xs)"
    by (metis filter_sort length_sort)
  moreover have "\<not> sort xs ! i < sort xs ! k" if "k \<le> i" "i < length xs" for i
    using that sorted_nth_mono [of "sort xs" k i] by (simp add: not_less)
  then have "{i. i < length (sort xs) \<and> sort xs ! i < sort xs ! k} \<subseteq> {..<k}"
    by (auto simp: not_le [symmetric])
  then have "card {i. i < length (sort xs) \<and> sort xs ! i < sort xs ! k} \<le> k"
    using card_mono [of "{..<k}"] by simp
  ultimately show ?thesis by (simp add: length_filter_conv_card)
qed

text \<open>The sample of rank \<open>k\<close>: at most \<open>k\<close> samples are below it and more than \<open>k\<close> are not above it.\<close>

definition has_rank :: "nat \<Rightarrow> 'a::linorder \<Rightarrow> 'a list \<Rightarrow> bool" where
  "has_rank k x xs \<longleftrightarrow> x \<in> set xs \<and> length (filter (\<lambda>y. y < x) xs) \<le> k \<and>
     k < length (filter (\<lambda>y. y \<le> x) xs)"

lemma sort_nth_rank: "k < length xs \<Longrightarrow> has_rank k (sort xs ! k) xs"
  using rank_count_less [of k xs] rank_count [of k xs] nth_mem [of k "sort xs"] by (simp add: has_rank_def Suc_le_eq)

text \<open>No two samples have the same rank, so the rank says which sample it is.\<close>

lemma rank_unique:
  assumes "has_rank k x xs" "has_rank k y xs"
  shows "x = y"
proof -
  have "\<not> a < b" if "has_rank k a xs" "has_rank k b xs" for a b
  proof
    assume "a < b"
    then have "{i. i < length xs \<and> xs ! i \<le> a} \<subseteq> {i. i < length xs \<and> xs ! i < b}" by auto
    then have "length (filter (\<lambda>z. z \<le> a) xs) \<le> length (filter (\<lambda>z. z < b) xs)"
      by (simp add: length_filter_conv_card card_mono)
    then show False using that by (simp add: has_rank_def)
  qed
  with assms show ?thesis by (meson neqE)
qed

text \<open>C35: For a window of \<open>n > 0\<close> samples the printed percentiles are samples of exact ranks, counted
  from 0: the p50 has rank \<open>n / 2\<close>, so at most that many samples are below it and more than half are
  not above it; the p99 has rank \<open>99 n / 100\<close>; and no sample exceeds the max. They come in this
  order, and no window makes the selection panic.\<close>

theorem percentiles_correct:
  assumes "xs \<noteq> []"
  shows "\<exists>p50 p99 mx. percentiles xs = Inr (p50, p99, mx) \<and>
    has_rank (length xs div 2) p50 xs \<and> has_rank (length xs * 99 div 100) p99 xs \<and>
    mx \<in> set xs \<and> (\<forall>x\<in>set xs. x \<le> mx) \<and> p50 \<le> p99 \<and> p99 \<le> mx"
proof -
  let ?n = "length xs" and ?s = "sort xs"
  have n: "0 < ?n" using assms by simp
  have ij: "?n div 2 < ?n" "?n * 99 div 100 < ?n" "?n div 2 \<le> ?n * 99 div 100 \<or> ?n = 1"
    using n p99_index [OF n] by linarith+
  have mono: "?s ! a \<le> ?s ! b" if "a \<le> b" "b < ?n" for a b
    using that by (intro sorted_nth_mono) auto
  have mx: "x \<le> ?s ! (?n - 1)" if "x \<in> set xs" for x
  proof -
    from that obtain k where "k < ?n" "x = ?s ! k" by (metis in_set_conv_nth length_sort set_sort)
    then show ?thesis by (auto intro: mono)
  qed
  have "?s ! (?n - 1) \<in> set xs" using n nth_mem [of "?n - 1" ?s] by simp
  moreover have "?s ! (?n div 2) \<le> ?s ! (?n * 99 div 100)"
    using ij(3) mono [OF _ ij(2)] by auto
  moreover have "min (?n * 99 div 100) (?n - 1) = ?n * 99 div 100" using ij(2) by simp
  ultimately show ?thesis
    using percentiles_eq [OF assms] sort_nth_rank [OF ij(1)] sort_nth_rank [OF ij(2)] mono [of "?n * 99 div 100" "?n - 1"]
      ij(2) mx by auto
qed

theorem percentiles_correct_witness:
  "percentiles [30, 10, 20, 40 :: u64] = Inr (30, 40, 40)"
proof -
  let ?xs = "[30, 10, 20, 40] :: u64 list"
  obtain p50 p99 mx where p: "percentiles ?xs = Inr (p50, p99, mx)" "has_rank (length ?xs div 2) p50 ?xs"
    "has_rank (length ?xs * 99 div 100) p99 ?xs" "mx \<in> set ?xs" "p99 \<le> mx"
    using percentiles_correct [of ?xs] by blast
  have l: "length ?xs div 2 = 2" "length ?xs * 99 div 100 = 3" by simp_all
  have "has_rank 2 (30 :: u64) [30, 10, 20, 40]" "has_rank 3 (40 :: u64) [30, 10, 20, 40]" by (simp_all add: has_rank_def)
  with p(2,3) have "p50 = 30" "p99 = 40" unfolding l by (blast intro: rank_unique)+
  with p(1,4,5) show ?thesis by auto
qed

section \<open>Statistics as a machine\<close>

datatype stats_op = Record sample | Dropped u64 | Window int int

definition stats_step :: "stats \<Rightarrow> stats_op \<Rightarrow> (stats_line option \<times> stats) rust" where
  "stats_step s a = (case a of
      Record x \<Rightarrow> Inr (None, record_frame x s)
    | Dropped n \<Rightarrow> Inr (None, record_dropped n s)
    | Window now now' \<Rightarrow> maybe_print now now' s)"

text \<open>The window counters describe the window's latency lists.\<close>

definition wf_stats :: "stats \<Rightarrow> bool" where
  "wf_stats s \<longleftrightarrow> updates s = of_nat (length (partial_latencies s) + length (full_latencies s))
     \<and> length (source_latencies s) \<le> length (partial_latencies s)"

lemma wf_stats_new [simp]: "wf_stats (stats_new nm now)"
  by (simp add: wf_stats_def stats_new_def)

lemma record_frame_lifetime:
  "lifetime_updates (record_frame x s) = lifetime_updates s + 1"
  "lifetime_bytes (record_frame x s) = lifetime_bytes s + of_nat (smp_compressed x)"
  "lifetime_latency_sum (record_frame x s) = lifetime_latency_sum s + ucast (total_us x)"
  "lifetime_latency_min (record_frame x s) = min (total_us x) (lifetime_latency_min s)"
  "lifetime_latency_max (record_frame x s) = max (total_us x) (lifetime_latency_max s)"
  "lifetime_dropped (record_frame x s) = lifetime_dropped s"
  by (auto simp: record_frame_def Let_def min_def max_def)

lemma record_frame_window:
  "updates (record_frame x s) = updates s + 1"
  "delta_updates (record_frame x s) = delta_updates s + (if smp_is_delta x then 1 else 0)"
  "partial_latencies (record_frame x s) = partial_latencies s @ (if smp_is_full x then [] else [total_us x])"
  "full_latencies (record_frame x s) = full_latencies s @ (if smp_is_full x then [total_us x] else [])"
  "source_latencies (record_frame x s) =
     source_latencies s @ (if \<not> smp_is_full x \<and> 0 < smp_transit_us x then [smp_source_us x] else [])"
  by (auto simp: record_frame_def Let_def)

lemma maybe_print_returns [panic_free]: "returns (maybe_print now now' s)"
  using percentiles_returns [of "partial_latencies s"] percentiles_returns [of "source_latencies s"]
  by (auto simp: maybe_print_def stats_window_line_def Let_def)

lemma maybe_print_frame:
  assumes "maybe_print now now' s = Inr (r, s')"
  shows "lifetime_updates s' = lifetime_updates s" "lifetime_bytes s' = lifetime_bytes s"
    "lifetime_latency_sum s' = lifetime_latency_sum s" "lifetime_latency_min s' = lifetime_latency_min s"
    "lifetime_latency_max s' = lifetime_latency_max s" "lifetime_dropped s' = lifetime_dropped s"
    "s' = s \<or> updates s' = 0 \<and> partial_latencies s' = [] \<and> full_latencies s' = [] \<and>
       source_latencies s' = [] \<and> delta_updates s' = 0"
  using assms by (auto simp: maybe_print_def rbind_eq_Inr split: if_splits)

lemma stats_step_returns: "returns (stats_step s a)"
  using maybe_print_returns by (auto simp: stats_step_def split: stats_op.split)

lemma stats_step_wf: "wf_stats s \<Longrightarrow> stats_step s a = Inr (out, s') \<Longrightarrow> wf_stats s'"
  by (auto simp: stats_step_def wf_stats_def record_frame_window record_dropped_def
      split: stats_op.splits dest: maybe_print_frame(7))

interpretation st: safe_machine stats_step wf_stats "\<lambda>_. True"
  by unfold_locales (blast intro: stats_step_wf stats_step_returns)+

section \<open>Lifetime totals\<close>

fun samples :: "stats_op list \<Rightarrow> sample list" where
  "samples [] = []"
| "samples (Record x # as) = x # samples as"
| "samples (_ # as) = samples as"

definition latencies :: "stats_op list \<Rightarrow> u64 list" where
  "latencies as = List.map total_us (samples as)"

lemma run_lifetime:
  assumes "run stats_step s as = Inr (os, s')"
  shows "lifetime_updates s' = lifetime_updates s + of_nat (length (samples as)) \<and>
    lifetime_bytes s' = lifetime_bytes s + of_nat (sum_list (List.map smp_compressed (samples as))) \<and>
    lifetime_latency_sum s' = lifetime_latency_sum s + of_nat (sum_list (List.map unat (latencies as))) \<and>
    lifetime_latency_min s' = fold min (latencies as) (lifetime_latency_min s) \<and>
    lifetime_latency_max s' = fold max (latencies as) (lifetime_latency_max s)"
  using assms
proof (induction "as" arbitrary: s os)
  case Nil
  then show ?case by (simp add: latencies_def)
next
  case (Cons a "as")
  then obtain o1 s1 os1 where s1: "stats_step s a = Inr (o1, s1)" and r: "run stats_step s1 as = Inr (os1, s')"
    by (auto simp: rbind_eq_Inr)
  note IH = Cons.IH [OF r]
  show ?case
  proof (cases a)
    case (Record x)
    then have "s1 = record_frame x s" using s1 by (simp add: stats_step_def)
    then show ?thesis using IH Record
      by (simp add: record_frame_lifetime latencies_def)
  next
    case (Dropped n)
    then have "s1 = record_dropped n s" using s1 by (simp add: stats_step_def)
    then show ?thesis using IH Dropped by (simp add: record_dropped_def latencies_def)
  next
    case (Window now now')
    then have "maybe_print now now' s = Inr (o1, s1)" using s1 by (simp add: stats_step_def)
    then show ?thesis using IH Window by (simp add: maybe_print_frame latencies_def)
  qed
qed

lemma sum_bounds:
  fixes xs :: "u64 list"
  assumes "\<forall>x\<in>set xs. lo \<le> x \<and> x \<le> hi"
  shows "length xs * unat lo \<le> sum_list (List.map unat xs) \<and> sum_list (List.map unat xs) \<le> length xs * unat hi"
  using assms by (induction xs) (auto simp: word_le_nat_alt)

lemma fold_min_max:
  fixes xs :: "u64 list"
  shows "xs \<noteq> [] \<Longrightarrow> fold min xs (- 1) = Min (set xs) \<and> fold max xs 0 = Max (set xs)"
proof -
  assume ne: "xs \<noteq> []"
  have "fold min xs (- 1) = Min (set (- 1 # xs))" by (rule Min.set_eq_fold [symmetric])
  moreover have "fold max xs 0 = Max (set (0 # xs))" by (rule Max.set_eq_fold [symmetric])
  ultimately show ?thesis using ne by (simp add: min_absorb2 max_absorb2)
qed

lemma avg_exact:
  fixes xs :: "u64 list"
  assumes "xs \<noteq> []" "length xs < 2 ^ 64"
  shows "ucast ((of_nat (sum_list (List.map unat xs)) :: u128) div ucast (of_nat (length xs) :: u64))
    = (of_nat (sum_list (List.map unat xs) div length xs) :: u64)"
proof -
  let ?S = "sum_list (List.map unat xs)" and ?n = "length xs"
  have "?S \<le> ?n * unat (- 1 :: u64)" using sum_bounds [of xs 0 "- 1"] by simp
  also have "\<dots> \<le> ?n * 2 ^ 64" using unsigned_less [of "- 1 :: u64", where 'a = nat] by simp
  also have "\<dots> < 2 ^ 64 * 2 ^ 64" using assms(2) by simp
  finally have S: "unat (of_nat ?S :: u128) = ?S" by (simp add: unat_of_nat)
  have n: "unat (ucast (of_nat ?n :: u64) :: u128) = ?n"
    using assms(2) by (simp add: unsigned_ucast_eq unat_of_nat take_bit_nat_eq_self)
  have "ucast ((of_nat ?S :: u128) div ucast (of_nat ?n :: u64)) =
      (of_nat (unat ((of_nat ?S :: u128) div ucast (of_nat ?n :: u64))) :: u64)" by simp
  then show ?thesis unfolding unat_div_distrib S n .
qed

text \<open>C34: Whatever is recorded, dropped and printed, and in whatever order, the lifetime
  snapshot counts the recorded frames and their compressed bytes and gives the mean of their
  latencies, computed without the overflow of a 64-bit sum; the mean lies between the smallest
  and the largest latency of the shutdown summary.\<close>

theorem lifetime_snapshot_exact:
  assumes "run stats_step (stats_new nm now) as = Inr (os, s)"
    and "latencies as \<noteq> []" "length (samples as) < 2 ^ 64"
  shows "lifetime_snapshot s =
      (of_nat (length (samples as)), of_nat (sum_list (List.map smp_compressed (samples as))),
       of_nat (sum_list (List.map unat (latencies as)) div length (latencies as)))
    \<and> print_summary s = Some (of_nat (length (samples as)), lifetime_avg s,
       Min (set (latencies as)), Max (set (latencies as)), lifetime_dropped s)
    \<and> Min (set (latencies as)) \<le> lifetime_avg s \<and> lifetime_avg s \<le> Max (set (latencies as))"
proof -
  let ?l = "latencies as"
  have len: "length (samples as) = length ?l" by (simp add: latencies_def)
  have s: "lifetime_updates s = of_nat (length ?l)"
    "lifetime_bytes s = of_nat (sum_list (List.map smp_compressed (samples as)))"
    "lifetime_latency_sum s = of_nat (sum_list (List.map unat ?l))"
    "lifetime_latency_min s = Min (set ?l)" "lifetime_latency_max s = Max (set ?l)"
    using run_lifetime [OF assms(1)] fold_min_max [OF assms(2)] len by (simp_all add: stats_new_def)
  have n: "length ?l < 2 ^ 64" "0 < length ?l" using assms(2,3) len by simp_all
  have "unat (of_nat (length ?l) :: u64) = length ?l" using n by (intro unat_of_nat_small) simp
  then have pos: "(of_nat (length ?l) :: u64) \<noteq> 0" using n(2) by auto
  let ?q = "sum_list (List.map unat ?l) div length ?l"
  have avg: "lifetime_avg s = of_nat ?q"
    using avg_exact [OF assms(2) n(1)] by (simp add: lifetime_avg_def s)
  have sb: "length ?l * unat (Min (set ?l)) \<le> sum_list (List.map unat ?l)"
    "sum_list (List.map unat ?l) \<le> length ?l * unat (Max (set ?l))"
    using sum_bounds [of ?l "Min (set ?l)" "Max (set ?l)"] by simp_all
  have lo: "unat (Min (set ?l)) \<le> ?q"
    using sb(1) n(2) by (simp add: less_eq_div_iff_mult_less_eq mult.commute)
  have hi: "?q \<le> unat (Max (set ?l))"
    using div_le_mono [OF sb(2), of "length ?l"] n(2) by simp
  have q: "unat (of_nat ?q :: u64) = ?q"
    using hi unsigned_less [of "Max (set ?l)", where 'a = nat] by (intro unat_of_nat_small) simp
  have bounds: "Min (set ?l) \<le> lifetime_avg s" "lifetime_avg s \<le> Max (set ?l)"
    unfolding avg word_le_nat_alt q using lo hi by simp_all
  have "lifetime_snapshot s = (of_nat (length ?l),
       of_nat (sum_list (List.map smp_compressed (samples as))), of_nat ?q)"
    using pos avg by (simp add: lifetime_snapshot_def s word_gt_0)
  moreover have "print_summary s = Some (of_nat (length ?l), lifetime_avg s,
       Min (set ?l), Max (set ?l), lifetime_dropped s)"
    using pos by (simp add: print_summary_def s)
  ultimately show ?thesis using bounds len by simp
qed

text \<open>Two frames and a printed window between them.\<close>

definition demo_ops :: "stats_op list" where
  "demo_ops =
     [Record \<lparr>smp_compressed = 10, smp_uncompressed = 40, smp_source_us = 100, smp_transit_us = 50,
              smp_is_full = True, smp_is_delta = False\<rparr>,
      Window 6000000 6000000,
      Record \<lparr>smp_compressed = 20, smp_uncompressed = 40, smp_source_us = 50, smp_transit_us = 0,
              smp_is_full = False, smp_is_delta = True\<rparr>]"

theorem lifetime_snapshot_exact_witness:
  "\<exists>os s. run stats_step (stats_new ''target'' 0) demo_ops = Inr (os, s) \<and> lifetime_snapshot s = (2, 30, 100)"
proof -
  obtain os s where r: "run stats_step (stats_new ''target'' 0) demo_ops = Inr (os, s)"
    using st.run_returns [of "stats_new ''target'' 0" demo_ops] by (auto simp: list_all_iff)
  have l: "latencies demo_ops = [150, 50]" and "length (samples demo_ops) = 2"
    "List.map smp_compressed (samples demo_ops) = [10, 20]"
    by (simp_all add: demo_ops_def latencies_def total_us_def)
  then show ?thesis using lifetime_snapshot_exact [OF r] r by (auto simp flip: numeral_2_eq_2)
qed

section \<open>The window counters\<close>

text \<open>The delta share of a window: every recorded delta frame is a partial frame.\<close>

definition delta_inv :: "stats \<Rightarrow> bool" where
  "delta_inv s \<longleftrightarrow> wf_stats s \<and>
     (\<exists>d. delta_updates s = of_nat d \<and> d \<le> length (partial_latencies s))"

lemma delta_inv_step:
  assumes "delta_inv s" "stats_step s a = Inr (out, s')"
    and "\<And>x. a = Record x \<Longrightarrow> \<not> (smp_is_full x \<and> smp_is_delta x)"
  shows "delta_inv s'"
proof (cases a)
  case (Record x)
  with assms have s': "s' = record_frame x s" by (simp add: stats_step_def)
  obtain d where d: "delta_updates s = of_nat d" "d \<le> length (partial_latencies s)"
    using assms(1) by (auto simp: delta_inv_def)
  have "delta_updates s' = of_nat (d + (if smp_is_delta x then 1 else 0))"
    "d + (if smp_is_delta x then 1 else 0) \<le> length (partial_latencies s')"
    using d assms(3) Record by (auto simp: s' record_frame_window)
  moreover have "wf_stats s'" using assms stats_step_wf by (auto simp: delta_inv_def)
  ultimately show ?thesis unfolding delta_inv_def by blast
next
  case (Dropped n)
  with assms show ?thesis by (auto simp: stats_step_def delta_inv_def wf_stats_def record_dropped_def)
next
  case (Window now now')
  with assms have m: "maybe_print now now' s = Inr (out, s')" by (simp add: stats_step_def)
  show ?thesis using maybe_print_frame(7) [OF m] assms(1) by (auto simp: delta_inv_def wf_stats_def)
qed

lemma delta_inv_run:
  "delta_inv s \<Longrightarrow> run stats_step s as = Inr (os, s') \<Longrightarrow>
   (\<forall>x\<in>set (samples as). \<not> (smp_is_full x \<and> smp_is_delta x)) \<Longrightarrow> delta_inv s'"
proof (induction "as" arbitrary: s os)
  case (Cons a "as")
  then obtain o1 s1 os1 where "stats_step s a = Inr (o1, s1)" "run stats_step s1 as = Inr (os1, s')"
    by (auto simp: rbind_eq_Inr)
  moreover from this(1) have "delta_inv s1"
    by (rule delta_inv_step [OF Cons.prems(1)]) (use Cons.prems(3) in auto)
  ultimately show ?case using Cons by (cases a) auto
qed simp

lemma run_window_length:
  "run stats_step s as = Inr (os, s') \<Longrightarrow>
   length (partial_latencies s') + length (full_latencies s')
     \<le> length (partial_latencies s) + length (full_latencies s) + length (samples as)"
proof (induction "as" arbitrary: s os)
  case (Cons a "as")
  then obtain o1 s1 os1 where s1: "stats_step s a = Inr (o1, s1)" and r: "run stats_step s1 as = Inr (os1, s')"
    by (auto simp: rbind_eq_Inr)
  from s1 Cons.IH [OF r] show ?case
    by (cases a) (auto simp: stats_step_def record_frame_window record_dropped_def
        dest: maybe_print_frame(7) split: if_splits)
qed simp

lemma pct_le_100:
  assumes "d \<le> p" "p + f < 2 ^ 57"
  shows "case checked_div (of_nat d * 100) (saturating_sub (of_nat (p + f)) (of_nat f)) of
    None \<Rightarrow> p = 0 | Some pct \<Rightarrow> pct \<le> (100 :: u64)"
proof -
  have pf: "unat (of_nat (p + f) :: u64) = p + f" "unat (of_nat f :: u64) = f" "unat (of_nat p :: u64) = p"
    using assms by (intro unat_of_nat_small; simp)+
  then have sub: "saturating_sub (of_nat (p + f)) (of_nat f) = of_nat p"
    by (simp add: saturating_sub_def word_less_nat_alt)
  have "unat (of_nat (d * 100) :: u64) = d * 100"
    using assms by (intro unat_of_nat_small) simp
  then have "unat ((of_nat d * 100 :: u64) div of_nat p) = d * 100 div p"
    by (simp add: unat_div_distrib pf)
  moreover have "d * 100 div p \<le> 100"
  proof (cases "p = 0")
    case False
    have "d * 100 div p \<le> p * 100 div p" using assms(1) by (intro div_le_mono) simp
    with False show ?thesis by simp
  qed simp
  ultimately have le: "(of_nat d * 100 :: u64) div of_nat p \<le> 100" by (simp add: word_le_nat_alt)
  have "(of_nat p :: u64) = 0 \<longleftrightarrow> p = 0" using pf(3) unat_0_iff [of "of_nat p :: u64"] by metis
  with le show ?thesis unfolding sub by (simp add: checked_div_def)
qed

text \<open>When no recorded frame is both full and delta-encoded, as the callers guarantee,
  the delta share printed for a window is a percentage: it is shown exactly when the window has
  a delta frame, and it never exceeds 100.\<close>

lemma delta_share_is_percentage:
  assumes "run stats_step (stats_new nm now) as = Inr (os, s)"
    and "\<forall>x\<in>set (samples as). \<not> (smp_is_full x \<and> smp_is_delta x)"
    and "length (samples as) < 2 ^ 57"
  shows "\<exists>line. stats_window_line s = Inr line \<and>
    (case ln_delta_pct line of None \<Rightarrow> delta_updates s = 0 | Some pct \<Rightarrow> delta_updates s \<noteq> 0 \<and> pct \<le> 100)"
proof -
  let ?p = "length (partial_latencies s)" and ?f = "length (full_latencies s)"
  have "delta_inv (stats_new nm now)"
    unfolding delta_inv_def by (simp add: stats_new_def wf_stats_def)
  from delta_inv_run [OF this assms(1,2)] obtain d where
    d: "delta_updates s = of_nat d" "d \<le> ?p" "updates s = of_nat (?p + ?f)"
    by (auto simp: delta_inv_def wf_stats_def)
  have pf: "?p + ?f < 2 ^ 57"
    using run_window_length [OF assms(1)] assms(3) by (simp add: stats_new_def)
  obtain line where l: "stats_window_line s = Inr line"
    using percentiles_returns [of "partial_latencies s"] percentiles_returns [of "source_latencies s"]
    by (auto simp: stats_window_line_def Let_def)
  then have pct: "ln_delta_pct line = (if 0 < delta_updates s
      then checked_div (of_nat d * 100) (saturating_sub (of_nat (?p + ?f)) (of_nat ?f)) else None)"
    by (auto simp: stats_window_line_def rbind_eq_Inr Let_def d simp del: of_nat_add)
  have "?p = 0 \<Longrightarrow> delta_updates s = 0" using d by simp
  then show ?thesis using pct_le_100 [OF d(2) pf] l pct
    by (auto simp: word_gt_0 split: option.splits)
qed

lemma delta_share_is_percentage_witness:
  "\<exists>os s line. run stats_step (stats_new ''target'' 0) demo_ops = Inr (os, s) \<and>
     stats_window_line s = Inr line \<and>
     (case ln_delta_pct line of None \<Rightarrow> delta_updates s = 0 | Some pct \<Rightarrow> delta_updates s \<noteq> 0 \<and> pct \<le> 100)"
proof -
  obtain os s where r: "run stats_step (stats_new ''target'' 0) demo_ops = Inr (os, s)"
    using st.run_returns [of "stats_new ''target'' 0" demo_ops] by (auto simp: list_all_iff)
  have "\<forall>x\<in>set (samples demo_ops). \<not> (smp_is_full x \<and> smp_is_delta x)" "length (samples demo_ops) < 2 ^ 57"
    by (simp_all add: demo_ops_def)
  from delta_share_is_percentage [OF r this] r show ?thesis by blast
qed

end
