(* ===== verification/Source_Loop.thy ===== *)
theory Source_Loop
  imports Telemetry_Map Proto_Sender Xor_Delta Stats Machine
begin

text \<open>
  The source's send loop (\<open>source.rs\<close>): one iteration as a step on the loop's variables. What
  the iteration reads from outside is its environment: the shutdown channel, the data-ready
  event, the clock at each reading point, the live shared-memory map at each read (iRacing writes
  it concurrently, so two reads may differ), and the packet polled from the socket. The LZ4
  compressor and the socket are parameters. All buffers of \<open>MAX_TELEMETRY_SIZE\<close> bytes get their
  size from the initial state. Instants are microseconds and unbounded.
\<close>

definition HEARTBEAT_INTERVAL :: int where
  "HEARTBEAT_INTERVAL = 1000000"

definition FULL_FRAME_INTERVAL :: int where
  "FULL_FRAME_INTERVAL = 10000000"

definition I32_NONE :: i32 where
  "I32_NONE = - 1"

record source_config =
  cfg_no_delta :: bool
  cfg_keyframe_interval :: u16
  cfg_reconnect_timeout :: int
  cfg_endian :: endian
  cfg_compress :: "byte list \<Rightarrow> byte list option"

record 'w source_state =
  src_sender :: sender
  src_stats :: stats
  src_net :: 'w
  last_data :: int
  last_heartbeat :: int
  last_full_frame :: int
  src_staging :: "byte list"
  src_prev :: "byte list"
  delta_buf :: "byte list"
  got_data :: bool
  last_session_update :: i32
  pending_resync :: bool
  target_supports_delta :: bool
  tick_counter :: u32
  last_tick :: i32

text \<open>The points of an iteration where the clock, and where the live map, is read.\<close>

datatype reading =
    At_Heartbeat_Check | At_Heartbeat | At_Reconnect_Check | At_Disconnect | At_Reconnected
  | At_Session_Start | At_Data | At_Force_Check | At_Full_Frame | At_Source_Us | At_Window | At_Printed

datatype map_read = Read_Update | Read_Active | Read_End | Read_Prefix | Read_Head | Read_Var | Read_Tick

text \<open>\<open>Telemetry::open\<close>, and the wait on the shutdown channel after it found no iRacing.\<close>

datatype opened = Open_Ok | Open_Unavailable | Open_Other
datatype waited = Wait_Received | Wait_Disconnected | Wait_Timeout
datatype open_result = Connected | Retry | Shutdown

record source_env =
  ev_shutdown :: bool
  ev_ready :: bool
  ev_clock :: "reading \<Rightarrow> int"
  ev_map :: "map_read \<Rightarrow> byte list"
  ev_cap :: "byte list option"
  ev_opens :: "(opened \<times> waited) list"

text \<open>How an iteration ends: with the loop's next one (reporting the window's snapshot if the
  callback fires), in the wait for iRacing, or with a return (having zeroed iRacing's map or not).\<close>

datatype source_exit =
    Next "(u64 \<times> u64 \<times> u64) option"
  | Waiting
  | Return_Ok bool
  | Return_Err

definition source_start :: "nat \<Rightarrow> nat \<Rightarrow> (reading \<Rightarrow> int) \<Rightarrow> 'w \<Rightarrow> 'w source_state" where
  "source_start cap datagram_size clock net =
     \<lparr>src_sender = with_datagram_size (max 64 (min 65507 datagram_size)),
      src_stats = stats_new ''source'' (clock At_Reconnected), src_net = net,
      last_data = clock At_Data, last_heartbeat = clock At_Heartbeat, last_full_frame = clock At_Full_Frame,
      src_staging = replicate cap 0, src_prev = replicate cap 0, delta_buf = replicate cap 0,
      got_data = False, last_session_update = I32_NONE, pending_resync = False,
      target_supports_delta = False, tick_counter = 0, last_tick = I32_NONE\<rparr>"

section \<open>Connecting\<close>

definition try_open :: "opened \<Rightarrow> waited \<Rightarrow> io_error + open_result" where
  "try_open opn wait = (case opn of
      Open_Ok \<Rightarrow> Inr Connected
    | Open_Other \<Rightarrow> Inl OtherError
    | Open_Unavailable \<Rightarrow> (case wait of
          Wait_Received \<Rightarrow> Inr Shutdown
        | Wait_Disconnected \<Rightarrow> Inr Shutdown
        | Wait_Timeout \<Rightarrow> Inr Retry))"

text \<open>The \<open>loop { match try_open(..)? .. }\<close>; \<open>None\<close> when the attempts so far all said \<open>Retry\<close>.\<close>

fun open_loop :: "(opened \<times> waited) list \<Rightarrow> (io_error + open_result) option" where
  "open_loop [] = None"
| "open_loop ((opn, wait) # rest) = (case try_open opn wait of
      Inl e \<Rightarrow> Some (Inl e)
    | Inr Connected \<Rightarrow> Some (Inr Connected)
    | Inr Shutdown \<Rightarrow> Some (Inr Shutdown)
    | Inr Retry \<Rightarrow> open_loop rest)"

section \<open>Packets from the target\<close>

definition cap_buf :: "byte list \<Rightarrow> byte list" where
  "cap_buf packet = blit 0 (take 2 packet) [0, 0]"

definition poll_target :: "source_config \<Rightarrow> byte list option \<Rightarrow> 'w source_state \<Rightarrow> 'w source_state" where
  "poll_target cfg cap s = (case cap of
      None \<Rightarrow> s
    | Some packet \<Rightarrow>
        let s1 = s\<lparr>pending_resync := True\<rparr>
        in if cfg_no_delta cfg then s1
           else s1\<lparr>target_supports_delta := (cap_buf packet ! 1 AND 1 \<noteq> 0)\<rparr>)"

section \<open>An iteration without data\<close>

definition beat ::
  "'w send_fn \<Rightarrow> (reading \<Rightarrow> int) \<Rightarrow> 'w source_state \<Rightarrow> 'w source_state rust" where
  "beat f clock s =
     (if HEARTBEAT_INTERVAL \<le> elapsed (clock At_Heartbeat_Check) (last_heartbeat s)
      then rbind (send_heartbeat f (src_sender s) (src_net s)) (\<lambda>(_, snd', net').
           Inr (s\<lparr>src_sender := snd', src_net := net', last_heartbeat := clock At_Heartbeat\<rparr>))
      else Inr s)"

definition disconnect :: "(reading \<Rightarrow> int) \<Rightarrow> 'w source_state \<Rightarrow> 'w source_state" where
  "disconnect clock s =
     s\<lparr>got_data := False, last_session_update := I32_NONE,
       last_full_frame := clock At_Disconnect - FULL_FRAME_INTERVAL, tick_counter := 0, last_tick := I32_NONE\<rparr>"

definition idle_step ::
  "source_config \<Rightarrow> 'w send_fn \<Rightarrow> 'w source_state \<Rightarrow> source_env \<Rightarrow> (source_exit \<times> 'w source_state) rust" where
  "idle_step cfg f s ev =
     rbind (beat f (ev_clock ev) (poll_target cfg (ev_cap ev) s)) (\<lambda>s1.
     if cfg_reconnect_timeout cfg \<le> elapsed (ev_clock ev At_Reconnect_Check) (last_data s1) then
       let s2 = disconnect (ev_clock ev) s1
       in case open_loop (ev_opens ev) of
            None \<Rightarrow> Inr (Waiting, s2)
          | Some (Inl _) \<Rightarrow> Inr (Return_Err, s2)
          | Some (Inr Connected) \<Rightarrow>
              Inr (Next None, s2\<lparr>last_data := ev_clock ev At_Reconnected,
                src_stats := stats_new ''source'' (ev_clock ev At_Reconnected)\<rparr>)
          | Some (Inr _) \<Rightarrow> Inr (Return_Ok False, s2)
     else Inr (Next None, s1))"

section \<open>Choosing the frame\<close>

text \<open>\<open>(buf_offset, start of the payload slice, its end, tick_before, tick_field_off)\<close>\<close>

type_synonym choice = "u32 \<times> nat \<times> nat \<times> i32 \<times> nat"

definition session_update_at :: "byte list \<Rightarrow> i32" where
  "session_update_at d = (if 16 \<le> length d then i32_at d 12 else 0)"

definition choose_frame ::
  "source_env \<Rightarrow> 'w source_state \<Rightarrow> (choice \<times> 'w source_state) rust" where
  "choose_frame ev s =
     (let force_full = FULL_FRAME_INTERVAL \<le> elapsed (ev_clock ev At_Force_Check) (last_full_frame s)
            \<or> pending_resync s;
          session_update = session_update_at (ev_map ev Read_Update);
          full = (U32_MAX, 0, length (ev_map ev Read_Update), 0, 0);
          s_full = s\<lparr>last_full_frame := ev_clock ev At_Full_Frame, pending_resync := False\<rparr>
      in if session_update \<noteq> last_session_update s \<or> force_full
         then Inr (full, s_full\<lparr>last_session_update := session_update\<rparr>)
         else
           rbind (active_var_buf (ev_map ev Read_Active)) (\<lambda>active.
           case active of
             Some (off, len, tick, tick_off) \<Rightarrow> Inr ((of_nat off, off, uadd off len, tick, tick_off), s)
           | None \<Rightarrow> Inr (full, s_full)))"

section \<open>Building the payload\<close>

text \<open>Session-info frame: the static prefix with the status field zeroed.\<close>

definition session_payload ::
  "source_env \<Rightarrow> 'w source_state \<Rightarrow> (byte list \<times> 'w source_state) rust" where
  "session_payload ev s =
     rbind (session_info_end (ev_map ev Read_End)) (\<lambda>prefix_end.
     rbind (slice 0 prefix_end (ev_map ev Read_Prefix)) (\<lambda>prefix.
     rbind (store 0 prefix (src_staging s)) (\<lambda>st1.
     rbind (store 4 [0, 0, 0, 0] st1) (\<lambda>st2.
     rbind (slice 0 prefix_end st2) (\<lambda>payload.
     Inr (payload, s\<lparr>src_staging := st2, tick_counter := 0, last_tick := I32_NONE\<rparr>))))))"

definition use_delta :: "source_config \<Rightarrow> 'w source_state \<Rightarrow> bool" where
  "use_delta cfg s \<longleftrightarrow> \<not> cfg_no_delta cfg \<and> target_supports_delta s \<and> 0 < unat (cfg_keyframe_interval cfg)
     \<and> unat (tick_counter s) mod unat (cfg_keyframe_interval cfg) \<noteq> 0"

text \<open>Delta or keyframe: the payload for a frame staged in \<open>[..full_len]\<close>.\<close>

definition encode_frame ::
  "source_config \<Rightarrow> nat \<Rightarrow> 'w source_state \<Rightarrow> (byte list \<times> bool \<times> 'w source_state) rust" where
  "encode_frame cfg full_len s =
     rbind (slice 0 full_len (src_staging s)) (\<lambda>cur.
     if use_delta cfg s then
       rbind (slice 0 full_len (src_prev s)) (\<lambda>prev.
       rbind (slice 0 full_len (delta_buf s)) (\<lambda>out.
       rbind (xor_delta (cfg_endian cfg) cur prev out) (\<lambda>delta.
       rbind (store 0 delta (delta_buf s)) (\<lambda>db.
       rbind (store 0 cur (src_prev s)) (\<lambda>pv.
       Inr (delta, True, s\<lparr>delta_buf := db, src_prev := pv, tick_counter := tick_counter s + 1\<rparr>))))))
     else
       rbind (store 0 cur (src_prev s)) (\<lambda>pv.
       Inr (cur, False, s\<lparr>src_prev := pv, tick_counter := tick_counter s + 1\<rparr>)))"

text \<open>Partial frame: \<open>None\<close> where the code skips the iteration.\<close>

definition partial_payload ::
  "source_config \<Rightarrow> source_env \<Rightarrow> choice \<Rightarrow> 'w source_state \<Rightarrow>
   ((byte list \<times> bool) option \<times> 'w source_state) rust" where
  "partial_payload cfg ev c s =
     (case c of (_, a, b, tick_before, tick_off) \<Rightarrow>
      rbind (slice a b (ev_map ev Read_Var)) (\<lambda>var_slice.
      let full_len = IRSDK_HEADER_SIZE + length var_slice in
      if length (src_staging s) < full_len then Inr (None, s)
      else
        rbind (slice 0 IRSDK_HEADER_SIZE (ev_map ev Read_Head)) (\<lambda>head.
        rbind (store 0 head (src_staging s)) (\<lambda>st1.
        rbind (store IRSDK_HEADER_SIZE var_slice st1) (\<lambda>st2.
        let s1 = s\<lparr>src_staging := st2\<rparr>;
            live = ev_map ev Read_Tick;
            tick_after = (if tick_off + 4 \<le> length live then i32_at live tick_off else tick_before)
        in if tick_after \<noteq> tick_before then
             Inr (None, s1\<lparr>src_stats := record_dropped 1 (src_stats s1)\<rparr>)
           else if tick_before = last_tick s1 then Inr (None, s1)
           else
             rbind (encode_frame cfg full_len (s1\<lparr>last_tick := tick_before\<rparr>)) (\<lambda>(payload, is_delta, s2).
             Inr (Some (payload, is_delta), s2)))))))"

definition build_payload ::
  "source_config \<Rightarrow> source_env \<Rightarrow> choice \<Rightarrow> 'w source_state \<Rightarrow>
   ((byte list \<times> bool \<times> u32) option \<times> 'w source_state) rust" where
  "build_payload cfg ev c s =
     (if fst c = U32_MAX then
        rbind (session_payload ev s) (\<lambda>(payload, s1). Inr (Some (payload, False, U32_MAX), s1))
      else
        rbind (partial_payload cfg ev c s) (\<lambda>(built, s1).
        case built of
          None \<Rightarrow> Inr (None, s1)
        | Some (payload, is_delta) \<Rightarrow>
            Inr (Some (payload, is_delta, if is_delta then fst c OR DELTA_BIT else fst c), s1)))"

section \<open>Sending it\<close>

definition note_send :: "io_error + u16 \<Rightarrow> sample \<Rightarrow> 'w source_state \<Rightarrow> 'w source_state" where
  "note_send res x s = (case res of
      Inr _ \<Rightarrow> s\<lparr>src_stats := record_frame x (src_stats s)\<rparr>
    | Inl WouldBlock \<Rightarrow> s\<lparr>src_stats := record_dropped 1 (src_stats s)\<rparr>
    | Inl _ \<Rightarrow> s)"

definition transmit ::
  "source_config \<Rightarrow> 'w send_fn \<Rightarrow> source_env \<Rightarrow> u32 \<Rightarrow> byte list \<times> bool \<times> u32 \<Rightarrow>
   'w source_state \<Rightarrow> (source_exit \<times> 'w source_state) rust" where
  "transmit cfg f ev buf_offset p s =
     (case p of (payload, is_delta, wire_buf_offset) \<Rightarrow>
      case cfg_compress cfg payload of
        None \<Rightarrow> Inr (Next None, s)
      | Some compressed \<Rightarrow>
          let source_us = of_int (elapsed (ev_clock ev At_Source_Us) (last_data s)) in
          rbind (send f (src_sender s) (src_net s) compressed source_us wire_buf_offset) (\<lambda>(res, snd', net').
          let x = \<lparr>smp_compressed = length compressed, smp_uncompressed = length payload,
                    smp_source_us = source_us, smp_transit_us = 0,
                    smp_is_full = (buf_offset = U32_MAX), smp_is_delta = is_delta\<rparr>;
              s1 = note_send res x (s\<lparr>src_sender := snd', src_net := net'\<rparr>);
              s2 = poll_target cfg (ev_cap ev) (s1\<lparr>last_heartbeat := last_data s1\<rparr>)
          in rbind (maybe_print (ev_clock ev At_Window) (ev_clock ev At_Printed) (src_stats s2)) (\<lambda>(line, st').
             Inr (Next (case line of None \<Rightarrow> None | Some _ \<Rightarrow> Some (lifetime_snapshot st')),
                  s2\<lparr>src_stats := st'\<rparr>))))"

definition see_data :: "(reading \<Rightarrow> int) \<Rightarrow> 'w source_state \<Rightarrow> 'w source_state" where
  "see_data clock s =
     (let s1 = (if got_data s then s
                else s\<lparr>got_data := True, last_full_frame := clock At_Session_Start - FULL_FRAME_INTERVAL\<rparr>)
      in s1\<lparr>last_data := clock At_Data\<rparr>)"

definition data_step ::
  "source_config \<Rightarrow> 'w send_fn \<Rightarrow> 'w source_state \<Rightarrow> source_env \<Rightarrow> (source_exit \<times> 'w source_state) rust" where
  "data_step cfg f s ev =
     rbind (choose_frame ev (see_data (ev_clock ev) s)) (\<lambda>(c, s1).
     rbind (build_payload cfg ev c s1) (\<lambda>(built, s2).
     case built of
       None \<Rightarrow> Inr (Next None, s2)
     | Some p \<Rightarrow> transmit cfg f ev (fst c) p s2))"

section \<open>One iteration of the loop\<close>

definition source_step ::
  "source_config \<Rightarrow> 'w send_fn \<Rightarrow> 'w source_state \<Rightarrow> source_env \<Rightarrow> (source_exit \<times> 'w source_state) rust" where
  "source_step cfg f s ev =
     (if ev_shutdown ev then Inr (Return_Ok True, s)
      else if \<not> ev_ready ev then idle_step cfg f s ev
      else data_step cfg f s ev)"

text \<open>The loop ends at the first return; an unfinished wait for iRacing ends the list of
  iterations too.\<close>

fun loop_ends :: "source_exit \<Rightarrow> bool" where
  "loop_ends (Next _) = False"
| "loop_ends _ = True"

definition source_run ::
  "source_config \<Rightarrow> 'w send_fn \<Rightarrow> 'w source_state \<Rightarrow> source_env list \<Rightarrow>
   (source_exit list \<times> 'w source_state) rust" where
  "source_run cfg f = run_until loop_ends (source_step cfg f)"

end
