(* ===== verification/Source_Step.thy ===== *)
theory Source_Step
  imports Source_Loop
begin

text \<open>
  The operations of the source's loop without their panics: what each computes on buffers of
  the right size, the loop invariant, and the frame conditions the properties need.
\<close>

section \<open>Invariant\<close>

definition wf_source :: "nat \<Rightarrow> 'w source_state \<Rightarrow> bool" where
  "wf_source cap s \<longleftrightarrow> wf_sender (src_sender s) \<and> length (src_staging s) = cap \<and>
     length (src_prev s) = cap \<and> length (delta_buf s) = cap"

lemma wf_source_start [simp]: "wf_source cap (source_start cap n clock net)"
  by (simp add: wf_source_def source_start_def)

lemma send_returns [panic_free]:
  assumes "wf_sender s"
  shows "\<exists>r s' w'. send f s w data us off = Inr (r, s', w') \<and> wf_sender s'"
  by (rule send_cases [OF assms, of f w data us off]) (auto split: prod.splits)

section \<open>Packets and heartbeats\<close>

text \<open>The variables neither of them touches.\<close>

definition frame_vars :: "'w source_state \<Rightarrow> byte list \<times> byte list \<times> byte list \<times> u32 \<times> i32 \<times> i32 \<times> int \<times> int \<times> bool" where
  "frame_vars s = (src_staging s, src_prev s, delta_buf s, tick_counter s, last_tick s,
     last_session_update s, last_full_frame s, last_data s, got_data s)"

lemma poll_target_frame [simp]:
  "frame_vars (poll_target cfg cap s) = frame_vars s"
  "src_net (poll_target cfg cap s) = src_net s"
  "src_sender (poll_target cfg cap s) = src_sender s"
  "src_stats (poll_target cfg cap s) = src_stats s"
  "last_heartbeat (poll_target cfg cap s) = last_heartbeat s"
  "last_data (poll_target cfg cap s) = last_data s"
  "tick_counter (poll_target cfg cap s) = tick_counter s"
  "wf_source n (poll_target cfg cap s) = wf_source n s"
  by (simp_all add: poll_target_def frame_vars_def wf_source_def Let_def split: option.split)

lemma beat_eq:
  assumes "wf_source cap s"
  shows "\<exists>snd' net' hb. beat f clock s = Inr (s\<lparr>src_sender := snd', src_net := net', last_heartbeat := hb\<rparr>) \<and>
    wf_sender snd'"
proof (cases "HEARTBEAT_INTERVAL \<le> elapsed (clock At_Heartbeat_Check) (last_heartbeat s)")
  case True
  obtain r snd' net' where "send_heartbeat f (src_sender s) (src_net s) = Inr (r, snd', net')" "wf_sender snd'"
    using send_heartbeat_wf [of "src_sender s" f "src_net s"] assms by (auto simp: wf_source_def)
  then show ?thesis using True by (auto simp: beat_def)
next
  case False
  have "s = s\<lparr>src_sender := src_sender s, src_net := src_net s, last_heartbeat := last_heartbeat s\<rparr>" by simp
  then show ?thesis using False assms unfolding beat_def wf_source_def by metis
qed

lemma idle_step_returns:
  assumes "wf_source cap s"
  shows "\<exists>e s'. idle_step cfg f s ev = Inr (e, s') \<and> wf_source cap s' \<and>
    src_prev s' = src_prev s \<and> (tick_counter s' = tick_counter s \<or> tick_counter s' = 0)"
proof -
  let ?s0 = "poll_target cfg (ev_cap ev) s"
  have "wf_source cap ?s0" using assms by simp
  from beat_eq [OF this, of f "ev_clock ev"] obtain snd' net' hb where
    b: "beat f (ev_clock ev) ?s0 = Inr (?s0\<lparr>src_sender := snd', src_net := net', last_heartbeat := hb\<rparr>)"
    "wf_sender snd'" by blast
  have "src_prev ?s0 = src_prev s" using poll_target_frame(1) [of cfg "ev_cap ev" s]
    by (simp add: frame_vars_def)
  then show ?thesis using b \<open>wf_source cap ?s0\<close>
    by (auto simp: idle_step_def disconnect_def Let_def wf_source_def
        split: option.split sum.split open_result.split)
qed

section \<open>Choosing and building\<close>

lemma choose_frame_cases:
  assumes "choose_frame ev s = Inr (c, s')"
  obtains (full) u where "c = (U32_MAX, 0, length (ev_map ev Read_Update), 0, 0)"
      "s' = s\<lparr>last_full_frame := ev_clock ev At_Full_Frame, pending_resync := False, last_session_update := u\<rparr>"
  | (active) off len tick tick_off where
      "active_var_buf (ev_map ev Read_Active) = Inr (Some (off, len, tick, tick_off))"
      "c = (of_nat off, off, uadd off len, tick, tick_off)" "s' = s"
proof (cases "session_update_at (ev_map ev Read_Update) \<noteq> last_session_update s \<or>
    FULL_FRAME_INTERVAL \<le> elapsed (ev_clock ev At_Force_Check) (last_full_frame s) \<or> pending_resync s")
  case True
  with assms show ?thesis by (intro full) (auto simp: choose_frame_def Let_def)
next
  case False
  then have e: "choose_frame ev s = rbind (active_var_buf (ev_map ev Read_Active)) (\<lambda>active.
      case active of
        Some (off, len, tick, tick_off) \<Rightarrow> Inr ((of_nat off, off, uadd off len, tick, tick_off), s)
      | None \<Rightarrow> Inr ((U32_MAX, 0, length (ev_map ev Read_Update), 0, 0),
          s\<lparr>last_full_frame := ev_clock ev At_Full_Frame, pending_resync := False\<rparr>))"
    by (simp add: choose_frame_def Let_def)
  from assms obtain a where a: "active_var_buf (ev_map ev Read_Active) = Inr a"
    unfolding e by (auto simp: rbind_eq_Inr)
  show ?thesis
  proof (cases a)
    case None
    with a assms show ?thesis
      unfolding e by (intro full [of "last_session_update s"]) auto
  next
    case (Some q)
    then obtain off len tick tick_off where "a = Some (off, len, tick, tick_off)" by (cases q) auto
    with a assms show ?thesis unfolding e by (intro active [of off len tick tick_off]) auto
  qed
qed

lemma choose_frame_returns [panic_free]: "returns (choose_frame ev s)"
  using active_var_buf_returns [of "ev_map ev Read_Active"]
  by (auto simp: choose_frame_def Let_def split: option.split)

text \<open>The bytes of a session-info frame and of a partial frame.\<close>

definition session_bytes :: "nat \<Rightarrow> byte list \<Rightarrow> byte list" where
  "session_bytes e d = map (\<lambda>i. if 4 \<le> i \<and> i < 8 then 0 else d ! i) [0..<e]"

definition partial_bytes :: "source_env \<Rightarrow> nat \<Rightarrow> nat \<Rightarrow> byte list" where
  "partial_bytes ev a b = take IRSDK_HEADER_SIZE (ev_map ev Read_Head) @ take (b - a) (drop a (ev_map ev Read_Var))"

lemma session_payload_eq:
  assumes "wf_source cap s" "8 \<le> cap"
    and "session_info_end (ev_map ev Read_End) = Inr e" "e \<le> length (ev_map ev Read_Prefix)" "e \<le> cap"
  shows "\<exists>st. session_payload ev s = Inr (session_bytes e (ev_map ev Read_Prefix),
      s\<lparr>src_staging := st, tick_counter := 0, last_tick := I32_NONE\<rparr>) \<and> length st = cap"
proof -
  let ?d = "ev_map ev Read_Prefix"
  let ?st1 = "blit 0 (take e ?d) (src_staging s)"
  let ?st2 = "blit 4 [0, 0, 0, 0] ?st1"
  have l: "length (src_staging s) = cap" using assms(1) by (simp add: wf_source_def)
  then have l1: "length ?st1 = cap" using assms(4,5) by simp
  then have l2: "length ?st2 = cap" using assms(2) by simp
  have "take e ?st2 = session_bytes e ?d"
  proof (rule nth_equalityI)
    fix i assume "i < length (take e ?st2)"
    then have i: "i < e" "i < cap" using l2 by auto
    have z: "[0, 0, 0, 0] ! (i - 4) = (0 :: byte)" if "4 \<le> i" "i < 8"
    proof -
      have "i = 4 \<or> i = 5 \<or> i = 6 \<or> i = 7" using that by linarith
      then show ?thesis by auto
    qed
    show "take e ?st2 ! i = session_bytes e ?d ! i"
      using i z assms(2,4,5) l l1 by (simp add: session_bytes_def nth_blit)
  qed (use l2 assms(5) in \<open>simp add: session_bytes_def\<close>)
  then show ?thesis
    using assms(2-5) l l1 l2
    by (intro exI [of _ ?st2]) (simp add: session_payload_def slice_ok store_ok)
qed

lemma encode_frame_eq:
  assumes "wf_source cap s" "n \<le> cap"
  shows "\<exists>db. encode_frame cfg n s =
    (let cur = take n (src_staging s) in
     Inr (if use_delta cfg s then xor_bytes cur (take n (src_prev s)) else cur, use_delta cfg s,
       s\<lparr>delta_buf := db, src_prev := blit 0 cur (src_prev s), tick_counter := tick_counter s + 1\<rparr>)) \<and>
     length db = cap"
proof (cases "use_delta cfg s")
  case True
  then show ?thesis using assms
    by (intro exI [of _ "blit 0 (xor_bytes (take n (src_staging s)) (take n (src_prev s))) (delta_buf s)"])
      (simp add: encode_frame_def wf_source_def slice_ok store_ok xor_delta_exact Let_def)
next
  case False
  then show ?thesis using assms
    by (intro exI [of _ "delta_buf s"])
      (simp add: encode_frame_def wf_source_def slice_ok store_ok Let_def)
qed

text \<open>The re-read of the selected slot's tick.\<close>

definition tick_reread :: "source_env \<Rightarrow> nat \<Rightarrow> i32 \<Rightarrow> i32" where
  "tick_reread ev tick_off tick_before =
     (if tick_off + 4 \<le> length (ev_map ev Read_Tick) then i32_at (ev_map ev Read_Tick) tick_off
      else tick_before)"

definition frame_fits :: "source_env \<Rightarrow> nat \<Rightarrow> nat \<Rightarrow> bool" where
  "frame_fits ev a b \<longleftrightarrow> a \<le> b \<and> b \<le> length (ev_map ev Read_Var) \<and>
     IRSDK_HEADER_SIZE \<le> length (ev_map ev Read_Head)"

lemma frame_parts:
  assumes "frame_fits ev a b"
  shows "length (take (b - a) (drop a (ev_map ev Read_Var))) = b - a"
    "length (take IRSDK_HEADER_SIZE (ev_map ev Read_Head)) = IRSDK_HEADER_SIZE"
    "slice a b (ev_map ev Read_Var) = Inr (take (b - a) (drop a (ev_map ev Read_Var)))"
    "slice 0 IRSDK_HEADER_SIZE (ev_map ev Read_Head) = Inr (take IRSDK_HEADER_SIZE (ev_map ev Read_Head))"
  using assms diff_le_mono [of b "length (ev_map ev Read_Var)" a]
  by (simp_all add: frame_fits_def slice_ok min_absorb2)

lemma length_partial_bytes:
  "frame_fits ev a b \<Longrightarrow> length (partial_bytes ev a b) = IRSDK_HEADER_SIZE + (b - a)"
  unfolding partial_bytes_def length_append by (simp only: frame_parts)

lemma take_blit_frame:
  assumes "length h + length v \<le> length st"
  shows "take (length h + length v) (blit (length h) v (blit 0 h st)) = h @ v"
  using assms by (simp add: blit_def)

lemma staged_frame:
  assumes "frame_fits ev a b" "length st = cap" "IRSDK_HEADER_SIZE + (b - a) \<le> cap"
  shows "take (IRSDK_HEADER_SIZE + (b - a))
      (blit IRSDK_HEADER_SIZE (take (b - a) (drop a (ev_map ev Read_Var)))
        (blit 0 (take IRSDK_HEADER_SIZE (ev_map ev Read_Head)) st)) = partial_bytes ev a b"
  using take_blit_frame [of "take IRSDK_HEADER_SIZE (ev_map ev Read_Head)" "take (b - a) (drop a (ev_map ev Read_Var))" st]
    frame_parts(1,2) [OF assms(1)] assms(2,3)
  by (simp only: partial_bytes_def)

lemma partial_payload_eq:
  assumes "wf_source cap s" "frame_fits ev a b"
  shows "partial_payload cfg ev (bo, a, b, tick, tick_off) s =
    (let n = IRSDK_HEADER_SIZE + (b - a);
         st = blit IRSDK_HEADER_SIZE (take (b - a) (drop a (ev_map ev Read_Var)))
                (blit 0 (take IRSDK_HEADER_SIZE (ev_map ev Read_Head)) (src_staging s));
         s1 = s\<lparr>src_staging := st\<rparr>
     in if cap < n then Inr (None, s)
        else if tick_reread ev tick_off tick \<noteq> tick
             then Inr (None, s1\<lparr>src_stats := record_dropped 1 (src_stats s)\<rparr>)
        else if tick = last_tick s then Inr (None, s1)
        else rbind (encode_frame cfg n (s1\<lparr>last_tick := tick\<rparr>))
               (\<lambda>(payload, is_delta, s2). Inr (Some (payload, is_delta), s2)))"
proof -
  let ?v = "take (b - a) (drop a (ev_map ev Read_Var))" and ?h = "take IRSDK_HEADER_SIZE (ev_map ev Read_Head)"
  note fp = frame_parts [OF assms(2)]
  have l: "length (src_staging s) = cap" using assms(1) by (simp add: wf_source_def)
  show ?thesis
  proof (cases "cap < IRSDK_HEADER_SIZE + (b - a)")
    case True
    then show ?thesis
      unfolding partial_payload_def prod.case fp(3) rbind_simps fp(1) Let_def l by simp
  next
    case False
    then have s1: "store 0 ?h (src_staging s) = Inr (blit 0 ?h (src_staging s))"
      using fp(2) l by (intro store_ok) simp
    have "length (blit 0 ?h (src_staging s)) = cap" using fp(2) l False by (subst length_blit) simp_all
    then have s2: "store IRSDK_HEADER_SIZE ?v (blit 0 ?h (src_staging s)) =
        Inr (blit IRSDK_HEADER_SIZE ?v (blit 0 ?h (src_staging s)))"
      using fp(1) False by (intro store_ok) simp
    show ?thesis using False
      unfolding partial_payload_def prod.case fp(3,4) rbind_simps fp(1) Let_def l s1 s2
      by (simp add: tick_reread_def)
  qed
qed

lemma partial_payload_cases:
  assumes "wf_source cap s" "frame_fits ev a b"
  obtains
    (too_large) "cap < IRSDK_HEADER_SIZE + (b - a)"
      "partial_payload cfg ev (bo, a, b, tick, tick_off) s = Inr (None, s)"
  | (torn) st where "IRSDK_HEADER_SIZE + (b - a) \<le> cap" "tick_reread ev tick_off tick \<noteq> tick" "length st = cap"
      "partial_payload cfg ev (bo, a, b, tick, tick_off) s =
        Inr (None, s\<lparr>src_staging := st, src_stats := record_dropped 1 (src_stats s)\<rparr>)"
  | (duplicate) st where "IRSDK_HEADER_SIZE + (b - a) \<le> cap" "tick_reread ev tick_off tick = tick"
      "tick = last_tick s" "length st = cap"
      "partial_payload cfg ev (bo, a, b, tick, tick_off) s = Inr (None, s\<lparr>src_staging := st\<rparr>)"
  | (sent) st db where "IRSDK_HEADER_SIZE + (b - a) \<le> cap" "tick_reread ev tick_off tick = tick"
      "tick \<noteq> last_tick s" "length st = cap" "length db = cap"
      "partial_payload cfg ev (bo, a, b, tick, tick_off) s =
        (let cur = partial_bytes ev a b in
         Inr (Some (if use_delta cfg s then xor_bytes cur (take (length cur) (src_prev s)) else cur,
             use_delta cfg s),
           s\<lparr>src_staging := st, delta_buf := db, src_prev := blit 0 cur (src_prev s),
             tick_counter := tick_counter s + 1, last_tick := tick\<rparr>))"
proof -
  let ?n = "IRSDK_HEADER_SIZE + (b - a)"
  let ?st = "blit IRSDK_HEADER_SIZE (take (b - a) (drop a (ev_map ev Read_Var)))
                (blit 0 (take IRSDK_HEADER_SIZE (ev_map ev Read_Head)) (src_staging s))"
  note e = partial_payload_eq [OF assms, of cfg bo tick tick_off, unfolded Let_def]
  show ?thesis
  proof (cases "cap < ?n")
    case True
    then show ?thesis using e by (intro too_large) simp_all
  next
    case False
    have l: "length (src_staging s) = cap" using assms(1) by (simp add: wf_source_def)
    have "length (blit 0 (take IRSDK_HEADER_SIZE (ev_map ev Read_Head)) (src_staging s)) = cap"
      using frame_parts(2) [OF assms(2)] l False by (subst length_blit) simp_all
    then have st: "length ?st = cap"
      using False frame_parts(1) [OF assms(2)] by (subst length_blit) simp_all
    consider "tick_reread ev tick_off tick \<noteq> tick" | "tick_reread ev tick_off tick = tick" "tick = last_tick s"
      | "tick_reread ev tick_off tick = tick" "tick \<noteq> last_tick s" by blast
    then show ?thesis
    proof cases
      case 1
      then show ?thesis using e False st by (intro torn [of ?st]) simp_all
    next
      case 2
      then show ?thesis using e False st by (intro duplicate [of ?st]) simp_all
    next
      case 3
      let ?s2 = "s\<lparr>src_staging := ?st, last_tick := tick\<rparr>"
      have "wf_source cap ?s2" using assms(1) st by (simp add: wf_source_def)
      moreover have "use_delta cfg ?s2 = use_delta cfg s" by (simp add: use_delta_def)
      moreover have "take ?n ?st = partial_bytes ev a b"
        using staged_frame [OF assms(2) l] False by simp
      ultimately obtain db where "length db = cap" "encode_frame cfg ?n ?s2 =
          Inr (if use_delta cfg s then xor_bytes (partial_bytes ev a b) (take ?n (src_prev s))
               else partial_bytes ev a b, use_delta cfg s,
            ?s2\<lparr>delta_buf := db, src_prev := blit 0 (partial_bytes ev a b) (src_prev s),
              tick_counter := tick_counter s + 1\<rparr>)"
        using encode_frame_eq [of cap ?s2 ?n cfg] False by (auto simp: Let_def)
      then show ?thesis using e False st 3 length_partial_bytes [OF assms(2)]
        by (intro sent [of ?st db]) (simp_all add: Let_def)
    qed
  qed
qed

section \<open>Sending\<close>

lemma stats_frame [simp]:
  "wf_source cap (s\<lparr>src_stats := st\<rparr>) = wf_source cap s" "frame_vars (s\<lparr>src_stats := st\<rparr>) = frame_vars s"
  by (simp_all add: wf_source_def frame_vars_def)

lemma note_send_frame:
  "wf_source cap ((note_send res x (s\<lparr>src_sender := snd', src_net := net'\<rparr>))\<lparr>last_heartbeat := h\<rparr>) \<longleftrightarrow>
     wf_sender snd' \<and> wf_source cap (s\<lparr>src_sender := snd'\<rparr>)"
  "frame_vars ((note_send res x (s\<lparr>src_sender := snd', src_net := net'\<rparr>))\<lparr>last_heartbeat := h\<rparr>) = frame_vars s"
  by (auto simp: note_send_def wf_source_def frame_vars_def split: sum.split io_error.split)

lemma transmit_returns:
  assumes "wf_source cap s"
  shows "\<exists>r s'. transmit cfg f ev bo p s = Inr (Next r, s') \<and> wf_source cap s' \<and> frame_vars s' = frame_vars s \<and>
    (ev_cap ev = None \<longrightarrow> pending_resync s' = pending_resync s \<and> target_supports_delta s' = target_supports_delta s)"
proof -
  obtain payload d wire where p: "p = (payload, d, wire)" by (cases p)
  show ?thesis
  proof (cases "cfg_compress cfg payload")
    case None
    then show ?thesis using assms p by (simp add: transmit_def)
  next
    case (Some z)
    let ?us = "of_int (elapsed (ev_clock ev At_Source_Us) (last_data s))"
    obtain res snd' net' where snd: "send f (src_sender s) (src_net s) z ?us wire = Inr (res, snd', net')"
      "wf_sender snd'" using send_returns [of "src_sender s" f "src_net s" z ?us wire] assms
      by (auto simp: wf_source_def)
    let ?x = "\<lparr>smp_compressed = length z, smp_uncompressed = length payload, smp_source_us = ?us,
        smp_transit_us = 0, smp_is_full = (bo = U32_MAX), smp_is_delta = d\<rparr>"
    let ?s1 = "note_send res ?x (s\<lparr>src_sender := snd', src_net := net'\<rparr>)"
    let ?s2 = "poll_target cfg (ev_cap ev) (?s1\<lparr>last_heartbeat := last_data ?s1\<rparr>)"
    obtain line st' where mp:
      "maybe_print (ev_clock ev At_Window) (ev_clock ev At_Printed) (src_stats ?s2) = Inr (line, st')"
      using maybe_print_returns by fast
    then have "transmit cfg f ev bo p s = Inr (Next (case line of None \<Rightarrow> None | Some _ \<Rightarrow> Some (lifetime_snapshot st')),
        ?s2\<lparr>src_stats := st'\<rparr>)"
      using Some p snd(1) by (simp add: transmit_def Let_def)
    moreover have "wf_source cap ?s2" "frame_vars ?s2 = frame_vars s"
      using assms snd(2) by (simp_all add: note_send_frame) (simp add: wf_source_def)
    then have "wf_source cap (?s2\<lparr>src_stats := st'\<rparr>)" "frame_vars (?s2\<lparr>src_stats := st'\<rparr>) = frame_vars s"
      by (simp_all only: stats_frame)
    moreover have "ev_cap ev = None \<longrightarrow> pending_resync (?s2\<lparr>src_stats := st'\<rparr>) = pending_resync s \<and>
        target_supports_delta (?s2\<lparr>src_stats := st'\<rparr>) = target_supports_delta s"
      by (auto simp: note_send_def poll_target_def split: sum.split io_error.split)
    ultimately show ?thesis
      by (intro exI [of _ "case line of None \<Rightarrow> None | Some _ \<Rightarrow> Some (lifetime_snapshot st')"]
          exI [of _ "?s2\<lparr>src_stats := st'\<rparr>"] conjI)
  qed
qed

section \<open>A whole iteration\<close>

text \<open>The map does not change size while it is open and fits the buffers, and the header iRacing
  writes has no negative buffer offset.\<close>

definition source_env_ok :: "nat \<Rightarrow> source_env \<Rightarrow> bool" where
  "source_env_ok cap ev \<longleftrightarrow> (\<forall>r. length (ev_map ev r) = length (ev_map ev Read_Active)) \<and>
     length (ev_map ev Read_Active) \<le> cap \<and> offsets_nonneg (ev_map ev Read_Active)"

lemma source_env_ok_length: "source_env_ok cap ev \<Longrightarrow> length (ev_map ev r) = length (ev_map ev r')"
  unfolding source_env_ok_def by metis

lemma source_env_ok_le: "source_env_ok cap ev \<Longrightarrow> length (ev_map ev r) \<le> cap"
  unfolding source_env_ok_def by metis

lemma see_data_frame [simp]:
  "wf_source cap (see_data clock s) = wf_source cap s"
  "src_net (see_data clock s) = src_net s" "src_sender (see_data clock s) = src_sender s"
  "src_prev (see_data clock s) = src_prev s" "tick_counter (see_data clock s) = tick_counter s"
  "last_tick (see_data clock s) = last_tick s" "src_stats (see_data clock s) = src_stats s"
  "target_supports_delta (see_data clock s) = target_supports_delta s"
  "last_heartbeat (see_data clock s) = last_heartbeat s"
  "pending_resync (see_data clock s) = pending_resync s" "src_staging (see_data clock s) = src_staging s"
  by (simp_all add: see_data_def wf_source_def Let_def)

lemma active_choice_fits:
  assumes "source_env_ok cap ev" "cap < 2 ^ 63"
    and "active_var_buf (ev_map ev Read_Active) = Inr (Some (off, len, tick, tick_off))"
  shows "frame_fits ev off (uadd off len)" "uadd off len = off + len" "off + len \<le> cap" "112 \<le> cap"
    "tick_off + 4 \<le> length (ev_map ev Read_Tick)"
proof -
  let ?d = "ev_map ev Read_Active"
  have b: "off + len \<le> length ?d" "uadd off len = off + len"
    using active_var_buf_in_bounds [OF assms(3)] assms(1,2) by (simp_all add: source_env_ok_def)
  show "uadd off len = off + len" by (rule b(2))
  have l: "112 \<le> length ?d" "length ?d \<le> cap"
    using active_var_buf_SomeD(1) [OF assms(3)] assms(1) by (simp_all add: source_env_ok_def)
  then show "off + len \<le> cap" "112 \<le> cap" using b by simp_all
  show "frame_fits ev off (uadd off len)"
    unfolding frame_fits_def b(2)
    using b(1) l source_env_ok_length [OF assms(1), of Read_Var Read_Active]
      source_env_ok_length [OF assms(1), of Read_Head Read_Active]
    by (simp add: IRSDK_HEADER_SIZE_def)
  show "tick_off + 4 \<le> length (ev_map ev Read_Tick)"
    using active_var_buf_SomeD(5) [OF assms(3)] l source_env_ok_length [OF assms(1), of Read_Tick Read_Active] by simp
qed

lemma session_payload_returns:
  assumes "wf_source cap s" "source_env_ok cap ev" "8 \<le> cap"
  shows "\<exists>e st. session_info_end (ev_map ev Read_End) = Inr e \<and> e \<le> cap \<and> e \<le> length (ev_map ev Read_Prefix) \<and>
    session_payload ev s = Inr (session_bytes e (ev_map ev Read_Prefix),
      s\<lparr>src_staging := st, tick_counter := 0, last_tick := I32_NONE\<rparr>) \<and> length st = cap"
proof -
  obtain e where e: "session_info_end (ev_map ev Read_End) = Inr e"
    using session_info_end_returns by blast
  moreover from session_info_end_le [OF this] have "e \<le> length (ev_map ev Read_Prefix)"
    using source_env_ok_length [OF assms(2), of Read_End Read_Prefix] by simp
  moreover from this have "e \<le> cap"
    using source_env_ok_le [OF assms(2), of Read_Prefix] by simp
  ultimately show ?thesis using session_payload_eq [OF assms(1,3) e] by blast
qed

text \<open>Where the built payload comes from, for a choice made by \<open>choose_frame\<close>.\<close>

lemma build_payload_returns:
  assumes "wf_source cap s" "source_env_ok cap ev" "8 \<le> cap" "cap < 2 ^ 63"
    and "choose_frame ev s0 = Inr (c, s)"
  shows "\<exists>built s'. build_payload cfg ev c s = Inr (built, s') \<and> wf_source cap s'"
proof (cases "fst c = U32_MAX")
  case True
  with session_payload_returns [OF assms(1-3)] assms(1) show ?thesis
    by (auto simp: build_payload_def wf_source_def)
next
  case False
  from assms(5) show ?thesis
  proof (cases rule: choose_frame_cases)
    case full
    with False show ?thesis by simp
  next
    case (active off len tick tick_off)
    note fits = active_choice_fits [OF assms(2,4) active(1)]
    have pv: "length (blit 0 (partial_bytes ev off (uadd off len)) (src_prev s)) = cap"
      if "IRSDK_HEADER_SIZE + (uadd off len - off) \<le> cap"
      using length_partial_bytes [OF fits(1)] assms(1) that by (simp add: wf_source_def)
    from assms(1) fits(1) show ?thesis
      by (cases rule: partial_payload_cases [of cap s ev off "uadd off len" cfg "of_nat off" tick tick_off])
        (use False active(2) assms(1) pv in \<open>auto simp: build_payload_def wf_source_def Let_def\<close>)
  qed
qed

lemma choose_frame_wf: "choose_frame ev s = Inr (c, s') \<Longrightarrow> wf_source cap s' = wf_source cap s"
  by (erule choose_frame_cases) (simp_all add: wf_source_def)

lemma source_step_returns:
  assumes "wf_source cap s" "source_env_ok cap ev" "8 \<le> cap" "cap < 2 ^ 63"
  shows "\<exists>e s'. source_step cfg f s ev = Inr (e, s') \<and> wf_source cap s'"
proof -
  have "\<exists>e s'. data_step cfg f s ev = Inr (e, s') \<and> wf_source cap s'"
  proof -
    obtain c s1 where c: "choose_frame ev (see_data (ev_clock ev) s) = Inr (c, s1)"
      using choose_frame_returns by fast
    then have "wf_source cap s1" using choose_frame_wf assms(1) by fastforce
    from build_payload_returns [OF this assms(2-4) c] obtain built s2 where
      b: "build_payload cfg ev c s1 = Inr (built, s2)" "wf_source cap s2" by blast
    show ?thesis
    proof (cases built)
      case None
      then show ?thesis using c b by (simp add: data_step_def)
    next
      case (Some p)
      then show ?thesis using c b transmit_returns [OF b(2), of cfg f ev "fst c" p]
        by (auto simp: data_step_def)
    qed
  qed
  then show ?thesis using assms(1) idle_step_returns [OF assms(1), of cfg f ev]
    by (auto simp: source_step_def)
qed

end
