(* ===== verification/Source_Props.thy ===== *)
theory Source_Props
  imports Source_Step
begin

text \<open>
  What the source puts on the wire: the frame an iteration builds, its relation to the live map,
  the keyframe schedule, and the iterations that send nothing.
\<close>

section \<open>The frame of an iteration\<close>

text \<open>The choice, the payload (with its delta flag and wire offset) and the state after building.\<close>

definition build ::
  "source_config \<Rightarrow> 'w source_state \<Rightarrow> source_env \<Rightarrow>
   (choice \<times> (byte list \<times> bool \<times> u32) option \<times> 'w source_state) rust" where
  "build cfg s ev =
     rbind (choose_frame ev (see_data (ev_clock ev) s)) (\<lambda>(c, s1).
     rbind (build_payload cfg ev c s1) (\<lambda>(built, s2). Inr (c, built, s2)))"

lemma build_returns_wf:
  assumes "wf_source cap s" "source_env_ok cap ev" "8 \<le> cap" "cap < 2 ^ 63" "build cfg s ev = Inr (c, b, s2)"
  shows "wf_source cap s2"
proof -
  obtain c1 s1 where c: "choose_frame ev (see_data (ev_clock ev) s) = Inr (c1, s1)"
    using choose_frame_returns by fast
  then have "wf_source cap s1" using choose_frame_wf assms(1) by fastforce
  from build_payload_returns [OF this assms(2-4) c, of cfg] assms(5) c show ?thesis
    by (auto simp: build_def)
qed

lemma data_step_build:
  "data_step cfg f s ev = rbind (build cfg s ev) (\<lambda>(c, built, s2).
     case built of None \<Rightarrow> Inr (Next None, s2) | Some p \<Rightarrow> transmit cfg f ev (fst c) p s2)"
  by (auto simp: data_step_def build_def rbind_def split: sum.split prod.split)

definition built_frame :: "source_config \<Rightarrow> 'w source_state \<Rightarrow> source_env \<Rightarrow> (byte list \<times> bool \<times> u32) option" where
  "built_frame cfg s ev =
     (if ev_shutdown ev \<or> \<not> ev_ready ev then None
      else case build cfg s ev of Inr (_, built, _) \<Rightarrow> built | Inl _ \<Rightarrow> None)"

lemma build_cases:
  assumes "wf_source cap s" "source_env_ok cap ev" "8 \<le> cap" "cap < 2 ^ 63"
  obtains
    (session) c e s2 where "fst c = U32_MAX" "session_info_end (ev_map ev Read_End) = Inr e"
      "e \<le> length (ev_map ev Read_Prefix)" "e \<le> cap"
      "build cfg s ev = Inr (c, Some (session_bytes e (ev_map ev Read_Prefix), False, U32_MAX), s2)"
      "tick_counter s2 = 0" "last_tick s2 = I32_NONE" "src_prev s2 = src_prev s" "wf_source cap s2"
  | (skip) c off len tick tick_off st d where
      "active_var_buf (ev_map ev Read_Active) = Inr (Some (off, len, tick, tick_off))"
      "fst c \<noteq> U32_MAX" "length st = cap"
      "cap < IRSDK_HEADER_SIZE + len \<or> tick_reread ev tick_off tick \<noteq> tick \<or> tick = last_tick s"
      "build cfg s ev = Inr (c, None, (see_data (ev_clock ev) s)\<lparr>src_staging := st,
         src_stats := record_dropped d (src_stats s)\<rparr>)"
      "IRSDK_HEADER_SIZE + len \<le> cap \<Longrightarrow> d = (if tick_reread ev tick_off tick \<noteq> tick then 1 else 0)"
  | (partial) off len tick tick_off st db where
      "active_var_buf (ev_map ev Read_Active) = Inr (Some (off, len, tick, tick_off))"
      "(of_nat off :: u32) \<noteq> U32_MAX" "IRSDK_HEADER_SIZE + len \<le> cap" "length st = cap" "length db = cap"
      "tick_reread ev tick_off tick = tick" "tick \<noteq> last_tick s" "off + len \<le> cap"
      "length (partial_bytes ev off (off + len)) = IRSDK_HEADER_SIZE + len"
      "build cfg s ev =
        (let cur = partial_bytes ev off (off + len) in
         Inr ((of_nat off, off, off + len, tick, tick_off),
           Some (if use_delta cfg s then xor_bytes cur (take (length cur) (src_prev s)) else cur,
             use_delta cfg s, if use_delta cfg s then of_nat off OR DELTA_BIT else of_nat off),
           (see_data (ev_clock ev) s)\<lparr>src_staging := st, delta_buf := db,
             src_prev := blit 0 cur (src_prev s), tick_counter := tick_counter s + 1, last_tick := tick\<rparr>))"
proof -
  let ?s = "see_data (ev_clock ev) s"
  have wf: "wf_source cap ?s" using assms(1) by simp
  obtain c s1 where c: "choose_frame ev ?s = Inr (c, s1)" using choose_frame_returns by fast
  have wf1: "wf_source cap s1" using choose_frame_wf [OF c] wf by simp
  have pv: "src_prev s1 = src_prev s"
    using c by (rule choose_frame_cases) simp_all
  have b: "build cfg s ev = rbind (build_payload cfg ev c s1) (\<lambda>(built, s2). Inr (c, built, s2))"
    by (simp add: build_def c)
  show ?thesis
  proof (cases "fst c = U32_MAX")
    case True
    from session_payload_returns [OF wf1 assms(2,3)] obtain e st where e:
      "session_info_end (ev_map ev Read_End) = Inr e" "e \<le> cap" "e \<le> length (ev_map ev Read_Prefix)"
      "session_payload ev s1 = Inr (session_bytes e (ev_map ev Read_Prefix),
        s1\<lparr>src_staging := st, tick_counter := 0, last_tick := I32_NONE\<rparr>)" "length st = cap" by blast
    show ?thesis
      by (rule session [of c e "s1\<lparr>src_staging := st, tick_counter := 0, last_tick := I32_NONE\<rparr>"])
        (use True e b pv wf1 in \<open>simp_all add: build_payload_def wf_source_def\<close>)
  next
    case False
    from c show ?thesis
    proof (cases rule: choose_frame_cases)
      case full
      with False show ?thesis by simp
    next
      case (active off len tick tick_off)
      note fits = active_choice_fits [OF assms(2,4) active(1)]
      have s1: "s1 = ?s" and c': "c = (of_nat off, off, off + len, tick, tick_off)"
        using active fits(2) by simp_all
      have ff: "frame_fits ev off (off + len)" using fits(1,2) by simp
      have ud: "use_delta cfg ?s = use_delta cfg s" by (simp add: use_delta_def)
      have nomax: "(of_nat off :: u32) \<noteq> U32_MAX" using False c' by simp
      have st0: "length (src_staging s) = cap" using assms(1) by (simp add: wf_source_def)
      have r0: "record_dropped 0 q = q" for q by (simp add: record_dropped_def)
      from wf ff show ?thesis
      proof (cases rule: partial_payload_cases [of cap ?s ev off "off + len" cfg "of_nat off" tick tick_off])
        case too_large
        then show ?thesis
          by (intro skip [OF active(1), of c "src_staging s" 0])
            (use st0 nomax c' in \<open>simp_all add: b s1 build_payload_def r0\<close>)
      next
        case (torn st)
        then show ?thesis
          by (intro skip [OF active(1), of c st 1]) (use nomax c' in \<open>simp_all add: b s1 build_payload_def\<close>)
      next
        case (duplicate st)
        then show ?thesis
          by (intro skip [OF active(1), of c st 0]) (use nomax c' in \<open>simp_all add: b s1 build_payload_def r0\<close>)
      next
        case (sent st db)
        then show ?thesis
          by (intro partial [OF active(1) nomax, of st db])
            (use c' fits length_partial_bytes [OF ff] in \<open>simp_all add: b s1 build_payload_def Let_def ud nomax\<close>)
      qed
    qed
  qed
qed

section \<open>The loop never panics\<close>

interpretation src: safe_machine "source_step cfg f" "\<lambda>s. wf_source cap s \<and> 8 \<le> cap \<and> cap < 2 ^ 63"
  "source_env_ok cap" for cfg f cap
proof
  show "wf_source cap s' \<and> 8 \<le> cap \<and> cap < 2 ^ 63"
    if "wf_source cap s \<and> 8 \<le> cap \<and> cap < 2 ^ 63" "source_env_ok cap ev"
      "source_step cfg f s ev = Inr (out, s')" for s ev out s'
    using that source_step_returns [of cap s ev cfg f] by auto
  show "returns (source_step cfg f s ev)"
    if "wf_source cap s \<and> 8 \<le> cap \<and> cap < 2 ^ 63" "source_env_ok cap ev" for s ev
    using that source_step_returns [of cap s ev cfg f] by auto
qed

text \<open>A small environment: an iteration that finds new data in a 120-byte map.\<close>

definition demo_env :: source_env where
  "demo_env = \<lparr>ev_shutdown = False, ev_ready = True, ev_clock = (\<lambda>_. 0), ev_map = (\<lambda>_. demo_map 9 116),
     ev_cap = None, ev_opens = []\<rparr>"

definition demo_config :: source_config where
  "demo_config = \<lparr>cfg_no_delta = False, cfg_keyframe_interval = 60, cfg_reconnect_timeout = 10000000,
     cfg_endian = Little, cfg_compress = Some\<rparr>"

lemma offsets_demo: "offsets_nonneg (demo_map 9 116)"
proof -
  have "i32_at (demo_map 9 116) 84 = 0" "i32_at (demo_map 9 116) 100 = 0"
    by (simp_all add: demo_map_def i32_at_def numeral_eq_Suc)
  then show ?thesis
    using i32_at_demo [of 9 116] by (auto simp: offsets_nonneg_def less_Suc_eq numeral_eq_Suc(1) eval_nat_numeral)
qed

lemma demo_env_ok: "120 \<le> cap \<Longrightarrow> source_env_ok cap demo_env"
  using offsets_demo i32_at_demo(1) [of 9 116] by (simp add: source_env_ok_def demo_env_def)

text \<open>C15: The source loop never panics: from its start, through any sequence of iterations
  with any clock, packets and live map contents, as long as the map keeps its size, fits the
  2 MB buffers and has no negative buffer offset, every slice, copy and division is in range.\<close>

theorem source_never_panics:
  assumes "list_all (source_env_ok MAX_TELEMETRY_SIZE) evs"
  shows "\<exists>es s'. source_run cfg f (source_start MAX_TELEMETRY_SIZE n clock net) evs = Inr (es, s') \<and>
    wf_source MAX_TELEMETRY_SIZE s'"
proof -
  have "8 \<le> MAX_TELEMETRY_SIZE" "MAX_TELEMETRY_SIZE < 2 ^ 63" by (simp_all add: MAX_TELEMETRY_SIZE_def)
  then have "wf_source MAX_TELEMETRY_SIZE (source_start MAX_TELEMETRY_SIZE n clock net) \<and>
    8 \<le> MAX_TELEMETRY_SIZE \<and> MAX_TELEMETRY_SIZE < 2 ^ 63" by simp
  from src.run_until_returns [OF this assms] show ?thesis unfolding source_run_def by blast
qed

theorem source_never_panics_witness:
  "\<exists>es s'. source_run demo_config record_datagram
     (source_start MAX_TELEMETRY_SIZE 9000 (\<lambda>_. 0) []) [demo_env, demo_env] = Inr (es, s')"
  using source_never_panics [of "[demo_env, demo_env]" demo_config record_datagram 9000 "\<lambda>_. 0" "[]"]
    demo_env_ok [of MAX_TELEMETRY_SIZE] by (auto simp: MAX_TELEMETRY_SIZE_def)

section \<open>What a frame contains\<close>

lemma session_bytes_nth:
  "i < e \<Longrightarrow> session_bytes e d ! i = (if 4 \<le> i \<and> i < 8 then 0 else d ! i)"
  by (simp add: session_bytes_def)

lemma wire_offset_bits:
  assumes "n < 2 ^ 31"
  shows "unat (of_nat n :: u32) = n" "\<not> bit (of_nat n :: u32) 31"
    "bit ((of_nat n :: u32) OR DELTA_BIT) 31"
    "((of_nat n :: u32) OR DELTA_BIT) AND NOT DELTA_BIT = of_nat n"
    "(of_nat n :: u32) AND NOT DELTA_BIT = of_nat n"
proof -
  show u: "unat (of_nat n :: u32) = n" using assms by (intro unat_of_nat_small) simp
  have "\<not> bit n k" if "31 \<le> k" for k
  proof -
    have "n < 2 ^ k" using assms power_increasing [OF that, of "2 :: nat"] by simp
    then show ?thesis by (simp add: bit_iff_odd)
  qed
  then have b: "bit (of_nat n :: u32) k \<Longrightarrow> k < 31" for k
    by (metis bit_of_nat_iff linorder_not_le)
  from b [of 31] show "\<not> bit (of_nat n :: u32) 31" by blast
  show "bit ((of_nat n :: u32) OR DELTA_BIT) 31" by (simp add: bit_DELTA_BIT bit_simps)
  show "((of_nat n :: u32) OR DELTA_BIT) AND NOT DELTA_BIT = of_nat n"
    by (rule bit_word_eqI) (use b in \<open>auto simp: bit_DELTA_BIT bit_or_iff bit_and_iff bit_not_iff\<close>)
  show "(of_nat n :: u32) AND NOT DELTA_BIT = of_nat n"
    by (rule bit_word_eqI) (use b in \<open>auto simp: bit_DELTA_BIT bit_or_iff bit_and_iff bit_not_iff\<close>)
qed

text \<open>C5: Every frame the source sends is one of two kinds. A session-info frame carries the
  static prefix of the map with the status field zeroed, under the offset \<open>u32::MAX\<close> and never as
  a delta. A partial frame is the 112-byte header followed by the active variable buffer, taken
  while the slot's tick count stayed the same and different from the last one sent, raw or
  XOR-ed with the previous frame; its wire offset has the delta bit exactly when it is a delta
  and is the buffer's offset otherwise; the frame becomes the reference of the next delta.\<close>

theorem source_frame_contents:
  assumes "wf_source cap s" "source_env_ok cap ev" "8 \<le> cap" "cap < 2 ^ 31"
    and "built_frame cfg s ev = Some (payload, is_delta, wire)"
  shows "if wire = U32_MAX then
      \<not> is_delta \<and> session_info_end (ev_map ev Read_End) = Inr (length payload) \<and>
      (\<forall>i<length payload. payload ! i = (if 4 \<le> i \<and> i < 8 then 0 else ev_map ev Read_Prefix ! i))
    else
      \<exists>off len tick tick_off s2 c. active_var_buf (ev_map ev Read_Active) = Inr (Some (off, len, tick, tick_off)) \<and>
        build cfg s ev = Inr (c, Some (payload, is_delta, wire), s2) \<and>
        tick_reread ev tick_off tick = tick \<and> tick \<noteq> last_tick s \<and> last_tick s2 = tick \<and>
        unat (wire AND NOT DELTA_BIT) = off \<and> bit wire 31 = is_delta \<and> is_delta = use_delta cfg s \<and>
        (let cur = partial_bytes ev off (off + len) in
         payload = (if is_delta then xor_bytes cur (take (length cur) (src_prev s)) else cur) \<and>
         length cur = 112 + len \<and> src_prev s2 = blit 0 cur (src_prev s))"
proof -
  have cap63: "cap < 2 ^ 63" using assms(4) by simp
  obtain c s2 where bd: "build cfg s ev = Inr (c, Some (payload, is_delta, wire), s2)"
    using assms(5) by (auto simp: built_frame_def split: if_splits sum.splits)
  from assms(1-3) cap63 show ?thesis
  proof (cases rule: build_cases [of cap s ev cfg])
    case (session c' e s2')
    then have "payload = session_bytes e (ev_map ev Read_Prefix)" "\<not> is_delta" "wire = U32_MAX"
      using bd by simp_all
    then show ?thesis using session(2) by (auto simp: session_bytes_def)
  next
    case (skip c' off len tick tick_off st d)
    then show ?thesis using bd by simp
  next
    case (partial off len tick tick_off st db)
    let ?cur = "partial_bytes ev off (off + len)"
    have off: "off < 2 ^ 31" using partial(8) assms(4) by linarith
    note w = wire_offset_bits [OF off]
    from bd partial(10) have e: "payload = (if is_delta then xor_bytes ?cur (take (length ?cur) (src_prev s)) else ?cur)"
      "is_delta = use_delta cfg s" "wire = (if is_delta then of_nat off OR DELTA_BIT else of_nat off)"
      "last_tick s2 = tick" "src_prev s2 = blit 0 ?cur (src_prev s)"
      by (auto simp: Let_def)
    have "wire \<noteq> U32_MAX"
    proof (cases is_delta)
      case True
      have "\<not> bit (wire AND NOT DELTA_BIT) 31" using True e(3) w(2,4) by simp
      show ?thesis
      proof
        assume "wire = U32_MAX"
        then have "wire AND NOT DELTA_BIT = mask 31"
          by (intro bit_word_eqI) (auto simp: U32_MAX_def bit_DELTA_BIT bit_and_iff bit_not_iff bit_mask_iff)
        then have "of_nat off = (mask 31 :: u32)" using True e(3) w(4) by simp
        then have "off = unat (mask 31 :: u32)" using w(1) by metis
        then show False using partial(8) assms(4) active_var_buf_SomeD(2) [OF partial(1)]
          by (simp add: mask_eq_exp_minus_1)
      qed
    next
      case False
      then show ?thesis using e(3) partial(2) by simp
    qed
    moreover have "\<exists>a1 a2 a3 a4 a5. c = (a1, a2, a3, a4, a5)" by (cases c) auto
    ultimately show ?thesis
      using partial(1,6,7,9) bd e w by (auto simp: Let_def IRSDK_HEADER_SIZE_def)
  qed
qed

text \<open>A state whose next frame is partial: the session of the demo map is known.\<close>

definition demo_state :: "bool \<Rightarrow> u32 \<Rightarrow> byte list list source_state" where
  "demo_state delta tc = (source_start 200 9000 (\<lambda>_. 0) [])\<lparr>got_data := True, last_session_update := 0,
     target_supports_delta := delta, tick_counter := tc\<rparr>"

lemma demo_choice: "active_var_buf (demo_map 9 116) = Inr (Some (116, 4, 9, 64))"
proof -
  note w = i32_at_demo [of 9 116]
  have r: "ring_slots (demo_map 9 116) = 2" using w by (simp add: ring_slots_def usize_of_i32_nonneg)
  have "first_max (demo_map 9 116) 2 1"
    using w by (auto simp: first_max_def slot_tick_def less_2_cases_iff)
  then show ?thesis
    using active_var_buf_eq [of "demo_map 9 116" 1] w
    by (simp add: r slot_tick_def slot_off_def usize_of_i32_nonneg Let_def I32_MIN_def)
qed

lemma wf_demo_state [simp]: "wf_source 200 (demo_state d tc)"
  using wf_source_start [of 200 9000 "\<lambda>_. 0" "[]"] by (simp add: demo_state_def wf_source_def)

lemma demo_session_update: "session_update_at (demo_map 9 116) = 0"
  by (simp add: session_update_at_def demo_map_def i32_at_def numeral_eq_Suc)

lemma choose_demo:
  "choose_frame demo_env (see_data (\<lambda>_. 0) (demo_state d tc)) =
     Inr ((116, 116, 120, 9, 64), demo_state d tc)"
  using demo_choice demo_session_update
  by (simp add: choose_frame_def demo_env_def see_data_def demo_state_def source_start_def
      FULL_FRAME_INTERVAL_def elapsed_def Let_def)

lemma demo_reread: "tick_reread demo_env 64 9 = 9"
  using i32_at_demo [of 9 116] by (simp add: tick_reread_def demo_env_def)

lemma demo_build:
  "\<exists>s2. build cfg (demo_state d tc) demo_env =
     (let cur = partial_bytes demo_env 116 120; s = demo_state d tc in
      Inr ((116, 116, 120, 9, 64),
        Some (if use_delta cfg s then xor_bytes cur (take (length cur) (src_prev s)) else cur,
          use_delta cfg s, if use_delta cfg s then 116 OR DELTA_BIT else 116), s2))
   \<and> tick_counter s2 = tc + 1"
proof -
  have ev: "source_env_ok 200 demo_env" by (rule demo_env_ok) simp
  have m: "ev_map demo_env Read_Active = demo_map 9 116" by (simp add: demo_env_def)
  have lt: "last_tick (demo_state d tc) = I32_NONE" "tick_counter (demo_state d tc) = tc"
    by (simp_all add: demo_state_def source_start_def)
  have c: "fst c = 116" if "build cfg (demo_state d tc) demo_env = Inr (c, b, s2)" for c b s2
    using that choose_demo [of d tc] by (auto simp: build_def demo_env_def rbind_eq_Inr)
  have cap: "8 \<le> (200 :: nat)" "(200 :: nat) < 2 ^ 63" by simp_all
  from wf_demo_state ev cap show ?thesis
  proof (cases rule: build_cases [of 200 "demo_state d tc" demo_env cfg])
    case (session c e s2)
    then show ?thesis using c by (auto simp: U32_MAX_def)
  next
    case (skip c off len tick tick_off st da)
    then show ?thesis
      using demo_choice demo_reread lt by (simp add: m I32_NONE_def IRSDK_HEADER_SIZE_def)
  next
    case (partial off len tick tick_off st db)
    then have "off = 116" "len = 4" "tick = 9" "tick_off = 64" using demo_choice by (simp_all add: m)
    then show ?thesis using partial(10) lt by (auto simp: Let_def)
  qed
qed

theorem source_frame_contents_witness:
  "\<exists>payload. built_frame demo_config (demo_state True 1) demo_env = Some (payload, True, 116 OR DELTA_BIT) \<and>
     (\<exists>cur. length cur = 116 \<and> payload = xor_bytes cur (take 116 (replicate 200 0)))"
proof -
  have u: "use_delta demo_config (demo_state True 1)"
    by (simp add: use_delta_def demo_config_def demo_state_def)
  obtain s2 payload where "build demo_config (demo_state True 1) demo_env =
      Inr ((116, 116, 120, 9, 64), Some (payload, True, 116 OR DELTA_BIT), s2)"
    using demo_build [of demo_config True 1] u by (auto simp: Let_def)
  then have b: "built_frame demo_config (demo_state True 1) demo_env = Some (payload, True, 116 OR DELTA_BIT)"
    by (simp add: built_frame_def) (simp add: demo_env_def)
  have w: "(116 OR DELTA_BIT) \<noteq> U32_MAX" by (simp add: DELTA_BIT_def U32_MAX_def)
  have ev: "source_env_ok 200 demo_env" by (rule demo_env_ok) simp
  have pv: "src_prev (demo_state True 1) = replicate 200 0" by (simp add: demo_state_def source_start_def)
  have m: "ev_map demo_env Read_Active = demo_map 9 116" by (simp add: demo_env_def)
  from source_frame_contents [OF wf_demo_state ev _ _ b] w demo_choice
  obtain cur where "length cur = 116" "payload = xor_bytes cur (take (length cur) (replicate 200 0))"
    by (auto simp: Let_def m pv simp del: take_replicate)
  then have "\<exists>cur. length cur = 116 \<and> payload = xor_bytes cur (take 116 (replicate 200 0))" by metis
  with b show ?thesis by blast
qed

section \<open>Iterations that send nothing\<close>

lemma source_step_data:
  "\<not> ev_shutdown ev \<Longrightarrow> ev_ready ev \<Longrightarrow> source_step cfg f s ev = data_step cfg f s ev"
  by (simp add: source_step_def)

lemma built_frame_data:
  "\<not> ev_shutdown ev \<Longrightarrow> ev_ready ev \<Longrightarrow> build cfg s ev = Inr (c, b, s2) \<Longrightarrow> built_frame cfg s ev = b"
  by (simp add: built_frame_def)

lemma choose_frame_cong:
  "ev_map ev Read_Active = ev_map ev' Read_Active \<Longrightarrow> ev_map ev Read_Update = ev_map ev' Read_Update \<Longrightarrow>
   ev_clock ev = ev_clock ev' \<Longrightarrow> choose_frame ev s = choose_frame ev' s"
  by (simp add: choose_frame_def Let_def)

lemma build_active:
  assumes "wf_source cap s" "source_env_ok cap ev" "8 \<le> cap" "cap < 2 ^ 63"
    and "choose_frame ev (see_data (ev_clock ev) s) = Inr ((bo, a, b, tick, tick_off), s1)" "bo \<noteq> U32_MAX"
    and "tick_reread ev tick_off tick \<noteq> tick \<or> tick = last_tick s"
  shows "\<exists>st d c. build cfg s ev = Inr (c, None, (see_data (ev_clock ev) s)\<lparr>src_staging := st,
      src_stats := record_dropped d (src_stats s)\<rparr>) \<and> length st = cap \<and>
      (IRSDK_HEADER_SIZE + (b - a) \<le> cap \<longrightarrow> d = (if tick_reread ev tick_off tick \<noteq> tick then 1 else 0))"
proof -
  have c: "fst c = bo" if "build cfg s ev = Inr (c, x, y)" for c x y
    using that assms(5) by (auto simp: build_def rbind_eq_Inr)
  have act: "active_var_buf (ev_map ev Read_Active) = Inr (Some (a, b - a, tick, tick_off))"
    using assms(5)
  proof (cases rule: choose_frame_cases)
    case full
    with assms(6) show ?thesis by simp
  next
    case (active off len tick' tick_off')
    with active_choice_fits(2) [OF assms(2,4) active(1)] show ?thesis by simp
  qed
  from assms(1-4) show ?thesis
  proof (cases rule: build_cases [of cap s ev cfg])
    case (session c' e s2)
    with c assms(6) show ?thesis by auto
  next
    case (skip c' off len tick' tick_off' st d)
    with act have "off = a" "len = b - a" "tick' = tick" "tick_off' = tick_off" by simp_all
    with skip show ?thesis
      by (intro exI [of _ st] exI [of _ d] exI [of _ c']) blast
  next
    case (partial off len tick' tick_off' st db)
    then show ?thesis using act assms(7) by auto
  qed
qed

text \<open>C18: A torn frame is never sent: when the tick count of the selected slot has changed by
  the time the frame is copied, the iteration ends with nothing handed to the socket, one frame
  counted as dropped, and the delta reference, the keyframe counter and the last tick untouched.\<close>

theorem torn_frame_not_sent:
  assumes "wf_source cap s" "source_env_ok cap ev" "8 \<le> cap" "cap < 2 ^ 63"
    and "\<not> ev_shutdown ev" "ev_ready ev"
    and "choose_frame ev (see_data (ev_clock ev) s) = Inr ((bo, a, b, tick, tick_off), s1)" "bo \<noteq> U32_MAX"
    and "IRSDK_HEADER_SIZE + (b - a) \<le> cap" "tick_reread ev tick_off tick \<noteq> tick"
  shows "\<exists>s'. source_step cfg f s ev = Inr (Next None, s') \<and> src_net s' = src_net s \<and>
    src_sender s' = src_sender s \<and> src_stats s' = record_dropped 1 (src_stats s) \<and>
    src_prev s' = src_prev s \<and> tick_counter s' = tick_counter s \<and> last_tick s' = last_tick s"
proof -
  obtain st d c where "build cfg s ev = Inr (c, None, (see_data (ev_clock ev) s)\<lparr>src_staging := st,
      src_stats := record_dropped d (src_stats s)\<rparr>)" "d = 1"
    using build_active [OF assms(1-4,7,8), of cfg] assms(9,10) by auto
  then show ?thesis by (simp add: source_step_data assms(5,6) data_step_build)
qed

definition torn_env :: source_env where
  "torn_env = demo_env\<lparr>ev_map := (\<lambda>r. if r = Read_Tick then replicate 120 0 else demo_map 9 116)\<rparr>"

theorem torn_frame_not_sent_witness:
  "\<exists>s'. source_step demo_config record_datagram (demo_state True 0) torn_env = Inr (Next None, s') \<and>
     src_net s' = [] \<and> lifetime_dropped (src_stats s') = 1"
proof -
  have ev: "source_env_ok 200 torn_env"
    using offsets_demo i32_at_demo(1) [of 9 116] by (simp add: source_env_ok_def torn_env_def)
  have "ev_map torn_env Read_Active = ev_map demo_env Read_Active"
    "ev_map torn_env Read_Update = ev_map demo_env Read_Update" "ev_clock torn_env = (\<lambda>_. 0)"
    "\<not> ev_shutdown torn_env" "ev_ready torn_env"
    by (simp_all add: torn_env_def demo_env_def)
  moreover have "choose_frame torn_env (see_data (ev_clock torn_env) (demo_state True 0)) =
      Inr ((116, 116, 120, 9, 64), demo_state True 0)"
    using choose_frame_cong [of torn_env demo_env "see_data (\<lambda>_. 0) (demo_state True 0)"]
      choose_demo [of True 0]
    by (simp add: torn_env_def demo_env_def)
  moreover have "tick_reread torn_env 64 9 \<noteq> 9"
    by (simp add: tick_reread_def torn_env_def i32_at_def)
  moreover have "src_net (demo_state True 0) = []" "lifetime_dropped (src_stats (demo_state True 0)) = 0"
    by (simp_all add: demo_state_def source_start_def stats_new_def)
  ultimately show ?thesis
    using torn_frame_not_sent [OF wf_demo_state [of True 0] ev, of 116 116 120 9 64 "demo_state True 0" demo_config record_datagram]
    by (auto simp: U32_MAX_def IRSDK_HEADER_SIZE_def record_dropped_def)
qed

text \<open>An iteration that finds data-ready but whose active slot still has the last tick sent.\<close>

definition stalled :: "nat \<Rightarrow> 'w source_state \<Rightarrow> source_env \<Rightarrow> bool" where
  "stalled cap s ev \<longleftrightarrow> source_env_ok cap ev \<and> \<not> ev_shutdown ev \<and> ev_ready ev \<and>
     session_update_at (ev_map ev Read_Update) = last_session_update s \<and>
     elapsed (ev_clock ev At_Force_Check) (last_full_frame s) < FULL_FRAME_INTERVAL \<and>
     (case active_var_buf (ev_map ev Read_Active) of
        Inr (Some (off, len, tick, tick_off)) \<Rightarrow> tick = last_tick s \<and> (of_nat off :: u32) \<noteq> U32_MAX
      | _ \<Rightarrow> False)"

abbreviation unchanged :: "'w source_state \<Rightarrow> 'w source_state \<Rightarrow> bool" where
  "unchanged s s' \<equiv> src_net s' = src_net s \<and> src_sender s' = src_sender s \<and> last_heartbeat s' = last_heartbeat s \<and>
     pending_resync s' = pending_resync s \<and> target_supports_delta s' = target_supports_delta s \<and>
     last_session_update s' = last_session_update s \<and> last_full_frame s' = last_full_frame s \<and>
     last_tick s' = last_tick s \<and> got_data s' = got_data s"

lemma stalled_step:
  assumes "wf_source cap s" "8 \<le> cap" "cap < 2 ^ 63" "got_data s" "\<not> pending_resync s" "stalled cap s ev"
  shows "\<exists>s'. source_step cfg f s ev = Inr (Next None, s') \<and> wf_source cap s' \<and> unchanged s s'"
proof -
  let ?s = "see_data (ev_clock ev) s"
  have see: "?s = s\<lparr>last_data := ev_clock ev At_Data\<rparr>" using assms(4) by (simp add: see_data_def)
  from assms(6) obtain off len tick_off where a:
    "active_var_buf (ev_map ev Read_Active) = Inr (Some (off, len, last_tick s, tick_off))"
    "(of_nat off :: u32) \<noteq> U32_MAX"
    by (auto simp: stalled_def split: sum.splits option.splits)
  have c: "choose_frame ev ?s = Inr ((of_nat off, off, uadd off len, last_tick s, tick_off), ?s)"
    using assms(5,6) a unfolding see by (simp add: choose_frame_def stalled_def)
  from assms(6) have ev: "source_env_ok cap ev" "\<not> ev_shutdown ev" "ev_ready ev"
    by (simp_all add: stalled_def)
  obtain st d cc where b: "build cfg s ev = Inr (cc, None, ?s\<lparr>src_staging := st,
      src_stats := record_dropped d (src_stats s)\<rparr>)" "length st = cap"
    using build_active [OF assms(1) ev(1) assms(2,3) c a(2), of cfg] by auto
  then have "source_step cfg f s ev = Inr (Next None, ?s\<lparr>src_staging := st,
      src_stats := record_dropped d (src_stats s)\<rparr>)"
    by (simp add: source_step_data ev data_step_build)
  then show ?thesis using assms(1) b(2) unfolding see by (auto simp: wf_source_def)
qed

lemma stalled_unchanged: "unchanged s s' \<Longrightarrow> stalled cap s' ev = stalled cap s ev"
  by (auto simp: stalled_def split: sum.splits option.splits)

text \<open>C38: While iRacing signals data in every iteration but the tick does not advance, and no resync
  request has been read before, the source sends nothing at all until the ten-second fallback is
  due: no frame, no heartbeat however long ago the last one was, and a resync request that arrives
  in the meantime is not even read. (Iterations without data are \<open>idle_heartbeat\<close>.)\<close>

theorem stalled_source_is_silent:
  assumes "wf_source cap s" "8 \<le> cap" "cap < 2 ^ 63" "got_data s" "\<not> pending_resync s"
    and "\<forall>ev\<in>set evs. stalled cap s ev"
  shows "\<exists>s'. source_run cfg f s evs = Inr (replicate (length evs) (Next None), s') \<and>
    src_net s' = src_net s \<and> last_heartbeat s' = last_heartbeat s \<and> \<not> pending_resync s'"
proof -
  have "\<exists>s'. source_run cfg f s evs = Inr (replicate (length evs) (Next None), s') \<and> unchanged s s'"
    using assms
  proof (induction evs arbitrary: s)
    case Nil
    show ?case by (simp add: source_run_def)
  next
    case (Cons ev evs)
    then have "stalled cap s ev" by simp
    from stalled_step [OF Cons.prems(1-5) this, of cfg f] obtain s1 where
      s1: "source_step cfg f s ev = Inr (Next None, s1)" "wf_source cap s1" "unchanged s s1" by blast
    have "\<exists>s'. source_run cfg f s1 evs = Inr (replicate (length evs) (Next None), s') \<and> unchanged s1 s'"
      using s1(2,3) Cons.prems stalled_unchanged [OF s1(3)] by (intro Cons.IH) simp_all
    then show ?case using s1 by (auto simp: source_run_def)
  qed
  with assms(5) show ?thesis by auto
qed

theorem stalled_source_is_silent_witness:
  "\<exists>s'. source_run demo_config record_datagram ((demo_state True 1)\<lparr>last_tick := 9\<rparr>)
      (replicate 50 (demo_env\<lparr>ev_clock := (\<lambda>_. 9000000), ev_cap := Some [1, 1]\<rparr>)) =
      Inr (replicate 50 (Next None), s') \<and>
    src_net s' = [] \<and> last_heartbeat s' = 0 \<and> \<not> pending_resync s'"
proof -
  let ?s = "(demo_state True 1)\<lparr>last_tick := 9\<rparr>" and ?ev = "demo_env\<lparr>ev_clock := (\<lambda>_. 9000000), ev_cap := Some [1, 1]\<rparr>"
  have "source_env_ok 200 ?ev" using demo_env_ok [of 200] by (simp add: source_env_ok_def)
  then have "stalled 200 ?s ?ev"
    using demo_choice demo_session_update
    by (simp add: stalled_def demo_env_def demo_state_def source_start_def elapsed_def
        FULL_FRAME_INTERVAL_def U32_MAX_def)
  moreover have "wf_source 200 ?s" using wf_demo_state [of True 1] by (simp add: wf_source_def)
  ultimately show ?thesis
    using stalled_source_is_silent [of 200 ?s "replicate 50 ?ev" demo_config record_datagram]
    by (simp add: demo_state_def source_start_def)
qed

section \<open>The keyframe schedule\<close>

text \<open>How many deltas follow the last keyframe: \<open>None\<close> when there is none since the last
  session-info frame.\<close>

definition since_keyframe ::
  "(byte list \<times> bool \<times> u32) option \<Rightarrow> nat option \<Rightarrow> nat option" where
  "since_keyframe b k = (case b of
      None \<Rightarrow> k
    | Some (_, is_delta, wire) \<Rightarrow>
        if is_delta then map_option Suc k else if wire = U32_MAX then None else Some 0)"

fun frame_trace ::
  "source_config \<Rightarrow> 'w send_fn \<Rightarrow> 'w source_state \<Rightarrow> source_env list \<Rightarrow> (byte list \<times> bool \<times> u32) option list" where
  "frame_trace cfg f s [] = []"
| "frame_trace cfg f s (ev # evs) = built_frame cfg s ev #
     (case source_step cfg f s ev of Inr (Next _, s') \<Rightarrow> frame_trace cfg f s' evs | _ \<Rightarrow> [])"

definition schedule_inv :: "source_config \<Rightarrow> nat option \<Rightarrow> 'w source_state \<Rightarrow> bool" where
  "schedule_inv cfg k s \<longleftrightarrow> (tick_counter s \<noteq> 0 \<longrightarrow>
     (\<exists>j. k = Some j \<and> (0 < unat (cfg_keyframe_interval cfg) \<longrightarrow>
        j \<le> (unat (tick_counter s) - 1) mod unat (cfg_keyframe_interval cfg))))"

lemma tick_counter_Suc: "(t :: u32) + 1 \<noteq> 0 \<Longrightarrow> unat (t + 1) = Suc (unat t)"
  using unatSuc [of t] by (simp add: add.commute)

lemma use_delta_mod:
  assumes "use_delta cfg s"
  shows "tick_counter s \<noteq> 0" "0 < unat (cfg_keyframe_interval cfg)"
    "Suc ((unat (tick_counter s) - 1) mod unat (cfg_keyframe_interval cfg)) =
       unat (tick_counter s) mod unat (cfg_keyframe_interval cfg)"
proof -
  show t: "tick_counter s \<noteq> 0" and kf: "0 < unat (cfg_keyframe_interval cfg)"
    using assms by (auto simp: use_delta_def)
  have "Suc (unat (tick_counter s) - 1) = unat (tick_counter s)" using t by (simp add: unat_gt_0)
  then show "Suc ((unat (tick_counter s) - 1) mod unat (cfg_keyframe_interval cfg)) =
       unat (tick_counter s) mod unat (cfg_keyframe_interval cfg)"
    using assms mod_Suc [of "unat (tick_counter s) - 1" "unat (cfg_keyframe_interval cfg)"]
    by (auto simp: use_delta_def split: if_splits)
qed

lemma schedule_count:
  assumes "schedule_inv cfg k s" "tick_counter s' = tick_counter s + 1"
  shows "schedule_inv cfg (if use_delta cfg s then map_option Suc k else Some 0) s'"
proof (cases "tick_counter s' = 0")
  case True
  then show ?thesis by (simp add: schedule_inv_def)
next
  case False
  then have t: "unat (tick_counter s') - Suc 0 = unat (tick_counter s)"
    using assms(2) tick_counter_Suc [of "tick_counter s"] by simp
  show ?thesis
  proof (cases "use_delta cfg s")
    case True
    note u = use_delta_mod [OF True]
    from assms(1) u(1,2) obtain j where "k = Some j"
      "j \<le> (unat (tick_counter s) - 1) mod unat (cfg_keyframe_interval cfg)"
      by (auto simp: schedule_inv_def)
    then show ?thesis using u(3) True by (simp add: schedule_inv_def t)
  qed (simp add: schedule_inv_def)
qed

lemma schedule_delta:
  assumes "schedule_inv cfg k s" "use_delta cfg s"
  shows "\<exists>j. k = Some j \<and> Suc j < unat (cfg_keyframe_interval cfg)"
proof -
  note u = use_delta_mod [OF assms(2)]
  from assms(1) u(1,2) obtain j where "k = Some j"
    "j \<le> (unat (tick_counter s) - 1) mod unat (cfg_keyframe_interval cfg)"
    by (auto simp: schedule_inv_def)
  moreover from this(2) u(3)
  have "Suc j \<le> unat (tick_counter s) mod unat (cfg_keyframe_interval cfg)" by linarith
  ultimately show ?thesis
    using mod_less_divisor [OF u(2), of "unat (tick_counter s)"] by (auto intro: le_less_trans)
qed

lemma schedule_step:
  assumes "wf_source cap s" "source_env_ok cap ev" "8 \<le> cap" "cap < 2 ^ 63" "schedule_inv cfg k s"
    and "source_step cfg f s ev = Inr (Next r, s')"
  shows "schedule_inv cfg (since_keyframe (built_frame cfg s ev) k) s'"
    "built_frame cfg s ev = Some (p, True, w) \<Longrightarrow> \<exists>j. k = Some j \<and> Suc j < unat (cfg_keyframe_interval cfg)"
proof -
  have "schedule_inv cfg (since_keyframe (built_frame cfg s ev) k) s' \<and>
    (\<forall>p w. built_frame cfg s ev = Some (p, True, w) \<longrightarrow> (\<exists>j. k = Some j \<and> Suc j < unat (cfg_keyframe_interval cfg)))"
  proof (cases "ev_shutdown ev \<or> \<not> ev_ready ev")
    case True
    then have b: "built_frame cfg s ev = None" by (simp add: built_frame_def)
    from True assms(6) have "idle_step cfg f s ev = Inr (Next r, s')"
      by (auto simp: source_step_def split: if_splits)
    with idle_step_returns [OF assms(1), of cfg f ev] have "tick_counter s' = tick_counter s \<or> tick_counter s' = 0"
      by auto
    then show ?thesis using b assms(5) by (auto simp: since_keyframe_def schedule_inv_def)
  next
    case False
    then have d: "data_step cfg f s ev = Inr (Next r, s')" using assms(6) by (simp add: source_step_data)
    have bf: "built_frame cfg s ev = b" if "build cfg s ev = Inr (c, b, s2)" for c b s2
      using that False by (simp add: built_frame_def)
    have after: "tick_counter s' = tick_counter s2"
      if "build cfg s ev = Inr (c, Some q, s2)" "wf_source cap s2" for c q s2
    proof -
      have "transmit cfg f ev (fst c) q s2 = Inr (Next r, s')" using d that(1) by (simp add: data_step_build)
      then show ?thesis using transmit_returns [OF that(2), of cfg f ev "fst c" q] by (auto simp: frame_vars_def)
    qed
    from assms(1-4) show ?thesis
    proof (cases rule: build_cases [of cap s ev cfg])
      case (session c e s2)
      then show ?thesis using after [OF session(5)] bf [OF session(5)]
        by (simp add: since_keyframe_def schedule_inv_def)
    next
      case (skip c off len tick tick_off st n)
      then have "tick_counter s' = tick_counter s" using d by (auto simp: data_step_build)
      then show ?thesis using bf [OF skip(5)] assms(5) by (simp add: since_keyframe_def schedule_inv_def)
    next
      case (partial off len tick tick_off st db)
      let ?cur = "partial_bytes ev off (off + len)"
      let ?w = "if use_delta cfg s then of_nat off OR DELTA_BIT else of_nat off"
      let ?p = "if use_delta cfg s then xor_bytes ?cur (take (length ?cur) (src_prev s)) else ?cur"
      let ?s2 = "(see_data (ev_clock ev) s)\<lparr>src_staging := st, delta_buf := db,
             src_prev := blit 0 ?cur (src_prev s), tick_counter := tick_counter s + 1, last_tick := tick\<rparr>"
      have b: "build cfg s ev = Inr ((of_nat off, off, off + len, tick, tick_off),
          Some (?p, use_delta cfg s, ?w), ?s2)"
        using partial(10) by (simp add: Let_def)
      have "wf_source cap ?s2" using assms(1) partial(3-5,9) by (simp add: wf_source_def see_data_def)
      from after [OF b this] have t: "tick_counter s' = tick_counter s + 1" by simp
      have "since_keyframe (built_frame cfg s ev) k = (if use_delta cfg s then map_option Suc k else Some 0)"
        using bf [OF b] partial(2) by (simp add: since_keyframe_def)
      then show ?thesis using schedule_count [OF assms(5) t] schedule_delta [OF assms(5)] bf [OF b] by auto
    qed
  qed
  then show "schedule_inv cfg (since_keyframe (built_frame cfg s ev) k) s'"
    "built_frame cfg s ev = Some (p, True, w) \<Longrightarrow> \<exists>j. k = Some j \<and> Suc j < unat (cfg_keyframe_interval cfg)"
    by blast+
qed

lemma schedule_trace:
  assumes "wf_source cap s" "8 \<le> cap" "cap < 2 ^ 63" "list_all (source_env_ok cap) evs" "schedule_inv cfg k s"
    and "frame_trace cfg f s evs = xs @ Some (p, True, w) # ys"
  shows "\<exists>j. fold since_keyframe xs k = Some j \<and> Suc j < unat (cfg_keyframe_interval cfg)"
  using assms
proof (induction evs arbitrary: s k xs)
  case (Cons ev evs)
  then have ev: "source_env_ok cap ev" "list_all (source_env_ok cap) evs" by simp_all
  from source_step_returns [OF Cons.prems(1) ev(1) Cons.prems(2,3), of cfg f] obtain e s1 where
    s1: "source_step cfg f s ev = Inr (e, s1)" "wf_source cap s1" by blast
  show ?case
  proof (cases xs)
    case Nil
    then have b: "built_frame cfg s ev = Some (p, True, w)" using Cons.prems(6) by simp
    then have data: "\<not> ev_shutdown ev" "ev_ready ev" by (auto simp: built_frame_def split: if_splits)
    have "\<exists>r. e = Next r"
    proof -
      from b data obtain c s2 where bd: "build cfg s ev = Inr (c, Some (p, True, w), s2)"
        by (auto simp: built_frame_def split: sum.splits)
      then have "source_step cfg f s ev = transmit cfg f ev (fst c) (p, True, w) s2"
        by (simp add: source_step_data data data_step_build)
      moreover have "wf_source cap s2"
        using build_returns_wf [OF Cons.prems(1) ev(1) Cons.prems(2,3) bd] .
      ultimately show ?thesis using s1(1) transmit_returns [of cap s2 cfg f ev "fst c" "(p, True, w)"] by auto
    qed
    then obtain r where "source_step cfg f s ev = Inr (Next r, s1)" using s1 by auto
    from schedule_step(2) [OF Cons.prems(1) ev(1) Cons.prems(2,3,5) this b] Nil show ?thesis by simp
  next
    case (Cons x xs')
    with Cons.prems(6) s1 obtain r where r: "e = Next r" "x = built_frame cfg s ev"
      "frame_trace cfg f s1 evs = xs' @ Some (p, True, w) # ys"
      by (auto split: source_exit.splits)
    from schedule_step(1) [OF Cons.prems(1) ev(1) Cons.prems(2,3,5) s1(1) [unfolded r(1)]]
    have "schedule_inv cfg (since_keyframe x k) s1" using r(2) by simp
    from Cons.IH [OF s1(2) Cons.prems(2,3) ev(2) this r(3)] show ?thesis using Cons by simp
  qed
qed simp

text \<open>C10: A delta frame is never sent without its keyframe: since the last session-info frame
  (or the start) there is a keyframe before it, and fewer than \<open>keyframe_interval - 1\<close> deltas have
  been built since that keyframe, whatever the target announced, dropped frames, reconnects and
  counter wrap-around in between.\<close>

theorem deltas_follow_keyframe:
  assumes "wf_source cap s" "8 \<le> cap" "cap < 2 ^ 63" "tick_counter s = 0"
    and "list_all (source_env_ok cap) evs"
    and "frame_trace cfg f s evs = xs @ Some (payload, True, wire) # ys"
  shows "\<exists>j. fold since_keyframe xs None = Some j \<and> Suc j < unat (cfg_keyframe_interval cfg)"
proof -
  have "schedule_inv cfg None s" using assms(4) by (simp add: schedule_inv_def)
  from schedule_trace [OF assms(1-3,5) this assms(6)] show ?thesis .
qed

text \<open>Two iterations of the demo map, one tick apart: a keyframe and a delta.\<close>

definition demo_tick :: "i32 \<Rightarrow> source_env" where
  "demo_tick t = demo_env\<lparr>ev_map := (\<lambda>_. demo_map t 116)\<rparr>"

lemma demo_tick_choice:
  assumes "7 < sint t"
  shows "active_var_buf (demo_map t 116) = Inr (Some (116, 4, t, 64))"
proof -
  note w = i32_at_demo [of t 116]
  have r: "ring_slots (demo_map t 116) = 2" using w by (simp add: ring_slots_def usize_of_i32_nonneg)
  have "first_max (demo_map t 116) 2 1"
    using w assms by (auto simp: first_max_def slot_tick_def less_2_cases_iff)
  moreover have "t \<noteq> I32_MIN" using assms sint_I32_MIN by auto
  ultimately show ?thesis
    using active_var_buf_eq [of "demo_map t 116" 1] w
    by (simp add: r slot_tick_def slot_off_def usize_of_i32_nonneg Let_def)
qed

lemma demo_tick_env_ok: "120 \<le> cap \<Longrightarrow> source_env_ok cap (demo_tick t)"
proof -
  have "i32_at (demo_map t 116) 84 = 0" "i32_at (demo_map t 116) 100 = 0"
    by (simp_all add: demo_map_def i32_at_def numeral_eq_Suc)
  then show "120 \<le> cap \<Longrightarrow> source_env_ok cap (demo_tick t)"
    using i32_at_demo [of t 116]
    by (auto simp: source_env_ok_def demo_tick_def offsets_nonneg_def less_Suc_eq eval_nat_numeral)
qed

lemma demo_tick_step:
  assumes "wf_source 200 s" "got_data s" "\<not> pending_resync s" "last_session_update s = 0"
    "last_full_frame s = 0" "7 < sint t" "last_tick s \<noteq> t"
  shows "\<exists>p r s'. built_frame cfg s (demo_tick t) = Some (p, use_delta cfg s, if use_delta cfg s then 116 OR DELTA_BIT else 116) \<and>
    source_step cfg f s (demo_tick t) = Inr (Next r, s') \<and> wf_source 200 s' \<and>
    got_data s' \<and> \<not> pending_resync s' \<and> last_session_update s' = 0 \<and> last_full_frame s' = 0 \<and>
    last_tick s' = t \<and> tick_counter s' = tick_counter s + 1 \<and> target_supports_delta s' = target_supports_delta s"
proof -
  let ?ev = "demo_tick t"
  have ev: "\<not> ev_shutdown ?ev" "ev_ready ?ev" "ev_cap ?ev = None" "ev_clock ?ev = (\<lambda>_. 0)"
    "ev_map ?ev = (\<lambda>_. demo_map t 116)" by (simp_all add: demo_tick_def demo_env_def)
  have see: "see_data (ev_clock ?ev) s = s\<lparr>last_data := 0\<rparr>" using assms(2) by (simp add: see_data_def ev)
  have "session_update_at (demo_map t 116) = 0"
    by (simp add: session_update_at_def demo_map_def i32_at_def numeral_eq_Suc)
  then have c: "choose_frame ?ev (see_data (ev_clock ?ev) s) =
      Inr ((116, 116, 120, t, 64), s\<lparr>last_data := 0\<rparr>)"
    using assms demo_tick_choice [OF assms(6)] unfolding see
    by (simp add: choose_frame_def ev FULL_FRAME_INTERVAL_def elapsed_def)
  have fst_c: "fst c = 116" if "build cfg s ?ev = Inr (c, b, s2)" for c b s2
    using that c by (auto simp: build_def rbind_eq_Inr)
  have re: "tick_reread ?ev 64 t = t" using i32_at_demo [of t 116] by (simp add: tick_reread_def ev)
  have ok: "source_env_ok 200 ?ev" by (rule demo_tick_env_ok) simp
  have cap: "8 \<le> (200 :: nat)" "(200 :: nat) < 2 ^ 63" by simp_all
  from assms(1) ok cap show ?thesis
  proof (cases rule: build_cases [of 200 s ?ev cfg])
    case (session c' e s2)
    then show ?thesis using fst_c by (auto simp: U32_MAX_def)
  next
    case (skip c' off len tick tick_off st d)
    then show ?thesis
      using demo_tick_choice [OF assms(6)] re assms(7) by (simp add: ev IRSDK_HEADER_SIZE_def)
  next
    case (partial off len tick tick_off st db)
    then have v: "off = 116" "len = 4" "tick = t" "tick_off = 64"
      using demo_tick_choice [OF assms(6)] by (simp_all add: ev)
    obtain p s2 where b: "build cfg s ?ev = Inr ((116, 116, 120, t, 64),
        Some (p, use_delta cfg s, if use_delta cfg s then 116 OR DELTA_BIT else 116), s2)"
      and s2: "got_data s2" "pending_resync s2 = pending_resync s" "last_session_update s2 = 0"
        "last_full_frame s2 = 0" "last_tick s2 = t" "tick_counter s2 = tick_counter s + 1"
        "target_supports_delta s2 = target_supports_delta s"
      using partial(10) assms by (simp add: v Let_def see)
    have wf2: "wf_source 200 s2" using build_returns_wf [OF assms(1) ok cap b] .
    let ?p = "(p, use_delta cfg s, if use_delta cfg s then 116 OR DELTA_BIT else 116)"
    from transmit_returns [OF wf2, of cfg f ?ev 116 ?p] obtain r s' where
      "transmit cfg f ?ev 116 ?p s2 = Inr (Next r, s')" "wf_source 200 s'" "frame_vars s' = frame_vars s2"
      "pending_resync s' = pending_resync s2" "target_supports_delta s' = target_supports_delta s2"
      using ev(3) by auto
    then show ?thesis
      using b s2 assms(3) ev by (auto simp: built_frame_def source_step_data data_step_build frame_vars_def)
  qed
qed

theorem deltas_follow_keyframe_witness:
  "\<exists>p1 p2. frame_trace demo_config record_datagram (demo_state True 0) [demo_tick 9, demo_tick 10] =
     [Some (p1, False, 116), Some (p2, True, 116 OR DELTA_BIT)] \<and>
   fold since_keyframe [Some (p1, False, 116)] None = Some 0"
proof -
  let ?s = "demo_state True 0"
  have s: "got_data ?s" "\<not> pending_resync ?s" "last_session_update ?s = 0" "last_full_frame ?s = 0"
    "last_tick ?s = I32_NONE" "tick_counter ?s = 0" "target_supports_delta ?s"
    by (simp_all add: demo_state_def source_start_def)
  have u0: "\<not> use_delta demo_config ?s" using s by (simp add: use_delta_def)
  obtain p1 r1 s1 where 1: "built_frame demo_config ?s (demo_tick 9) = Some (p1, False, 116)"
    "source_step demo_config record_datagram ?s (demo_tick 9) = Inr (Next r1, s1)" "wf_source 200 s1"
    "got_data s1" "\<not> pending_resync s1" "last_session_update s1 = 0" "last_full_frame s1 = 0"
    "last_tick s1 = 9" "tick_counter s1 = 1" "target_supports_delta s1"
    using demo_tick_step [OF wf_demo_state s(1-4), of 9 demo_config record_datagram] u0 s
    by (auto simp: I32_NONE_def)
  have u1: "use_delta demo_config s1" using 1(9,10) by (simp add: use_delta_def demo_config_def)
  obtain p2 r2 s2 where 2: "built_frame demo_config s1 (demo_tick 10) = Some (p2, True, 116 OR DELTA_BIT)"
    "source_step demo_config record_datagram s1 (demo_tick 10) = Inr (Next r2, s2)"
    using demo_tick_step [OF 1(3-7), of 10 demo_config record_datagram] u1 1(8) by auto
  have t: "frame_trace demo_config record_datagram ?s [demo_tick 9, demo_tick 10] =
      [Some (p1, False, 116)] @ Some (p2, True, 116 OR DELTA_BIT) # []"
    using 1 2 by simp
  have "\<exists>j. fold since_keyframe [Some (p1, False, 116)] None = Some j"
    using deltas_follow_keyframe [OF wf_demo_state _ _ s(6) _ t] by (auto simp: demo_tick_env_ok)
  with t show ?thesis by (auto simp: since_keyframe_def U32_MAX_def)
qed

section \<open>Idle iterations\<close>

text \<open>An iteration without data, within the reconnect timeout.\<close>

definition idle_env :: "source_config \<Rightarrow> 'w source_state \<Rightarrow> source_env \<Rightarrow> bool" where
  "idle_env cfg s ev \<longleftrightarrow> \<not> ev_shutdown ev \<and> \<not> ev_ready ev \<and>
     elapsed (ev_clock ev At_Reconnect_Check) (last_data s) < cfg_reconnect_timeout cfg"

definition beat_due :: "int \<Rightarrow> source_env \<Rightarrow> bool" where
  "beat_due since ev \<longleftrightarrow> since + 1000000 \<le> ev_clock ev At_Heartbeat_Check"

definition delta_answer :: "source_config \<Rightarrow> source_env \<Rightarrow> bool \<Rightarrow> bool" where
  "delta_answer cfg ev b = (case ev_cap ev of
      Some packet \<Rightarrow> if cfg_no_delta cfg then b else 2 \<le> length packet \<and> bit (packet ! 1) 0
    | None \<Rightarrow> b)"

lemma idle_iteration:
  assumes "wf_source cap s" "idle_env cfg s ev"
  obtains s' where "source_step cfg record_datagram s ev = Inr (Next None, s')" "wf_source cap s'"
    "src_net s' = src_net s @ (if beat_due (last_heartbeat s) ev then [header_bytes heartbeat_header] else [])"
    "last_heartbeat s' = (if beat_due (last_heartbeat s) ev then ev_clock ev At_Heartbeat else last_heartbeat s)"
    "frame_vars s' = frame_vars s" "pending_resync s' \<longleftrightarrow> pending_resync s \<or> ev_cap ev \<noteq> None"
    "target_supports_delta s' = delta_answer cfg ev (target_supports_delta s)"
proof -
  let ?s0 = "poll_target cfg (ev_cap ev) s"
  have wf: "HEADER_SIZE \<le> length (snd_buf (src_sender s))" "wf_sender (src_sender s)"
    using assms(1) by (simp_all add: wf_source_def wf_sender_def)
  have hb: "send_heartbeat record_datagram (src_sender s) (src_net s) =
      Inr (Inr (), (src_sender s)\<lparr>snd_buf := blit 0 (header_bytes heartbeat_header) (snd_buf (src_sender s))\<rparr>,
        src_net s @ [header_bytes heartbeat_header])"
    using wf by (simp add: send_heartbeat_def store_ok slice_ok record_datagram_def blit_def)
  have cap: "cap_buf packet ! 1 AND 1 \<noteq> 0 \<longleftrightarrow> 2 \<le> length packet \<and> bit (packet ! 1) 0" for packet
  proof -
    have "cap_buf packet ! 1 = (if 2 \<le> length packet then packet ! 1 else 0)"
      by (cases packet; cases "tl packet") (auto simp: cap_buf_def blit_def)
    moreover have "(b :: byte) AND 1 \<noteq> 0 \<longleftrightarrow> bit b 0" for b
      by (simp add: and_one_eq bit_0 odd_iff_mod_2_eq_one)
    ultimately show ?thesis by simp
  qed
  have ps: "pending_resync ?s0 = (pending_resync s \<or> ev_cap ev \<noteq> None)"
    "target_supports_delta ?s0 = delta_answer cfg ev (target_supports_delta s)"
    using cap by (simp_all add: poll_target_def delta_answer_def Let_def split: option.split)
  let ?due = "beat_due (last_heartbeat s) ev"
  have due: "HEARTBEAT_INTERVAL \<le> elapsed (ev_clock ev At_Heartbeat_Check) (last_heartbeat s) \<longleftrightarrow> ?due"
    by (auto simp: HEARTBEAT_INTERVAL_def elapsed_def beat_due_def)
  define s1 where "s1 = (if ?due then ?s0\<lparr>src_sender := (src_sender s)\<lparr>snd_buf := blit 0 (header_bytes heartbeat_header) (snd_buf (src_sender s))\<rparr>,
      src_net := src_net s @ [header_bytes heartbeat_header], last_heartbeat := ev_clock ev At_Heartbeat\<rparr> else ?s0)"
  have "beat record_datagram (ev_clock ev) ?s0 = Inr s1"
    by (simp add: beat_def s1_def due hb)
  moreover have "last_data s1 = last_data s" by (simp add: s1_def)
  ultimately have "source_step cfg record_datagram s ev = Inr (Next None, s1)"
    using assms(2) by (simp add: idle_env_def source_step_def idle_step_def)
  moreover have "frame_vars s1 = frame_vars s"
    using poll_target_frame(1) [of cfg "ev_cap ev" s] by (auto simp: s1_def frame_vars_def)
  moreover have "wf_source cap s1"
    using assms(1) wf by (auto simp: s1_def wf_source_def wf_sender_def poll_target_def Let_def split: option.split)
  ultimately show ?thesis using ps by (intro that [of s1]) (simp_all add: s1_def)
qed

text \<open>The instants at which the heartbeats of a run of idle iterations are sent, the last frame or
  heartbeat before it being at \<open>since\<close>.\<close>

fun beat_times :: "int \<Rightarrow> source_env list \<Rightarrow> int list" where
  "beat_times since [] = []"
| "beat_times since (ev # evs) = (if beat_due since ev
     then ev_clock ev At_Heartbeat # beat_times (ev_clock ev At_Heartbeat) evs else beat_times since evs)"

lemma beat_times_spaced:
  assumes "\<forall>ev\<in>set evs. ev_clock ev At_Heartbeat_Check \<le> ev_clock ev At_Heartbeat"
  shows "successively (\<lambda>a b. a + 1000000 \<le> b) (since # beat_times since evs)"
  using assms
proof (induction evs arbitrary: since)
  case (Cons ev evs)
  from Cons.prems Cons.IH [of since] Cons.IH [of "ev_clock ev At_Heartbeat"]
  show ?case by (auto simp: beat_due_def)
qed simp

lemma beat_times_append:
  "beat_times since (xs @ ys) = beat_times since xs @ beat_times (last (since # beat_times since xs)) ys"
  by (induction xs arbitrary: since) auto

text \<open>C31: While iRacing is silent, and within the reconnect timeout, the source sends heartbeats and
  nothing else: an iteration sends one exactly when a second has passed since the last frame or
  heartbeat, and the second starts again at the heartbeat it sent, so with a clock that does not
  run backwards within an iteration no two are less than a second apart, and none is overdue after
  an iteration that looked. A packet from the target is noted as a resync request, and
  its capability bit decides whether deltas may be used, unless the source runs with
  \<open>--no-delta\<close>.\<close>

theorem idle_heartbeat:
  assumes "wf_source cap s" "\<forall>ev\<in>set evs. idle_env cfg s ev"
  shows "\<exists>s' ts. source_run cfg record_datagram s evs = Inr (replicate (length evs) (Next None), s') \<and>
    src_net s' = src_net s @ replicate (length ts) (header_bytes heartbeat_header) \<and>
    ts = beat_times (last_heartbeat s) evs \<and> last_heartbeat s' = last (last_heartbeat s # ts) \<and>
    ((\<forall>ev\<in>set evs. ev_clock ev At_Heartbeat_Check \<le> ev_clock ev At_Heartbeat) \<longrightarrow>
       successively (\<lambda>a b. a + 1000000 \<le> b) (last_heartbeat s # ts) \<and>
       (evs \<noteq> [] \<longrightarrow> \<not> beat_due (last_heartbeat s') (last evs))) \<and>
    frame_vars s' = frame_vars s \<and> (pending_resync s' \<longleftrightarrow> pending_resync s \<or> (\<exists>ev\<in>set evs. ev_cap ev \<noteq> None)) \<and>
    target_supports_delta s' = fold (delta_answer cfg) evs (target_supports_delta s)"
proof -
  have "\<exists>s'. source_run cfg record_datagram s evs = Inr (replicate (length evs) (Next None), s') \<and>
    src_net s' = src_net s @ replicate (length (beat_times (last_heartbeat s) evs)) (header_bytes heartbeat_header) \<and>
    last_heartbeat s' = last (last_heartbeat s # beat_times (last_heartbeat s) evs) \<and>
    frame_vars s' = frame_vars s \<and> (pending_resync s' \<longleftrightarrow> pending_resync s \<or> (\<exists>ev\<in>set evs. ev_cap ev \<noteq> None)) \<and>
    target_supports_delta s' = fold (delta_answer cfg) evs (target_supports_delta s)"
    using assms
  proof (induction evs arbitrary: s)
    case (Cons ev evs)
    then have "idle_env cfg s ev" by simp
    from idle_iteration [OF Cons.prems(1) this] obtain s1 where s1:
      "source_step cfg record_datagram s ev = Inr (Next None, s1)" "wf_source cap s1"
      "src_net s1 = src_net s @ (if beat_due (last_heartbeat s) ev then [header_bytes heartbeat_header] else [])"
      "last_heartbeat s1 = (if beat_due (last_heartbeat s) ev then ev_clock ev At_Heartbeat else last_heartbeat s)"
      "frame_vars s1 = frame_vars s" "pending_resync s1 \<longleftrightarrow> pending_resync s \<or> ev_cap ev \<noteq> None"
      "target_supports_delta s1 = delta_answer cfg ev (target_supports_delta s)" .
    have "last_data s1 = last_data s" using s1(5) by (simp add: frame_vars_def)
    then have "\<forall>e\<in>set evs. idle_env cfg s1 e" using Cons.prems(2) by (simp add: idle_env_def)
    from Cons.IH [OF s1(2) this] obtain s' where
      "source_run cfg record_datagram s1 evs = Inr (replicate (length evs) (Next None), s')"
      "src_net s' = src_net s1 @ replicate (length (beat_times (last_heartbeat s1) evs)) (header_bytes heartbeat_header)"
      "last_heartbeat s' = last (last_heartbeat s1 # beat_times (last_heartbeat s1) evs)"
      "frame_vars s' = frame_vars s1" "pending_resync s' \<longleftrightarrow> pending_resync s1 \<or> (\<exists>ev\<in>set evs. ev_cap ev \<noteq> None)"
      "target_supports_delta s' = fold (delta_answer cfg) evs (target_supports_delta s1)" by blast
    then show ?case using s1 by (cases "beat_due (last_heartbeat s) ev") (auto simp: source_run_def)
  qed (simp add: source_run_def)
  moreover have "successively (\<lambda>a b. a + 1000000 \<le> b) (last_heartbeat s # beat_times (last_heartbeat s) evs) \<and>
      (evs \<noteq> [] \<longrightarrow> \<not> beat_due (last (last_heartbeat s # beat_times (last_heartbeat s) evs)) (last evs))"
    if clock: "\<forall>ev\<in>set evs. ev_clock ev At_Heartbeat_Check \<le> ev_clock ev At_Heartbeat"
  proof -
    have "\<not> beat_due (last (last_heartbeat s # beat_times (last_heartbeat s) (xs @ [ev]))) ev"
      if "evs = xs @ [ev]" for xs ev
      using clock that by (simp add: beat_times_append del: last.simps) (auto simp: beat_due_def)
    then show ?thesis using beat_times_spaced [OF clock] by (cases evs rule: rev_cases) auto
  qed
  ultimately show ?thesis by metis
qed

text \<open>Three idle iterations, at 1.0, 1.5 and 2.0 seconds, the second with a packet: two heartbeats.\<close>

theorem idle_heartbeat_witness:
  "\<exists>s'. source_run demo_config record_datagram (demo_state False 3)
      (map (\<lambda>(now, cap). demo_env\<lparr>ev_ready := False, ev_clock := (\<lambda>_. now), ev_cap := cap\<rparr>)
        [(1000000, None), (1500000, Some [1, 1]), (2000000, None)]) = Inr (replicate 3 (Next None), s') \<and>
    src_net s' = replicate 2 (header_bytes heartbeat_header) \<and> last_heartbeat s' = 2000000 \<and>
    pending_resync s' \<and> target_supports_delta s'"
proof -
  let ?evs = "map (\<lambda>(now, cap). demo_env\<lparr>ev_ready := False, ev_clock := (\<lambda>_. now), ev_cap := cap\<rparr>)
      [(1000000, None), (1500000, Some [1, 1]), (2000000, None)]"
  have "\<forall>ev\<in>set ?evs. idle_env demo_config (demo_state False 3) ev"
    by (simp add: idle_env_def demo_env_def demo_config_def demo_state_def source_start_def elapsed_def)
  from idle_heartbeat [OF wf_demo_state this] show ?thesis
    by (auto simp: beat_due_def delta_answer_def demo_env_def demo_config_def demo_state_def source_start_def
        elapsed_def numeral_2_eq_2 numeral_3_eq_3)
qed

end
