(* ===== verification/Ibt_Writer.thy ===== *)
theory Ibt_Writer
  imports Telemetry_Map Machine
begin

text \<open>
  The \<open>.ibt\<close> disk-file writer (\<open>ibt_writer.rs\<close>): the layout of the reconstructed map, the
  static prefix of a file, and the writer that appends one row per tick. A file is its bytes and
  a position; what the operating system answers (directory, open, write, seek, flush, wall clock)
  is an argument. Floating-point session times are the 64-bit patterns of the code, compared as
  IEEE 754 compares them. File names are the pairs \<open>(stamp, i)\<close> they are printed from.
\<close>

section \<open>Constants and fields\<close>

definition DISK_SUBHEADER_SIZE :: nat where
  "DISK_SUBHEADER_SIZE = 32"

definition VARHEADER_SIZE :: nat where
  "VARHEADER_SIZE = 144"

definition STATUS_CONNECTED :: i32 where
  "STATUS_CONNECTED = 1"

definition IRSDK_VER :: i32 where
  "IRSDK_VER = 2"

lemmas ibt_consts = DISK_SUBHEADER_SIZE_def VARHEADER_SIZE_def IRSDK_HEADER_SIZE_def

definition rd_i32 :: "byte list \<Rightarrow> nat \<Rightarrow> i32 rust" where
  "rd_i32 b off =
     rbind (index off b) (\<lambda>b0. rbind (index (off + 1) b) (\<lambda>b1.
     rbind (index (off + 2) b) (\<lambda>b2. rbind (index (off + 3) b) (\<lambda>b3.
     Inr (of_le [b0, b1, b2, b3])))))"

text \<open>\<open>f64\<close> comparison on bit patterns.\<close>

definition f64_nan :: "u64 \<Rightarrow> bool" where
  "f64_nan w \<longleftrightarrow> 0x7FF0000000000000 < w AND mask 63"

definition f64_key :: "u64 \<Rightarrow> int" where
  "f64_key w = (if bit w 63 then - uint (w AND mask 63) else uint (w AND mask 63))"

definition f64_gt :: "u64 \<Rightarrow> u64 \<Rightarrow> bool" where
  "f64_gt a b \<longleftrightarrow> \<not> f64_nan a \<and> \<not> f64_nan b \<and> f64_key b < f64_key a"

section \<open>The layout of the live map\<close>

text \<open>\<open>iter().position(|&c| c == 0).unwrap_or(len)\<close>\<close>

definition name_bytes :: "byte list \<Rightarrow> byte list" where
  "name_bytes nb = takeWhile (\<lambda>c. c \<noteq> 0) nb"

function find_var_from ::
  "byte list \<Rightarrow> nat \<Rightarrow> nat \<Rightarrow> byte list \<Rightarrow> nat \<Rightarrow> (nat \<times> i32) option rust" where
  "find_var_from d vh_off num_vars name i =
     (if num_vars \<le> i then Inr None
      else
        let base = uadd vh_off (umul i VARHEADER_SIZE) in
        if length d < uadd base VARHEADER_SIZE then Inr None
        else
          rbind (slice (uadd base 16) (uadd base 48) d) (\<lambda>nb.
          if name_bytes nb = name then
            rbind (rd_i32 d (uadd base 4)) (\<lambda>row_off.
            rbind (rd_i32 d base) (\<lambda>vtype. Inr (Some (usize_of_i32 row_off, vtype))))
          else find_var_from d vh_off num_vars name (Suc i)))"
  by pat_completeness auto
termination by (relation "measure (\<lambda>(d, vh_off, num_vars, name, i). num_vars - i)") auto

declare find_var_from.simps [simp del]

definition find_var :: "byte list \<Rightarrow> nat \<Rightarrow> nat \<Rightarrow> byte list \<Rightarrow> (nat \<times> i32) option rust" where
  "find_var d vh_off num_vars name = find_var_from d vh_off num_vars name 0"

text \<open>The ASCII bytes of the two names.\<close>

definition SESSION_TIME :: "byte list" where
  "SESSION_TIME = [83, 101, 115, 115, 105, 111, 110, 84, 105, 109, 101]"

definition LAP :: "byte list" where
  "LAP = [76, 97, 112]"

record map_layout =
  lay_ver :: i32
  lay_tick_rate :: i32
  lay_session_info_update :: i32
  lay_num_vars :: nat
  lay_buf_len :: nat
  lay_vh_off :: nat
  lay_si_off :: nat
  lay_si_len :: nat
  lay_session_time_row_off :: "nat option"
  lay_lap_row_off :: "nat option"

definition parse_layout :: "byte list \<Rightarrow> map_layout option rust" where
  "parse_layout d =
     (if length d < IRSDK_HEADER_SIZE then Inr None
      else
        rbind (rd_i32 d 4) (\<lambda>status.
        if status AND STATUS_CONNECTED = 0 then Inr None
        else
          rbind (rd_i32 d 24) (\<lambda>nv. rbind (rd_i32 d 36) (\<lambda>bl. rbind (rd_i32 d 28) (\<lambda>vh.
          rbind (rd_i32 d 20) (\<lambda>so. rbind (rd_i32 d 16) (\<lambda>sl.
          let num_vars = usize_of_i32 nv; buf_len = usize_of_i32 bl; vh_off = usize_of_i32 vh;
              si_off = usize_of_i32 so; si_len = usize_of_i32 sl
          in if num_vars = 0 \<or> buf_len = 0 \<or> si_len = 0 then Inr None
             else if length d < uadd vh_off (umul num_vars VARHEADER_SIZE) \<or> length d < uadd si_off si_len
             then Inr None
             else
               rbind (find_var d vh_off num_vars SESSION_TIME) (\<lambda>st.
               rbind (find_var d vh_off num_vars LAP) (\<lambda>lp.
               rbind (rd_i32 d 0) (\<lambda>ver. rbind (rd_i32 d 8) (\<lambda>rate. rbind (rd_i32 d 12) (\<lambda>upd.
               Inr (Some \<lparr>lay_ver = ver, lay_tick_rate = rate, lay_session_info_update = upd,
                 lay_num_vars = num_vars, lay_buf_len = buf_len, lay_vh_off = vh_off,
                 lay_si_off = si_off, lay_si_len = si_len,
                 lay_session_time_row_off = map_option fst st,
                 lay_lap_row_off = map_option fst lp\<rparr>)))))))))))))"

section \<open>The static prefix of a file\<close>

definition header_fields :: "map_layout \<Rightarrow> nat \<Rightarrow> nat \<Rightarrow> (nat \<times> i32) list" where
  "header_fields lay si_disk_off buf_off =
     [(0, if lay_ver lay \<noteq> 0 then lay_ver lay else IRSDK_VER), (4, STATUS_CONNECTED),
      (8, if lay_tick_rate lay \<noteq> 0 then lay_tick_rate lay else 60),
      (12, lay_session_info_update lay), (16, of_nat (lay_si_len lay)), (20, of_nat si_disk_off),
      (24, of_nat (lay_num_vars lay)), (28, of_nat (IRSDK_HEADER_SIZE + DISK_SUBHEADER_SIZE)),
      (32, 1), (36, of_nat (lay_buf_len lay)), (48, 0), (52, of_nat buf_off)]"

definition put_fields :: "(nat \<times> i32) list \<Rightarrow> byte list \<Rightarrow> byte list" where
  "put_fields fs hdr = fold (\<lambda>(off, v). blit off (le_bytes 4 v)) fs hdr"

definition build_prefix :: "byte list \<Rightarrow> map_layout \<Rightarrow> u64 \<Rightarrow> byte list rust" where
  "build_prefix d lay start_date =
     (let si_disk_off = uadd (IRSDK_HEADER_SIZE + DISK_SUBHEADER_SIZE) (umul (lay_num_vars lay) VARHEADER_SIZE);
          buf_off = uadd si_disk_off (lay_si_len lay)
      in if 2 ^ 63 \<le> buf_off then Inl Capacity_Overflow
         else
           let hdr = put_fields (header_fields lay si_disk_off buf_off) (replicate IRSDK_HEADER_SIZE 0);
               sub = le_bytes 8 start_date @ le_bytes 8 (0 :: u64) @ le_bytes 8 (0 :: u64)
                 @ le_bytes 4 (0 :: i32) @ le_bytes 4 (0 :: i32)
           in rbind (slice (lay_vh_off lay) (uadd (lay_vh_off lay) (umul (lay_num_vars lay) VARHEADER_SIZE)) d) (\<lambda>vars.
              rbind (slice (lay_si_off lay) (uadd (lay_si_off lay) (lay_si_len lay)) d) (\<lambda>yaml.
              Inr (hdr @ sub @ vars @ yaml))))"

definition subheader_bytes :: "u64 \<Rightarrow> u64 \<Rightarrow> u64 \<Rightarrow> i32 \<Rightarrow> i32 \<Rightarrow> byte list" where
  "subheader_bytes start_date start_t end_t laps records =
     le_bytes 8 start_date @ le_bytes 8 start_t @ le_bytes 8 end_t @ le_bytes 4 laps @ le_bytes 4 records"

section \<open>Files\<close>

record disk_file =
  file_bytes :: "byte list"
  file_pos :: nat

text \<open>\<open>write_all\<close>: \<open>None\<close> when it succeeds, \<open>Some k\<close> when it fails after \<open>k\<close> bytes.\<close>

definition write_all :: "nat option \<Rightarrow> byte list \<Rightarrow> disk_file \<Rightarrow> bool \<times> disk_file" where
  "write_all fault bs f =
     (let w = (case fault of None \<Rightarrow> bs | Some k \<Rightarrow> take k bs)
      in (fault = None, f\<lparr>file_bytes := blit (file_pos f) w (file_bytes f), file_pos := file_pos f + length w\<rparr>))"

datatype open_outcome = Created | Already_Exists | Open_Failed

record ibt_io =
  io_now :: u64
  io_mkdir :: bool
  io_open :: "nat \<Rightarrow> open_outcome"
  io_prefix :: "nat option"
  io_row :: "nat option"
  io_seek1 :: bool
  io_tick :: "nat option"
  io_seek2 :: bool
  io_sub :: "nat option"

record open_ibt =
  ibt_file :: disk_file
  ibt_layout :: map_layout
  start_date :: u64
  record_count :: i32
  start_time :: u64
  end_time :: u64
  lap_count :: i32
  last_lap :: i32
  row_tick :: i32

text \<open>The writer: its open file, and the files it has left in its directory.\<close>

record ibt_writer =
  ibt_open :: "open_ibt option"
  ibt_disk :: "byte list list"

definition ibt_new :: ibt_writer where
  "ibt_new = \<lparr>ibt_open = None, ibt_disk = []\<rparr>"

text \<open>\<open>open_unique\<close>: the number of the first name that could be created.\<close>

fun open_unique :: "(nat \<Rightarrow> open_outcome) \<Rightarrow> nat list \<Rightarrow> nat option" where
  "open_unique outcome [] = None"
| "open_unique outcome (i # is) = (case outcome i of
      Created \<Rightarrow> Some i
    | Already_Exists \<Rightarrow> open_unique outcome is
    | Open_Failed \<Rightarrow> None)"

section \<open>The writer's operations\<close>

definition finish :: "ibt_io \<Rightarrow> ibt_writer \<Rightarrow> ibt_writer" where
  "finish io w = (case ibt_open w of
      None \<Rightarrow> w
    | Some op \<Rightarrow>
        let sub = subheader_bytes (start_date op) (start_time op) (end_time op) (lap_count op) (record_count op);
            final_tick = (if 0 < sint (record_count op) \<and> row_tick op \<noteq> I32_MIN then row_tick op else 0);
            f0 = ibt_file op;
            f1 = (if io_seek1 io then
                    let (ok1, g1) = write_all (io_tick io) (le_bytes 4 final_tick) (f0\<lparr>file_pos := 48\<rparr>)
                    in if ok1 \<and> io_seek2 io
                       then snd (write_all (io_sub io) sub (g1\<lparr>file_pos := IRSDK_HEADER_SIZE\<rparr>))
                       else g1
                  else f0)
        in w\<lparr>ibt_open := None, ibt_disk := ibt_disk w @ [file_bytes f1]\<rparr>)"

definition start_session :: "ibt_io \<Rightarrow> byte list \<Rightarrow> map_layout \<Rightarrow> ibt_writer \<Rightarrow> ibt_writer rust" where
  "start_session io d lay w =
     (if \<not> io_mkdir io then Inr w
      else case open_unique (io_open io) [0..<100] of
        None \<Rightarrow> Inr w
      | Some _ \<Rightarrow>
          rbind (build_prefix d lay (io_now io)) (\<lambda>prefix.
          let (ok, f) = write_all (io_prefix io) prefix \<lparr>file_bytes = [], file_pos = 0\<rparr>
          in if \<not> ok then Inr (w\<lparr>ibt_disk := ibt_disk w @ [file_bytes f]\<rparr>)
             else Inr (w\<lparr>ibt_open := Some \<lparr>ibt_file = f, ibt_layout = lay, start_date = io_now io,
                    record_count = 0, start_time = 0, end_time = 0, lap_count = 0,
                    last_lap = I32_MIN, row_tick = I32_MIN\<rparr>\<rparr>)))"

definition track_time :: "byte list \<Rightarrow> open_ibt \<Rightarrow> open_ibt rust" where
  "track_time row op = (case lay_session_time_row_off (ibt_layout op) of
      None \<Rightarrow> Inr op
    | Some off \<Rightarrow>
        if uadd off 8 \<le> length row then
          rbind (slice off (uadd off 8) row) (\<lambda>bs.
          let t = of_le bs
          in Inr (if record_count op = 1 then op\<lparr>start_time := t, end_time := t\<rparr>
                  else if f64_gt t (end_time op) then op\<lparr>end_time := t\<rparr> else op))
        else Inr op)"

definition track_lap :: "byte list \<Rightarrow> open_ibt \<Rightarrow> open_ibt rust" where
  "track_lap row op = (case lay_lap_row_off (ibt_layout op) of
      None \<Rightarrow> Inr op
    | Some off \<Rightarrow>
        if uadd off 4 \<le> length row then
          rbind (rd_i32 row off) (\<lambda>lap.
          let op1 = (if record_count op = 1 then op\<lparr>last_lap := lap - 1\<rparr> else op)
          in Inr (if sint (last_lap op1) < sint lap
                  then op1\<lparr>lap_count := lap_count op1 + 1, last_lap := lap\<rparr> else op1))
        else Inr op)"

definition append_row :: "ibt_io \<Rightarrow> byte list \<Rightarrow> ibt_writer \<Rightarrow> ibt_writer rust" where
  "append_row io d w = (case ibt_open w of
      None \<Rightarrow> Inr w
    | Some op0 \<Rightarrow>
        rbind (active_varbuf d) (\<lambda>active.
        case active of
          None \<Rightarrow> Inr w
        | Some (tick, buf_off) \<Rightarrow>
            if tick = row_tick op0 then Inr w
            else
              let op = op0\<lparr>row_tick := tick\<rparr>; stop = uadd buf_off (lay_buf_len (ibt_layout op))
              in if length d < stop then Inr (w\<lparr>ibt_open := Some op\<rparr>)
                 else
                   rbind (slice buf_off stop d) (\<lambda>row.
                   let (ok, f) = write_all (io_row io) row (ibt_file op); op1 = op\<lparr>ibt_file := f\<rparr>
                   in if \<not> ok then Inr (w\<lparr>ibt_open := Some op1\<rparr>)
                      else
                        rbind (track_time row (op1\<lparr>record_count := record_count op1 + 1\<rparr>)) (\<lambda>op2.
                        rbind (track_lap row op2) (\<lambda>op3. Inr (w\<lparr>ibt_open := Some op3\<rparr>))))))"

definition on_map_update :: "byte list \<Rightarrow> ibt_io \<Rightarrow> ibt_writer \<Rightarrow> ibt_writer rust" where
  "on_map_update d io w =
     rbind (parse_layout d) (\<lambda>lay.
     case lay of
       None \<Rightarrow> Inr w
     | Some l \<Rightarrow>
         let w1 = (case ibt_open w of
                     Some op \<Rightarrow> if lay_session_info_update (ibt_layout op) \<noteq> lay_session_info_update l
                                then finish io w else w
                   | None \<Rightarrow> w)
         in rbind (if ibt_open w1 = None then start_session io d l w1 else Inr w1) (append_row io d))"

end
