(* ===== verification/Ibt_Layout.thy ===== *)
theory Ibt_Layout
  imports Ibt_Writer
begin

text \<open>
  The layout of a map and the prefix of a disk file: what \<open>find_var\<close>, \<open>parse_layout\<close> and
  \<open>build_prefix\<close> compute on headers without negative fields, and the round trip through the file.
\<close>

section \<open>Reading\<close>

lemma drop4:
  assumes "off + 4 \<le> length b"
  shows "take 4 (drop off b) = [b ! off, b ! (off + 1), b ! (off + 2), b ! (off + 3)]"
proof (rule nth_equalityI)
  fix i assume "i < length (take 4 (drop off b))"
  then have "i = 0 \<or> i = 1 \<or> i = 2 \<or> i = 3" by auto
  then show "take 4 (drop off b) ! i = [b ! off, b ! (off + 1), b ! (off + 2), b ! (off + 3)] ! i"
    using assms by auto
qed (use assms in simp)

lemma rd_i32_ok [panic_free]: "off + 4 \<le> length b \<Longrightarrow> rd_i32 b off = Inr (i32_at b off)"
  using drop4 [of off b] by (simp add: rd_i32_def index_ok i32_at_def)

lemma i32_at_window:
  "take 4 (drop a d) = take 4 (drop b e) \<Longrightarrow> i32_at d a = i32_at e b"
  by (simp add: i32_at_def)

lemma i32_at_le_bytes: "take 4 (drop a d) = le_bytes 4 v \<Longrightarrow> i32_at d a = v"
  by (simp add: i32_at_def)

section \<open>Variables by name\<close>

definition var_name :: "byte list \<Rightarrow> nat \<Rightarrow> byte list" where
  "var_name d base = name_bytes (take 32 (drop (base + 16) d))"

definition var_entry :: "byte list \<Rightarrow> nat \<Rightarrow> nat \<times> i32" where
  "var_entry d base = (usize_of_i32 (i32_at d (base + 4)), i32_at d base)"

lemma find_var_from_eq:
  assumes "vh + nv * 144 \<le> length d" "length d < 2 ^ 63"
  shows "find_var_from d vh nv name i =
    Inr (map_option (\<lambda>j. var_entry d (vh + j * 144)) (find (\<lambda>j. var_name d (vh + j * 144) = name) [i..<nv]))"
proof (induction "nv - i" arbitrary: i)
  case 0
  then show ?case by (subst find_var_from.simps) simp
next
  case (Suc m)
  then have i: "i < nv" by simp
  let ?b = "vh + i * 144"
  have le: "?b + 144 \<le> length d"
  proof -
    have "Suc i * 144 \<le> nv * 144" using i by (intro mult_right_mono) simp_all
    with assms(1) show ?thesis by simp
  qed
  have base: "umul i VARHEADER_SIZE = i * 144" "uadd vh (i * 144) = ?b" "uadd ?b VARHEADER_SIZE = ?b + 144"
    "uadd ?b 16 = ?b + 16" "uadd ?b 48 = ?b + 48" "uadd ?b 4 = ?b + 4"
    using le assms(2) by (simp_all add: VARHEADER_SIZE_def)
  have sl: "slice (?b + 16) (?b + 48) d = Inr (take 32 (drop (?b + 16) d))"
    using le by (simp add: slice_ok)
  have "find_var_from d vh nv name (Suc i) = Inr (map_option (\<lambda>j. var_entry d (vh + j * 144))
      (find (\<lambda>j. var_name d (vh + j * 144) = name) [Suc i..<nv]))"
    using Suc by (intro Suc.hyps(1)) simp
  moreover have "[i..<nv] = i # [Suc i..<nv]" using i by (simp add: upt_conv_Cons)
  ultimately show ?case using i le
    by (subst find_var_from.simps)
      (simp add: base sl rd_i32_ok var_entry_def Let_def, simp add: var_name_def)
qed

lemma find_var_eq:
  assumes "vh + nv * 144 \<le> length d" "length d < 2 ^ 63"
  shows "find_var d vh nv name =
    Inr (map_option (\<lambda>j. var_entry d (vh + j * 144)) (find (\<lambda>j. var_name d (vh + j * 144) = name) [0..<nv]))"
  unfolding find_var_def by (rule find_var_from_eq [OF assms])

section \<open>Parsing\<close>

definition layout_nonneg :: "byte list \<Rightarrow> bool" where
  "layout_nonneg d \<longleftrightarrow> 0 \<le> sint (i32_at d 16) \<and> 0 \<le> sint (i32_at d 20) \<and> 0 \<le> sint (i32_at d 24) \<and>
     0 \<le> sint (i32_at d 28) \<and> 0 \<le> sint (i32_at d 36)"

abbreviation field :: "byte list \<Rightarrow> nat \<Rightarrow> nat" where
  "field d off \<equiv> nat (sint (i32_at d off))"

definition connected_map :: "byte list \<Rightarrow> bool" where
  "connected_map d \<longleftrightarrow> 112 \<le> length d \<and> i32_at d 4 AND STATUS_CONNECTED \<noteq> 0 \<and>
     field d 24 \<noteq> 0 \<and> field d 36 \<noteq> 0 \<and> field d 16 \<noteq> 0 \<and>
     field d 28 + field d 24 * 144 \<le> length d \<and> field d 20 + field d 16 \<le> length d"

definition row_off_of :: "byte list \<Rightarrow> nat \<Rightarrow> nat \<Rightarrow> byte list \<Rightarrow> nat option" where
  "row_off_of d vh nv name =
     map_option (\<lambda>j. fst (var_entry d (vh + j * 144))) (find (\<lambda>j. var_name d (vh + j * 144) = name) [0..<nv])"

definition layout_of :: "byte list \<Rightarrow> map_layout" where
  "layout_of d = \<lparr>lay_ver = i32_at d 0, lay_tick_rate = i32_at d 8, lay_session_info_update = i32_at d 12,
     lay_num_vars = field d 24, lay_buf_len = field d 36, lay_vh_off = field d 28,
     lay_si_off = field d 20, lay_si_len = field d 16,
     lay_session_time_row_off = row_off_of d (field d 28) (field d 24) SESSION_TIME,
     lay_lap_row_off = row_off_of d (field d 28) (field d 24) LAP\<rparr>"

lemma field_less: "field d off < 2 ^ 31"
  using sint_lt [of "i32_at d off"] by (simp add: nat_less_iff)

lemma parse_layout_eq:
  assumes "layout_nonneg d" "length d < 2 ^ 63"
  shows "parse_layout d = Inr (if connected_map d then Some (layout_of d) else None)"
proof (cases "112 \<le> length d \<and> i32_at d 4 AND STATUS_CONNECTED \<noteq> 0")
  case False
  then show ?thesis by (auto simp: parse_layout_def connected_map_def IRSDK_HEADER_SIZE_def rd_i32_ok)
next
  case True
  then have l: "112 \<le> length d" by simp
  have u: "usize_of_i32 (i32_at d 16) = field d 16" "usize_of_i32 (i32_at d 20) = field d 20"
    "usize_of_i32 (i32_at d 24) = field d 24" "usize_of_i32 (i32_at d 28) = field d 28"
    "usize_of_i32 (i32_at d 36) = field d 36"
    using assms(1) by (simp_all add: layout_nonneg_def usize_of_i32_nonneg)
  have "field d 24 * 144 < 2 ^ 31 * 144" using field_less [of d 24] by simp
  then have a: "umul (field d 24) VARHEADER_SIZE = field d 24 * 144"
    "uadd (field d 28) (field d 24 * 144) = field d 28 + field d 24 * 144"
    "uadd (field d 20) (field d 16) = field d 20 + field d 16"
    using field_less [of d 28] field_less [of d 20] field_less [of d 16] by (simp_all add: VARHEADER_SIZE_def)
  show ?thesis
  proof (cases "connected_map d")
    case True
    then have "field d 28 + field d 24 * 144 \<le> length d" by (simp add: connected_map_def)
    note fv = find_var_eq [OF this assms(2)]
    from True l fv [of SESSION_TIME] fv [of LAP] show ?thesis
      by (simp add: parse_layout_def IRSDK_HEADER_SIZE_def rd_i32_ok u a connected_map_def layout_of_def
          row_off_of_def option.map_comp comp_def Let_def)
  next
    case False
    with True l show ?thesis
      by (simp add: parse_layout_def IRSDK_HEADER_SIZE_def rd_i32_ok u a connected_map_def Let_def)
        linarith
  qed
qed

section \<open>The prefix of a file\<close>

lemma i32_at_blit_same [simp]:
  "off + 4 \<le> length h \<Longrightarrow> i32_at (blit off (le_bytes 4 v) h) off = v"
  using blit_window [of off "le_bytes 4 v" h] by (intro i32_at_le_bytes) simp

lemma i32_at_blit_other [simp]:
  "off + 4 \<le> length h \<Longrightarrow> n + 4 \<le> off \<or> off + 4 \<le> n \<Longrightarrow> i32_at (blit off (le_bytes 4 v) h) n = i32_at h n"
  using blit_frame_before [of off "le_bytes 4 v" h n 4] blit_frame_after [of off "le_bytes 4 v" h n 4]
  by (auto intro: i32_at_window)

lemma i32_at_append: "n + 4 \<le> length xs \<Longrightarrow> i32_at (xs @ ys) n = i32_at xs n"
  by (simp add: i32_at_def)

definition file_header :: "map_layout \<Rightarrow> nat \<Rightarrow> nat \<Rightarrow> byte list" where
  "file_header lay si_off buf_off = put_fields (header_fields lay si_off buf_off) (replicate IRSDK_HEADER_SIZE 0)"

lemma length_file_header [simp]: "length (file_header lay si_off buf_off) = 112"
  by (simp add: file_header_def put_fields_def header_fields_def IRSDK_HEADER_SIZE_def)

lemma file_header_fields:
  "i32_at (file_header lay si_off buf_off) 0 = (if lay_ver lay \<noteq> 0 then lay_ver lay else IRSDK_VER)"
  "i32_at (file_header lay si_off buf_off) 4 = STATUS_CONNECTED"
  "i32_at (file_header lay si_off buf_off) 8 = (if lay_tick_rate lay \<noteq> 0 then lay_tick_rate lay else 60)"
  "i32_at (file_header lay si_off buf_off) 12 = lay_session_info_update lay"
  "i32_at (file_header lay si_off buf_off) 16 = of_nat (lay_si_len lay)"
  "i32_at (file_header lay si_off buf_off) 20 = of_nat si_off"
  "i32_at (file_header lay si_off buf_off) 24 = of_nat (lay_num_vars lay)"
  "i32_at (file_header lay si_off buf_off) 28 = 144"
  "i32_at (file_header lay si_off buf_off) 32 = 1"
  "i32_at (file_header lay si_off buf_off) 36 = of_nat (lay_buf_len lay)"
  "i32_at (file_header lay si_off buf_off) 48 = 0"
  "i32_at (file_header lay si_off buf_off) 52 = of_nat buf_off"
  by (simp_all add: file_header_def put_fields_def header_fields_def ibt_consts)

definition prefix_of :: "byte list \<Rightarrow> map_layout \<Rightarrow> u64 \<Rightarrow> byte list" where
  "prefix_of d lay date =
     file_header lay (144 + lay_num_vars lay * 144) (144 + lay_num_vars lay * 144 + lay_si_len lay)
     @ subheader_bytes date 0 0 0 0
     @ take (lay_num_vars lay * 144) (drop (lay_vh_off lay) d)
     @ take (lay_si_len lay) (drop (lay_si_off lay) d)"

lemma length_subheader_bytes [simp]: "length (subheader_bytes a b c e f) = 32"
  by (simp add: subheader_bytes_def)

definition layout_fits :: "byte list \<Rightarrow> map_layout \<Rightarrow> bool" where
  "layout_fits d lay \<longleftrightarrow> lay_vh_off lay + lay_num_vars lay * 144 \<le> length d \<and>
     lay_si_off lay + lay_si_len lay \<le> length d \<and> length d \<le> MAX_TELEMETRY_SIZE"

lemma build_prefix_eq:
  assumes "layout_fits d lay"
  shows "build_prefix d lay date = Inr (prefix_of d lay date)"
proof -
  let ?n = "lay_num_vars lay" and ?l = "lay_si_len lay"
  have b: "lay_vh_off lay + ?n * 144 \<le> 2097152" "lay_si_off lay + ?l \<le> 2097152"
    using assms by (auto simp: layout_fits_def MAX_TELEMETRY_SIZE_def)
  then have a: "umul ?n VARHEADER_SIZE = ?n * 144"
    "uadd (IRSDK_HEADER_SIZE + DISK_SUBHEADER_SIZE) (?n * 144) = 144 + ?n * 144"
    "uadd (144 + ?n * 144) ?l = 144 + ?n * 144 + ?l"
    "uadd (lay_vh_off lay) (?n * 144) = lay_vh_off lay + ?n * 144"
    "uadd (lay_si_off lay) ?l = lay_si_off lay + ?l"
    by (simp_all add: ibt_consts)
  have "\<not> 2 ^ 63 \<le> 144 + ?n * 144 + ?l" using b by simp
  moreover have "slice (lay_vh_off lay) (lay_vh_off lay + ?n * 144) d = Inr (take (?n * 144) (drop (lay_vh_off lay) d))"
    "slice (lay_si_off lay) (lay_si_off lay + ?l) d = Inr (take ?l (drop (lay_si_off lay) d))"
    using assms by (simp_all add: layout_fits_def slice_ok)
  ultimately show ?thesis
    by (simp add: build_prefix_def prefix_of_def a file_header_def subheader_bytes_def Let_def del: of_nat_add)
qed

lemma length_prefix_of:
  "layout_fits d lay \<Longrightarrow> length (prefix_of d lay date) = 144 + lay_num_vars lay * 144 + lay_si_len lay"
  by (auto simp: prefix_of_def layout_fits_def min_def)

lemma prefix_vars_window:
  assumes "layout_fits d lay" "a + n \<le> lay_num_vars lay * 144"
  shows "take n (drop (144 + a) (prefix_of d lay date @ rest)) = take n (drop (lay_vh_off lay + a) d)"
proof -
  have l: "length (take (lay_num_vars lay * 144) (drop (lay_vh_off lay) d)) = lay_num_vars lay * 144"
    using assms(1) by (auto simp: layout_fits_def min_def)
  have "take n (drop (144 + a) (prefix_of d lay date @ rest)) =
      take n (drop a (take (lay_num_vars lay * 144) (drop (lay_vh_off lay) d)))"
    using l assms(2) by (simp add: prefix_of_def)
  also have "\<dots> = take n (drop (lay_vh_off lay + a) d)"
    using assms(2) by (simp add: drop_take add.commute min_def)
  finally show ?thesis .
qed

lemma of_nat_field:
  "n < 2 ^ 31 \<Longrightarrow> sint (of_nat n :: i32) = int n"
  by (simp add: signed_of_nat signed_take_bit_int_eq_self)

section \<open>The file is itself a map\<close>

lemma row_off_of_window:
  assumes "take (nv * 144) (drop a x) = take (nv * 144) (drop b y)"
  shows "row_off_of x a nv name = row_off_of y b nv name"
proof -
  have w: "take n (drop (a + j * 144 + k) x) = take n (drop (b + j * 144 + k) y)"
    if "j < nv" "k + n \<le> 144" for j k n
  proof -
    have "Suc j * 144 \<le> nv * 144" using that(1) by (intro mult_le_mono1) simp
    then have "n \<le> nv * 144 - (j * 144 + k)" using that(2) by simp
    then have *: "take n (drop (j * 144 + k) (take (nv * 144) zs)) = take n (drop (j * 144 + k) zs)" for zs :: "byte list"
      by (simp add: drop_take min_def)
    have "take n (drop (j * 144 + k) (drop a x)) = take n (drop (j * 144 + k) (drop b y))"
      using * [of "drop a x"] * [of "drop b y"] assms by simp
    then show ?thesis by (simp add: add.commute add.left_commute)
  qed
  have "var_name x (a + j * 144) = var_name y (b + j * 144)" if "j < nv" for j
    using w [OF that, of 16 32] by (simp add: var_name_def)
  then have "find (\<lambda>j. var_name x (a + j * 144) = name) [0..<nv] =
      find (\<lambda>j. var_name y (b + j * 144) = name) [0..<nv]"
    by (intro find_cong) auto
  moreover have "fst (var_entry x (a + j * 144)) = fst (var_entry y (b + j * 144))" if "j < nv" for j
    using i32_at_window [OF w [OF that, of 4 4]] by (simp add: var_entry_def)
  moreover have "j < nv" if "find P [0..<nv] = Some j" for P j
    using that by (auto simp: find_Some_iff)
  ultimately show ?thesis by (auto simp: row_off_of_def intro: option.map_cong0)
qed

lemma row_off_of_file:
  assumes "layout_fits d lay" "lay_num_vars lay = nv" "lay_vh_off lay = vh"
  shows "row_off_of (prefix_of d lay date @ rest) 144 nv name = row_off_of d vh nv name"
  using prefix_vars_window [OF assms(1), of 0 "nv * 144" date rest] assms(2,3)
  by (intro row_off_of_window) simp

lemma parsed_layout:
  assumes "parse_layout d = Inr (Some lay)" "layout_nonneg d" "length d \<le> MAX_TELEMETRY_SIZE"
  shows "connected_map d" "lay = layout_of d" "layout_fits d lay" "lay_num_vars lay < 2 ^ 31"
    "lay_si_len lay < 2 ^ 31" "lay_buf_len lay < 2 ^ 31" "lay_num_vars lay \<noteq> 0" "lay_buf_len lay \<noteq> 0"
    "lay_si_len lay \<noteq> 0"
proof -
  have "length d < 2 ^ 63" using assms(3) by (simp add: MAX_TELEMETRY_SIZE_def)
  with assms show c: "connected_map d" and l: "lay = layout_of d"
    by (simp_all add: parse_layout_eq split: if_splits)
  show "layout_fits d lay" "lay_num_vars lay \<noteq> 0" "lay_buf_len lay \<noteq> 0" "lay_si_len lay \<noteq> 0"
    using c assms(3) by (simp_all add: l layout_of_def layout_fits_def connected_map_def)
  show "lay_num_vars lay < 2 ^ 31" "lay_si_len lay < 2 ^ 31" "lay_buf_len lay < 2 ^ 31"
    using field_less by (simp_all add: l layout_of_def)
qed

text \<open>C19: The prefix of a disk file is the documented layout (header, sub-header, variable
  headers, session YAML, in 144 plus 144 per variable plus the YAML's bytes), copies the
  variable headers and the YAML verbatim, and is itself a parsable map. For a live map that parses,
  with no negative header field and no more bytes than the program's map, the prefix followed by
  any rows parses to the live map's layout with the offsets moved and with a version of 0 replaced
  by 2 and a tick rate of 0 by 60; the rows of the variables found by name are the same, there is
  one ring slot, and its buffer offset points at the first row.\<close>

theorem ibt_prefix_roundtrip:
  assumes "parse_layout d = Inr (Some lay)" "layout_nonneg d" "length d \<le> MAX_TELEMETRY_SIZE"
    and "length rows < 2 ^ 62"
  shows "\<exists>prefix. build_prefix d lay date = Inr prefix \<and>
    length prefix = 144 + lay_num_vars lay * 144 + lay_si_len lay \<and>
    take (lay_num_vars lay * 144) (drop 144 prefix) = take (lay_num_vars lay * 144) (drop (lay_vh_off lay) d) \<and>
    drop (144 + lay_num_vars lay * 144) prefix = take (lay_si_len lay) (drop (lay_si_off lay) d) \<and>
    parse_layout (prefix @ rows) = Inr (Some (lay
      \<lparr>lay_ver := if lay_ver lay \<noteq> 0 then lay_ver lay else 2,
       lay_tick_rate := if lay_tick_rate lay \<noteq> 0 then lay_tick_rate lay else 60,
       lay_vh_off := 144, lay_si_off := 144 + lay_num_vars lay * 144\<rparr>)) \<and>
    active_varbuf (prefix @ rows) = Inr (Some (0, length prefix))"
proof -
  note P = parsed_layout [OF assms(1-3)]
  let ?p = "prefix_of d lay date" and ?n = "lay_num_vars lay" and ?l = "lay_si_len lay"
  let ?f = "?p @ rows"
  have lp: "length ?p = 144 + ?n * 144 + ?l" by (rule length_prefix_of [OF P(3)])
  have bnd: "144 + ?n * 144 + ?l < 2 ^ 31" "144 + ?n * 144 < 2 ^ 31"
    using P(3) by (auto simp: layout_fits_def MAX_TELEMETRY_SIZE_def)
  have hd: "i32_at ?f k = i32_at (file_header lay (144 + ?n * 144) (144 + ?n * 144 + ?l)) k" if "k \<le> 108" for k
    using that by (simp add: prefix_of_def i32_at_append)
  note h = hd [of 0] hd [of 4] hd [of 8] hd [of 12] hd [of 16] hd [of 20] hd [of 24] hd [of 28] hd [of 32]
    hd [of 36] hd [of 48] hd [of 52]
  have fields: "i32_at ?f 0 = (if lay_ver lay \<noteq> 0 then lay_ver lay else 2)" "i32_at ?f 4 = 1"
    "i32_at ?f 8 = (if lay_tick_rate lay \<noteq> 0 then lay_tick_rate lay else 60)"
    "i32_at ?f 12 = lay_session_info_update lay"
    "field ?f 16 = ?l" "field ?f 20 = 144 + ?n * 144" "field ?f 24 = ?n" "field ?f 28 = 144"
    "i32_at ?f 32 = 1" "field ?f 36 = lay_buf_len lay" "i32_at ?f 48 = 0"
    "usize_of_i32 (i32_at ?f 52) = 144 + ?n * 144 + ?l" "layout_nonneg ?f"
    using h bnd P(4-6) of_nat_field [OF P(5)] of_nat_field [OF P(4)] of_nat_field [OF P(6)]
      of_nat_field [OF bnd(1)] of_nat_field [OF bnd(2)]
    by (simp_all add: file_header_fields IRSDK_VER_def STATUS_CONNECTED_def layout_nonneg_def
        usize_of_i32_nonneg del: of_nat_add of_nat_mult)
  have "length ?f < 2 ^ 63" using lp bnd assms(4) by simp
  moreover have "connected_map ?f"
    using fields lp P(7-9) by (simp add: connected_map_def STATUS_CONNECTED_def)
  ultimately have "parse_layout ?f = Inr (Some (layout_of ?f))"
    using parse_layout_eq [OF fields(13)] by simp
  moreover have "layout_of ?f = lay
      \<lparr>lay_ver := if lay_ver lay \<noteq> 0 then lay_ver lay else 2,
       lay_tick_rate := if lay_tick_rate lay \<noteq> 0 then lay_tick_rate lay else 60,
       lay_vh_off := 144, lay_si_off := 144 + ?n * 144\<rparr>"
    unfolding layout_of_def fields
    using row_off_of_file [OF P(3) refl refl, of date rows] P(2) by (simp add: layout_of_def)
  moreover have "active_varbuf ?f = Inr (Some (0, length ?p))"
  proof -
    have "112 \<le> length ?f" using lp by simp
    from active_varbuf_eq [OF this] obtain k where "first_max ?f (clamp_i32 1 4 (i32_at ?f 32)) k"
      "active_varbuf ?f = Inr (Some (slot_tick ?f k, slot_off ?f k))" by blast
    moreover from this(1) have "k = 0" using fields(9) by (simp add: clamp_i32_def first_max_def)
    ultimately show ?thesis using fields(11,12) lp by (simp add: slot_tick_def slot_off_def)
  qed
  moreover have "take (?n * 144) (drop 144 ?p) = take (?n * 144) (drop (lay_vh_off lay) d)"
    using prefix_vars_window [OF P(3), of 0 "?n * 144" date "[]"] by simp
  moreover have "drop (144 + ?n * 144) ?p = take ?l (drop (lay_si_off lay) d)"
    using P(3) by (simp add: prefix_of_def layout_fits_def min_def)
  ultimately show ?thesis using build_prefix_eq [OF P(3)] lp by simp
qed

end
