(* ===== verification/Ibt_Session.thy ===== *)
theory Ibt_Session
  imports Ibt_Layout
begin

text \<open>
  The writer over a session: every update of the map is a step, the open file is the prefix and
  one row per tick, and closing it patches two fixed windows.
\<close>

definition ibt_step :: "ibt_writer \<Rightarrow> byte list \<times> ibt_io \<Rightarrow> (unit \<times> ibt_writer) rust" where
  "ibt_step w i = rbind (on_map_update (fst i) (snd i) w) (\<lambda>w'. Inr ((), w'))"

section \<open>Invariant\<close>

definition row_offs_ok :: "map_layout \<Rightarrow> bool" where
  "row_offs_ok lay \<longleftrightarrow> (\<forall>off. lay_session_time_row_off lay = Some off \<or> lay_lap_row_off lay = Some off \<longrightarrow> off < 2 ^ 31)"

definition wf_open :: "open_ibt \<Rightarrow> bool" where
  "wf_open op \<longleftrightarrow> file_pos (ibt_file op) = length (file_bytes (ibt_file op)) \<and>
     row_offs_ok (ibt_layout op) \<and> lay_buf_len (ibt_layout op) < 2 ^ 31"

definition wf_ibt :: "ibt_writer \<Rightarrow> bool" where
  "wf_ibt w \<longleftrightarrow> (\<forall>op. ibt_open w = Some op \<longrightarrow> wf_open op)"

text \<open>The maps the writer is meant for: of the program's size, no negative field, buffer offset
  or row offset.\<close>

definition map_ok :: "byte list \<Rightarrow> bool" where
  "map_ok d \<longleftrightarrow> length d \<le> MAX_TELEMETRY_SIZE \<and> layout_nonneg d \<and> offsets_nonneg d \<and>
     row_offs_ok (layout_of d)"

lemma write_end:
  "file_pos f = length (file_bytes f) \<Longrightarrow> write_all fault bs f =
     (let w = (case fault of None \<Rightarrow> bs | Some k \<Rightarrow> take k bs)
      in (fault = None, f\<lparr>file_bytes := file_bytes f @ w, file_pos := length (file_bytes f) + length w\<rparr>))"
  by (simp add: write_all_def blit_def Let_def)

section \<open>Appending a row\<close>

lemma track_time_ok:
  assumes "row_offs_ok (ibt_layout op)" "length row < 2 ^ 62"
  shows "\<exists>a b. track_time row op = Inr (op\<lparr>start_time := a, end_time := b\<rparr>)"
proof (cases "lay_session_time_row_off (ibt_layout op)")
  case None
  then show ?thesis by (cases op) (simp add: track_time_def)
next
  case (Some off)
  then have "off < 2 ^ 31" using assms(1) unfolding row_offs_ok_def by blast
  then have "uadd off 8 = off + 8" by simp
  then show ?thesis using Some
    by (cases op, cases "off + 8 \<le> length row") (auto simp: track_time_def slice_ok Let_def)
qed

lemma track_lap_ok:
  assumes "row_offs_ok (ibt_layout op)" "length row < 2 ^ 62"
  shows "\<exists>a b. track_lap row op = Inr (op\<lparr>lap_count := a, last_lap := b\<rparr>)"
proof (cases "lay_lap_row_off (ibt_layout op)")
  case None
  then show ?thesis by (cases op) (simp add: track_lap_def)
next
  case (Some off)
  then have "off < 2 ^ 31" using assms(1) unfolding row_offs_ok_def by blast
  then have "uadd off 4 = off + 4" by simp
  then show ?thesis using Some
    by (cases op, cases "off + 4 \<le> length row") (auto simp: track_lap_def rd_i32_ok Let_def)
qed

text \<open>The row and tick of the active buffer.\<close>

definition active_sample :: "byte list \<Rightarrow> i32 \<times> nat" where
  "active_sample d = (case active_varbuf d of Inr (Some s) \<Rightarrow> s | _ \<Rightarrow> (0, 0))"

lemma active_sample_ok:
  assumes "112 \<le> length d" "offsets_nonneg d"
  shows "active_varbuf d = Inr (Some (active_sample d))" "snd (active_sample d) < 2 ^ 31"
proof -
  from active_varbuf_eq [OF assms(1)] obtain k where
    k: "first_max d (clamp_i32 1 4 (i32_at d 32)) k" "active_varbuf d = Inr (Some (slot_tick d k, slot_off d k))"
    by blast
  then show "active_varbuf d = Inr (Some (active_sample d))" by (simp add: active_sample_def)
  have "k < 4" using first_max_bound [OF k(1)] clamp_i32_range [of 1 4 "i32_at d 32"] by auto
  with assms(2) have "0 \<le> sint (i32_at d (48 + k * 16 + 4))" unfolding offsets_nonneg_def by blast
  then show "snd (active_sample d) < 2 ^ 31"
    using k(2) usize_of_i32_lt by (simp add: active_sample_def slot_off_def)
qed

lemma append_row_eq:
  assumes "wf_open op" "112 \<le> length d" "offsets_nonneg d" "length d < 2 ^ 62"
    and "active_sample d = (tick, off)" "ibt_open w = Some op"
  shows "let n = lay_buf_len (ibt_layout op); row = take n (drop off d); f = ibt_file op in
    if tick = row_tick op then append_row io d w = Inr w
    else if length d < off + n then append_row io d w = Inr (w\<lparr>ibt_open := Some (op\<lparr>row_tick := tick\<rparr>)\<rparr>)
    else case io_row io of
        Some k \<Rightarrow> append_row io d w = Inr (w\<lparr>ibt_open := Some (op\<lparr>row_tick := tick,
          ibt_file := f\<lparr>file_bytes := file_bytes f @ take k row, file_pos := length (file_bytes f) + length (take k row)\<rparr>\<rparr>)\<rparr>)
      | None \<Rightarrow> \<exists>a b c e. append_row io d w = Inr (w\<lparr>ibt_open := Some (op\<lparr>row_tick := tick,
          ibt_file := f\<lparr>file_bytes := file_bytes f @ row, file_pos := length (file_bytes f) + length row\<rparr>,
          record_count := record_count op + 1, start_time := a, end_time := b, lap_count := c, last_lap := e\<rparr>)\<rparr>)"
proof -
  let ?n = "lay_buf_len (ibt_layout op)" and ?f = "ibt_file op"
  let ?row = "take ?n (drop off d)"
  have a: "active_varbuf d = Inr (Some (tick, off))" and "off < 2 ^ 31"
    using active_sample_ok [OF assms(2,3)] assms(5) by simp_all
  then have u: "uadd off ?n = off + ?n" using assms(1) by (simp add: wf_open_def)
  have pos: "file_pos ?f = length (file_bytes ?f)" and ro: "row_offs_ok (ibt_layout op)"
    using assms(1) by (simp_all add: wf_open_def)
  have lr: "length ?row < 2 ^ 62" using assms(4) by simp
  show ?thesis
  proof (cases "tick = row_tick op \<or> length d < off + ?n")
    case True
    then show ?thesis using a u assms(6) by (auto simp: append_row_def Let_def)
  next
    case False
    then have s: "slice off (off + ?n) d = Inr ?row" by (simp add: slice_ok)
    show ?thesis
    proof (cases "io_row io")
      case (Some k)
      then show ?thesis using False a u s assms(6) by (simp add: append_row_def Let_def write_end [OF pos])
    next
      case None
      let ?op = "op\<lparr>row_tick := tick, ibt_file := ?f\<lparr>file_bytes := file_bytes ?f @ ?row,
        file_pos := length (file_bytes ?f) + length ?row\<rparr>, record_count := record_count op + 1\<rparr>"
      have ro1: "row_offs_ok (ibt_layout ?op)" using ro by simp
      obtain a1 b1 where t: "track_time ?row ?op = Inr (?op\<lparr>start_time := a1, end_time := b1\<rparr>)"
        using track_time_ok [OF ro1 lr] by blast
      have ro2: "row_offs_ok (ibt_layout (?op\<lparr>start_time := a1, end_time := b1\<rparr>))" using ro by simp
      obtain c e where l: "track_lap ?row (?op\<lparr>start_time := a1, end_time := b1\<rparr>) =
          Inr (?op\<lparr>start_time := a1, end_time := b1, lap_count := c, last_lap := e\<rparr>)"
        using track_lap_ok [OF ro2 lr] by auto
      have "append_row io d w = Inr (w\<lparr>ibt_open := Some (?op\<lparr>start_time := a1, end_time := b1, lap_count := c, last_lap := e\<rparr>)\<rparr>)"
        using None False a u s t l assms(6) by (simp add: append_row_def Let_def write_end [OF pos])
      then show ?thesis using None False by (auto simp: Let_def)
    qed
  qed
qed

lemma append_row_returns:
  assumes "wf_ibt w" "112 \<le> length d" "map_ok d"
  shows "\<exists>w'. append_row io d w = Inr w' \<and> wf_ibt w'"
proof (cases "ibt_open w")
  case None
  then show ?thesis using assms(1) by (simp add: append_row_def)
next
  case (Some op)
  then have op: "wf_open op" using assms(1) by (simp add: wf_ibt_def)
  obtain tick off where s: "active_sample d = (tick, off)" by (cases "active_sample d") auto
  have "offsets_nonneg d" "length d < 2 ^ 62"
    using assms(3) by (simp_all add: map_ok_def MAX_TELEMETRY_SIZE_def)
  from append_row_eq [OF op assms(2) this s Some, of io] show ?thesis
    using assms(1) op Some
    by (auto simp: Let_def wf_ibt_def wf_open_def split: if_splits option.splits)
qed

section \<open>Opening and closing\<close>

lemma finish_closed [simp]: "ibt_open (finish io w) = None"
  by (simp add: finish_def Let_def split: option.split prod.split)

lemma map_ok_parse:
  assumes "map_ok d"
  shows "parse_layout d = Inr (if connected_map d then Some (layout_of d) else None)"
    "connected_map d \<Longrightarrow> layout_fits d (layout_of d)" "lay_buf_len (layout_of d) < 2 ^ 31"
  using assms parse_layout_eq [of d] field_less [of d 36]
  by (simp_all add: map_ok_def MAX_TELEMETRY_SIZE_def layout_fits_def connected_map_def layout_of_def)

definition opened_ibt :: "byte list \<Rightarrow> u64 \<Rightarrow> open_ibt" where
  "opened_ibt d date = \<lparr>ibt_file = \<lparr>file_bytes = prefix_of d (layout_of d) date,
       file_pos = length (prefix_of d (layout_of d) date)\<rparr>,
     ibt_layout = layout_of d, start_date = date, record_count = 0, start_time = 0, end_time = 0,
     lap_count = 0, last_lap = I32_MIN, row_tick = I32_MIN\<rparr>"

lemma start_session_eq:
  assumes "map_ok d" "connected_map d"
  shows "start_session io d (layout_of d) w =
    Inr (if \<not> io_mkdir io \<or> open_unique (io_open io) [0..<100] = None then w
         else case io_prefix io of
             Some k \<Rightarrow> w\<lparr>ibt_disk := ibt_disk w @ [take k (prefix_of d (layout_of d) (io_now io))]\<rparr>
           | None \<Rightarrow> w\<lparr>ibt_open := Some (opened_ibt d (io_now io))\<rparr>)"
  using build_prefix_eq [OF map_ok_parse(2) [OF assms]]
  by (auto simp: start_session_def write_all_def blit_def opened_ibt_def Let_def split: option.split)

lemma wf_opened_ibt: "map_ok d \<Longrightarrow> wf_open (opened_ibt d date)"
  using map_ok_parse(3) by (simp add: wf_open_def opened_ibt_def map_ok_def)

lemma on_map_update_returns:
  assumes "wf_ibt w" "map_ok d"
  shows "\<exists>w'. on_map_update d io w = Inr w' \<and> wf_ibt w'"
proof (cases "connected_map d")
  case False
  then show ?thesis using map_ok_parse(1) [OF assms(2)] assms(1) by (simp add: on_map_update_def)
next
  case True
  then have l: "112 \<le> length d" by (simp add: connected_map_def)
  define w1 where "w1 = (case ibt_open w of
      Some op \<Rightarrow> if lay_session_info_update (ibt_layout op) \<noteq> lay_session_info_update (layout_of d)
                 then finish io w else w
    | None \<Rightarrow> w)"
  have w1: "wf_ibt w1" using assms(1) by (auto simp: w1_def wf_ibt_def split: option.split)
  define w2 where "w2 = (if ibt_open w1 = None then start_session io d (layout_of d) w1 else Inr w1)"
  have e: "on_map_update d io w = rbind w2 (append_row io d)"
    using map_ok_parse(1) [OF assms(2)] True by (simp add: on_map_update_def w1_def w2_def Let_def)
  have "\<exists>w3. w2 = Inr w3 \<and> wf_ibt w3"
  proof (cases "ibt_open w1")
    case None
    then show ?thesis using w1 wf_opened_ibt [OF assms(2)]
      unfolding w2_def start_session_eq [OF assms(2) True]
      by (auto simp: wf_ibt_def split: option.split)
  qed (use w1 in \<open>simp add: w2_def\<close>)
  then obtain w3 where "w2 = Inr w3" "wf_ibt w3" by blast
  then show ?thesis using append_row_returns [of w3 d io] l assms(2) by (simp add: e)
qed

interpretation ibt: safe_machine ibt_step wf_ibt "\<lambda>i. map_ok (fst i)"
proof
  show "wf_ibt w'" if "wf_ibt w" "map_ok (fst i)" "ibt_step w i = Inr (out, w')" for w i out w'
    using that on_map_update_returns [of w "fst i" "snd i"] by (auto simp: ibt_step_def)
  show "returns (ibt_step w i)" if "wf_ibt w" "map_ok (fst i)" for w i
    using that on_map_update_returns [of w "fst i" "snd i"] by (auto simp: ibt_step_def)
qed

text \<open>C21: Whatever the operating system answers (missing directory, names taken, failed or
  partial writes, failed seeks), the writer survives any sequence of maps without negative
  fields: no slice is out of range, and an open file's position is always its end.\<close>

theorem ibt_writer_never_panics:
  assumes "\<forall>d\<in>set maps. map_ok d" "length ios = length maps"
  shows "\<exists>outs w. run ibt_step ibt_new (zip maps ios) = Inr (outs, w) \<and>
    (\<forall>op. ibt_open w = Some op \<longrightarrow> file_pos (ibt_file op) = length (file_bytes (ibt_file op)))"
proof -
  have "wf_ibt ibt_new" by (simp add: wf_ibt_def ibt_new_def)
  moreover have "list_all (\<lambda>i. map_ok (fst i)) (zip maps ios)"
    using assms(1) by (auto simp: list_all_iff dest: set_zip_leftD)
  ultimately obtain outs w where "run ibt_step ibt_new (zip maps ios) = Inr (outs, w)" "wf_ibt w"
    using ibt.run_returns by blast
  then show ?thesis by (auto simp: wf_ibt_def wf_open_def)
qed

section \<open>A session file\<close>

text \<open>The rows a writer that last saw tick \<open>t\<close> appends for a sequence of maps.\<close>

fun tick_rows :: "nat \<Rightarrow> i32 \<Rightarrow> byte list list \<Rightarrow> byte list list" where
  "tick_rows n t [] = []"
| "tick_rows n t (d # ds) =
     (let (tick, off) = active_sample d
      in if tick = t then tick_rows n t ds else take n (drop off d) # tick_rows n tick ds)"

definition io_fine :: "ibt_io \<Rightarrow> bool" where
  "io_fine io \<longleftrightarrow> io_mkdir io \<and> open_unique (io_open io) [0..<100] \<noteq> None \<and> io_prefix io = None \<and>
     io_row io = None \<and> io_seek1 io \<and> io_tick io = None \<and> io_seek2 io \<and> io_sub io = None"

definition sample_map :: "i32 \<Rightarrow> nat \<Rightarrow> byte list \<Rightarrow> bool" where
  "sample_map u n d \<longleftrightarrow> map_ok d \<and> connected_map d \<and> i32_at d 12 = u \<and>
     snd (active_sample d) + n \<le> length d"

definition session_open :: "i32 \<Rightarrow> nat \<Rightarrow> byte list \<Rightarrow> i32 \<Rightarrow> nat \<Rightarrow> ibt_writer \<Rightarrow> bool" where
  "session_open u n bs t k w \<longleftrightarrow> ibt_disk w = [] \<and> (\<exists>op. ibt_open w = Some op \<and> wf_open op \<and>
     lay_session_info_update (ibt_layout op) = u \<and> lay_buf_len (ibt_layout op) = n \<and>
     file_bytes (ibt_file op) = bs \<and> row_tick op = t \<and> record_count op = of_nat k)"

lemma append_session:
  assumes "session_open u n bs t k w" "sample_map u n d" "io_row io = None"
  shows "\<exists>w'. append_row io d w = Inr w' \<and>
    session_open u n (bs @ concat (tick_rows n t [d])) (fst (active_sample d)) (k + length (tick_rows n t [d])) w'"
proof -
  obtain op where op: "ibt_open w = Some op" "wf_open op" "lay_session_info_update (ibt_layout op) = u"
    "lay_buf_len (ibt_layout op) = n" "file_bytes (ibt_file op) = bs" "row_tick op = t" "record_count op = of_nat k"
    and disk: "ibt_disk w = []"
    using assms(1) by (auto simp: session_open_def)
  obtain tick off where s: "active_sample d = (tick, off)" by (cases "active_sample d") auto
  have d: "112 \<le> length d" "offsets_nonneg d" "length d < 2 ^ 62" "\<not> length d < off + n"
    using assms(2) s by (simp_all add: sample_map_def map_ok_def connected_map_def MAX_TELEMETRY_SIZE_def)
  note e = append_row_eq [OF op(2) d(1-3) s op(1), of io]
  show ?thesis
  proof (cases "tick = t")
    case True
    then have "append_row io d w = Inr w" using e op by (simp add: Let_def)
    then show ?thesis using assms(1) True s by simp
  next
    case False
    then obtain a b c f where "append_row io d w = Inr (w\<lparr>ibt_open := Some (op\<lparr>row_tick := tick,
        ibt_file := (ibt_file op)\<lparr>file_bytes := bs @ take n (drop off d), file_pos := length bs + length (take n (drop off d))\<rparr>,
        record_count := of_nat k + 1, start_time := a, end_time := b, lap_count := c, last_lap := f\<rparr>)\<rparr>)"
      using e op assms(3) d(4) by (auto simp: Let_def)
    then show ?thesis using False s op disk by (simp add: session_open_def wf_open_def add.commute)
  qed
qed

lemma session_continues:
  assumes "session_open u n bs t k w" "sample_map u n d" "io_row io = None"
  shows "\<exists>w'. on_map_update d io w = Inr w' \<and>
    session_open u n (bs @ concat (tick_rows n t [d])) (fst (active_sample d)) (k + length (tick_rows n t [d])) w'"
proof -
  have "parse_layout d = Inr (Some (layout_of d))" "lay_session_info_update (layout_of d) = u"
    using assms(2) map_ok_parse(1) [of d] by (simp_all add: sample_map_def layout_of_def)
  then have "on_map_update d io w = append_row io d w"
    using assms(1) by (auto simp: on_map_update_def session_open_def)
  then show ?thesis using append_session [OF assms] by simp
qed

lemma tick_rows_append:
  "tick_rows n t (d # ds) = tick_rows n t [d] @ tick_rows n (fst (active_sample d)) ds"
  by (auto simp: split_beta)

lemma session_starts:
  assumes "sample_map u n d" "io_fine io" "lay_buf_len (layout_of d) = n"
  shows "\<exists>w'. on_map_update d io ibt_new = Inr w' \<and>
    session_open u n (prefix_of d (layout_of d) (io_now io) @ concat (tick_rows n I32_MIN [d]))
      (fst (active_sample d)) (length (tick_rows n I32_MIN [d])) w'"
proof -
  have d: "map_ok d" "connected_map d" "i32_at d 12 = u" using assms(1) by (simp_all add: sample_map_def)
  let ?w = "ibt_new\<lparr>ibt_open := Some (opened_ibt d (io_now io))\<rparr>"
  have "start_session io d (layout_of d) ibt_new = Inr ?w"
    using start_session_eq [OF d(1,2), of io ibt_new] assms(2) by (auto simp: io_fine_def)
  then have "on_map_update d io ibt_new = append_row io d ?w"
    using map_ok_parse(1) [OF d(1)] d(2) by (simp add: on_map_update_def ibt_new_def)
  moreover have "session_open u n (prefix_of d (layout_of d) (io_now io)) I32_MIN 0 ?w"
    using wf_opened_ibt [OF d(1)] d(3) assms(3)
    by (simp add: session_open_def ibt_new_def opened_ibt_def layout_of_def)
  ultimately show ?thesis using append_session [of u n _ I32_MIN 0 ?w d io] assms(1,2)
    by (auto simp: io_fine_def)
qed

section \<open>A small session\<close>

text \<open>One unnamed variable, one byte of YAML and rows of two bytes.\<close>

definition demo_ibt :: "i32 \<Rightarrow> byte list \<Rightarrow> byte list" where
  "demo_ibt tick row =
     put_fields [(4, 1), (16, 1), (20, 256), (24, 1), (28, 112), (32, 1), (36, 2), (48, tick), (52, 257)]
       (replicate 112 0) @ replicate 144 0 @ [45] @ row"

definition demo_io :: ibt_io where
  "demo_io = \<lparr>io_now = 1700000000, io_mkdir = True, io_open = (\<lambda>_. Created), io_prefix = None, io_row = None,
     io_seek1 = True, io_tick = None, io_seek2 = True, io_sub = None\<rparr>"

lemma i32_at_zeros [simp]: "off + 4 \<le> n \<Longrightarrow> i32_at (replicate n 0) off = 0"
  by (simp add: i32_at_def)

lemma demo_ibt_fields:
  "length (demo_ibt t r) = 257 + length r"
  "i32_at (demo_ibt t r) 0 = 0" "i32_at (demo_ibt t r) 4 = 1" "i32_at (demo_ibt t r) 8 = 0"
  "i32_at (demo_ibt t r) 12 = 0"
  "i32_at (demo_ibt t r) 16 = 1" "i32_at (demo_ibt t r) 20 = 256" "i32_at (demo_ibt t r) 24 = 1"
  "i32_at (demo_ibt t r) 28 = 112" "i32_at (demo_ibt t r) 32 = 1" "i32_at (demo_ibt t r) 36 = 2"
  "i32_at (demo_ibt t r) 48 = t" "i32_at (demo_ibt t r) 52 = 257" "i32_at (demo_ibt t r) 68 = 0"
  "i32_at (demo_ibt t r) 84 = 0" "i32_at (demo_ibt t r) 100 = 0"
  by (simp_all add: demo_ibt_def put_fields_def i32_at_append)

lemma demo_ibt_row: "drop 257 (demo_ibt t r) = r"
  by (simp add: demo_ibt_def put_fields_def)

lemma demo_ibt_names: "row_off_of (demo_ibt t r) 112 1 name = (if name = [] then Some 0 else None)"
proof -
  have "take 32 (drop 128 (demo_ibt t r)) = replicate 32 0" "take 4 (drop 116 (demo_ibt t r)) = replicate 4 0"
    by (simp_all add: demo_ibt_def put_fields_def)
  then have "var_name (demo_ibt t r) 112 = []" "i32_at (demo_ibt t r) 116 = 0"
    by (simp_all add: var_name_def name_bytes_def i32_at_def takeWhile_replicate)
  then show ?thesis by (auto simp: row_off_of_def var_entry_def usize_of_i32_nonneg)
qed

lemma demo_ibt_layout:
  "layout_of (demo_ibt t r) = \<lparr>lay_ver = 0, lay_tick_rate = 0, lay_session_info_update = 0, lay_num_vars = 1,
     lay_buf_len = 2, lay_vh_off = 112, lay_si_off = 256, lay_si_len = 1,
     lay_session_time_row_off = None, lay_lap_row_off = None\<rparr>"
  using demo_ibt_names [of t r] by (simp add: layout_of_def demo_ibt_fields SESSION_TIME_def LAP_def)

lemma demo_ibt_ok:
  assumes "length r = 2"
  shows "map_ok (demo_ibt t r)" "connected_map (demo_ibt t r)" "active_sample (demo_ibt t r) = (t, 257)"
    "parse_layout (demo_ibt t r) = Inr (Some (layout_of (demo_ibt t r)))" "sample_map 0 2 (demo_ibt t r)"
proof -
  have "0 \<le> sint (i32_at (demo_ibt t r) (48 + i * 16 + 4))" if "i < 4" for i
  proof -
    from that consider "i = 0" | "i = 1" | "i = 2" | "i = 3" by linarith
    then show ?thesis by cases (simp_all add: demo_ibt_fields)
  qed
  then have "offsets_nonneg (demo_ibt t r)" unfolding offsets_nonneg_def by blast
  then show ok: "map_ok (demo_ibt t r)"
    using assms by (simp add: map_ok_def demo_ibt_fields MAX_TELEMETRY_SIZE_def layout_nonneg_def
        demo_ibt_layout row_offs_ok_def)
  show c: "connected_map (demo_ibt t r)"
    using assms by (simp add: connected_map_def demo_ibt_fields STATUS_CONNECTED_def)
  show "parse_layout (demo_ibt t r) = Inr (Some (layout_of (demo_ibt t r)))"
    using map_ok_parse(1) [OF ok] c by simp
  have "112 \<le> length (demo_ibt t r)" by (simp add: demo_ibt_fields)
  from active_varbuf_eq [OF this] obtain k where k: "first_max (demo_ibt t r) (clamp_i32 1 4 (i32_at (demo_ibt t r) 32)) k"
    "active_varbuf (demo_ibt t r) = Inr (Some (slot_tick (demo_ibt t r) k, slot_off (demo_ibt t r) k))" by blast
  then have "k = 0" by (simp add: demo_ibt_fields clamp_i32_def first_max_def)
  with k show s: "active_sample (demo_ibt t r) = (t, 257)"
    by (simp add: active_sample_def slot_tick_def slot_off_def demo_ibt_fields usize_of_i32_nonneg)
  show "sample_map 0 2 (demo_ibt t r)"
    using ok c s assms by (simp add: sample_map_def demo_ibt_fields)
qed

lemma demo_io_fine: "io_fine demo_io"
proof -
  have "[0..<100] = 0 # [1..<100]" by (simp add: upt_conv_Cons)
  then show ?thesis by (simp add: io_fine_def demo_io_def)
qed

theorem ibt_writer_never_panics_witness:
  "\<exists>outs w. run ibt_step ibt_new (zip [demo_ibt 5 [1, 2], demo_ibt 6 [3, 4]]
     [demo_io, demo_io\<lparr>io_row := Some 1\<rparr>]) = Inr (outs, w)"
  using ibt_writer_never_panics [of "[demo_ibt 5 [1, 2], demo_ibt 6 [3, 4]]" "[demo_io, demo_io\<lparr>io_row := Some 1\<rparr>]"]
    demo_ibt_ok(1) by auto

section \<open>Repeated maps, session changes and faults\<close>

lemma append_shape:
  assumes "append_row io d w = Inr w'" "ibt_open w = Some op"
  shows "\<exists>op'. ibt_open w' = Some op' \<and> ibt_layout op' = ibt_layout op \<and>
    (\<forall>tick off. active_varbuf d = Inr (Some (tick, off)) \<longrightarrow> row_tick op' = tick)"
proof -
  have tr: "ibt_layout o2 = ibt_layout o1 \<and> row_tick o2 = row_tick o1"
    if "track_time row o1 = Inr o2 \<or> track_lap row o1 = Inr o2" for row o1 o2
    using that by (auto simp: track_time_def track_lap_def rbind_eq_Inr Let_def split: option.splits if_splits)
  from assms obtain a where a: "active_varbuf d = Inr a" by (auto simp: append_row_def rbind_eq_Inr)
  show ?thesis
  proof (cases a)
    case None
    then show ?thesis using assms a by (simp add: append_row_def)
  next
    case (Some s)
    obtain tick off where s: "s = (tick, off)" by (cases s) auto
    let ?stop = "uadd off (lay_buf_len (ibt_layout op))"
    show ?thesis
    proof (cases "tick = row_tick op \<or> length d < ?stop")
      case True
      then show ?thesis using assms a Some s by (auto simp: append_row_def Let_def split: if_splits)
    next
      case False
      from False assms a Some s obtain row where row: "slice off ?stop d = Inr row"
        by (auto simp: append_row_def rbind_eq_Inr Let_def)
      obtain ok f where wr: "write_all (io_row io) row (ibt_file op) = (ok, f)" by fastforce
      show ?thesis
      proof (cases ok)
        case True
        from False True assms a Some s row wr obtain o2 o3 where
          "track_time row (op\<lparr>row_tick := tick, ibt_file := f, record_count := record_count op + 1\<rparr>) = Inr o2"
          "track_lap row o2 = Inr o3" "w' = w\<lparr>ibt_open := Some o3\<rparr>"
          by (auto simp: append_row_def rbind_eq_Inr Let_def)
        then show ?thesis using tr a Some s by fastforce
      next
        case nok: False
        then show ?thesis using False assms a Some s row wr by (auto simp: append_row_def Let_def)
      qed
    qed
  qed
qed

lemma update_shape:
  assumes "parse_layout d = Inr (Some l)" "on_map_update d io w = Inr w'" "ibt_open w' = Some op'"
  shows "lay_session_info_update (ibt_layout op') = lay_session_info_update l \<and>
    (\<forall>tick off. active_varbuf d = Inr (Some (tick, off)) \<longrightarrow> row_tick op' = tick)"
proof -
  let ?u = "\<lambda>op. lay_session_info_update (ibt_layout op) = lay_session_info_update l"
  obtain w2 where w2: "append_row io d w2 = Inr w'" "\<And>op. ibt_open w2 = Some op \<Longrightarrow> ?u op"
  proof -
    define w1 where "w1 = (case ibt_open w of
        Some op \<Rightarrow> if lay_session_info_update (ibt_layout op) \<noteq> lay_session_info_update l then finish io w else w
      | None \<Rightarrow> w)"
    have u1: "ibt_open w1 = Some op \<Longrightarrow> ?u op" for op
      by (auto simp: w1_def split: option.splits if_splits)
    have "rbind (if ibt_open w1 = None then start_session io d l w1 else Inr w1) (append_row io d) = Inr w'"
      using assms(1,2) by (auto simp: on_map_update_def w1_def Let_def)
    then obtain w2 where a: "(if ibt_open w1 = None then start_session io d l w1 else Inr w1) = Inr w2"
      "append_row io d w2 = Inr w'" by (auto simp: rbind_eq_Inr)
    moreover have "?u op" if "ibt_open w2 = Some op" for op
    proof (cases "ibt_open w1")
      case None
      with a(1) have "start_session io d l w1 = Inr w2" by simp
      then show ?thesis using that None
        by (auto simp: start_session_def rbind_eq_Inr Let_def split_beta split: if_splits option.splits)
    qed (use a(1) u1 that in auto)
    ultimately show ?thesis using that by blast
  qed
  show ?thesis
  proof (cases "ibt_open w2")
    case None
    then show ?thesis using w2(1) assms(3) by (simp add: append_row_def)
  next
    case (Some op)
    then show ?thesis using append_shape [OF w2(1) Some] w2(2) [OF Some] assms(3) by auto
  qed
qed

text \<open>Seeing the same map again is a no-op: once an update has left a file open, repeating it
  (a session-info frame and a partial frame of the same tick, a duplicated datagram) changes
  neither the file nor the running statistics, whatever the operating system would answer.\<close>

lemma repeated_map_is_noop:
  assumes "on_map_update d io w = Inr w'" "ibt_open w' \<noteq> None"
    and "parse_layout d = Inr (Some l)" "active_varbuf d = Inr (Some (tick, off))"
  shows "on_map_update d io' w' = Inr w'"
proof -
  from assms(2) obtain op where op: "ibt_open w' = Some op" by auto
  from update_shape [OF assms(3,1) op] assms(4)
  have "lay_session_info_update (ibt_layout op) = lay_session_info_update l" "row_tick op = tick" by auto
  then show ?thesis using op assms(3,4) by (simp add: on_map_update_def append_row_def)
qed

lemma repeated_map_is_noop_witness:
  "\<exists>w'. on_map_update (demo_ibt 5 [1, 2]) demo_io ibt_new = Inr w' \<and>
     on_map_update (demo_ibt 5 [1, 2]) demo_io w' = Inr w'"
proof -
  let ?d = "demo_ibt 5 [1, 2]"
  have s: "sample_map 0 2 ?d" by (rule demo_ibt_ok) simp
  from session_starts [OF s demo_io_fine] obtain w' where w: "on_map_update ?d demo_io ibt_new = Inr w'"
    "ibt_open w' \<noteq> None" by (auto simp: demo_ibt_layout session_open_def)
  have p: "parse_layout ?d = Inr (Some (layout_of ?d))" by (rule demo_ibt_ok) simp
  have "active_varbuf ?d = Inr (Some (active_sample ?d))"
    using s by (intro active_sample_ok) (simp_all add: sample_map_def map_ok_def connected_map_def)
  then have "active_varbuf ?d = Inr (Some (5, 257))" by (simp add: demo_ibt_ok)
  from repeated_map_is_noop [OF w p this, of demo_io] w(1) show ?thesis by blast
qed

text \<open>A map whose header announces a negative number of variables is not rejected as
  malformed: the product with 144 wraps, the bounds check passes, and building the prefix panics.\<close>

theorem negative_num_vars_panics:
  assumes "112 \<le> length d" "length d < 2 ^ 62" "i32_at d 4 AND STATUS_CONNECTED \<noteq> 0"
    and "i32_at d 24 = - 1" "0 < sint (i32_at d 36)"
    and "144 \<le> sint (i32_at d 28)" "int (length d) < sint (i32_at d 28) + 144"
      "sint (i32_at d 28) \<le> int (length d) + 144"
    and "0 \<le> sint (i32_at d 20)" "0 < sint (i32_at d 16)"
      "sint (i32_at d 20) + sint (i32_at d 16) \<le> int (length d)"
    and "io_mkdir io" "open_unique (io_open io) [0..<100] \<noteq> None"
  shows "on_map_update d io ibt_new = Inl Slice_Index"
proof -
  let ?vh = "field d 28" and ?so = "field d 20" and ?sl = "field d 16"
  have vh: "144 \<le> ?vh" "length d < ?vh + 144" "?vh \<le> length d + 144" using assms(6-8) by linarith+
  obtain N M where N: "usize_of_i32 (- 1) = N" "N \<noteq> 0" "umul N VARHEADER_SIZE = M"
    "uadd ?vh M = ?vh - 144" "uadd (IRSDK_HEADER_SIZE + DISK_SUBHEADER_SIZE) M = 0"
  proof
    have "int (usize_of_i32 (- 1)) = 2 ^ 64 - 1" by (simp add: usize_of_i32_alt)
    then show "usize_of_i32 (- 1) = 2 ^ 64 - 1" by simp
    show "umul (2 ^ 64 - 1) VARHEADER_SIZE = 2 ^ 64 - 144" by (simp add: umul_def VARHEADER_SIZE_def)
    show "uadd ?vh (2 ^ 64 - 144) = ?vh - 144" using vh assms(2) by (simp add: uadd_def le_mod_geq)
    show "uadd (IRSDK_HEADER_SIZE + DISK_SUBHEADER_SIZE) (2 ^ 64 - 144) = 0" by (simp add: uadd_def ibt_consts)
  qed simp
  have u: "usize_of_i32 (i32_at d 36) = field d 36"
    "usize_of_i32 (i32_at d 28) = ?vh" "usize_of_i32 (i32_at d 20) = ?so" "usize_of_i32 (i32_at d 16) = ?sl"
    using assms(5,6,9,10) by (simp_all add: usize_of_i32_nonneg)
  have fv: "find_var d ?vh N name = Inr None" for name
    using vh assms(2) N(2) by (simp add: find_var_def find_var_from.simps umul_def VARHEADER_SIZE_def)
  have so: "uadd ?so ?sl = ?so + ?sl" "?so + ?sl \<le> length d" using assms(2,9-11) by simp_all
  have sl: "slice ?vh (?vh - 144) d = Inl Slice_Index" using vh by (simp add: slice_def)
  have nz: "field d 36 \<noteq> 0" "?sl \<noteq> 0" "\<not> length d < ?vh - 144" "\<not> length d < ?so + ?sl"
    using assms(5,10) vh so by linarith+
  obtain l where p: "parse_layout d = Inr (Some l)" "lay_num_vars l = N" "lay_vh_off l = ?vh" "lay_si_len l = ?sl"
    unfolding parse_layout_def
    using assms(1,3) nz
    by (simp add: IRSDK_HEADER_SIZE_def rd_i32_ok assms(4) N u so(1) fv Let_def del: nat_eq_iff)
  have cap: "\<not> 2 ^ 63 \<le> uadd 0 ?sl" using so(2) assms(2) by simp
  have "build_prefix d l (io_now io) = Inl Slice_Index"
    unfolding build_prefix_def Let_def p N if_not_P [OF cap] by (simp add: sl)
  then show ?thesis using p(1) assms(12,13)
    by (auto simp: on_map_update_def ibt_new_def start_session_def)
qed

definition negative_map :: "byte list" where
  "negative_map = put_fields [(4, 1), (16, 1), (20, 112), (24, - 1), (28, 144), (36, 2)] (replicate 112 0) @ [45]"

theorem negative_num_vars_panics_witness:
  "on_map_update negative_map demo_io ibt_new = Inl Slice_Index"
proof -
  have f: "length negative_map = 113" "i32_at negative_map 4 = 1" "i32_at negative_map 16 = 1"
    "i32_at negative_map 20 = 112" "i32_at negative_map 24 = - 1" "i32_at negative_map 28 = 144"
    "i32_at negative_map 36 = 2"
    by (simp_all add: negative_map_def put_fields_def i32_at_append)
  have "io_mkdir demo_io" "open_unique (io_open demo_io) [0..<100] \<noteq> None"
    using demo_io_fine by (auto simp: io_fine_def)
  then show ?thesis
    by (intro negative_num_vars_panics) (simp_all add: f STATUS_CONNECTED_def)
qed

text \<open>A row whose write fails half-way stays in the file although it is not counted: the next
  row follows the fragment, so from then on the rows are out of step with the row length.\<close>

lemma failed_row_leaves_fragment:
  assumes "session_open u n bs t k w" "sample_map u n d" "fst (active_sample d) \<noteq> t" "io_row io = Some m"
  shows "\<exists>w'. append_row io d w = Inr w' \<and>
    session_open u n (bs @ take m (take n (drop (snd (active_sample d)) d))) (fst (active_sample d)) k w'"
proof -
  obtain op where op: "ibt_open w = Some op" "wf_open op" "lay_session_info_update (ibt_layout op) = u"
    "lay_buf_len (ibt_layout op) = n" "file_bytes (ibt_file op) = bs" "row_tick op = t" "record_count op = of_nat k"
    and disk: "ibt_disk w = []"
    using assms(1) by (auto simp: session_open_def)
  obtain tick off where s: "active_sample d = (tick, off)" by (cases "active_sample d") auto
  have d: "112 \<le> length d" "offsets_nonneg d" "length d < 2 ^ 62" "\<not> length d < off + n"
    using assms(2) s by (simp_all add: sample_map_def map_ok_def connected_map_def MAX_TELEMETRY_SIZE_def)
  show ?thesis
    using append_row_eq [OF op(2) d(1-3) s op(1), of io] op assms(3,4) d(4) s disk
    by (simp add: Let_def session_open_def wf_open_def)
qed

lemma failed_row_leaves_fragment_witness:
  "\<exists>w w'. append_row (demo_io\<lparr>io_row := Some 1\<rparr>) (demo_ibt 6 [3, 4]) w = Inr w' \<and>
     (\<exists>op. ibt_open w' = Some op \<and> record_count op = 1 \<and>
        file_bytes (ibt_file op) = prefix_of (demo_ibt 5 [1, 2]) (layout_of (demo_ibt 5 [1, 2])) 1700000000 @ [1, 2] @ [3])"
proof -
  let ?d = "demo_ibt 5 [1, 2]" and ?e = "demo_ibt 6 [3, 4]"
  have s: "sample_map 0 2 ?d" "sample_map 0 2 ?e" by (simp_all add: demo_ibt_ok)
  from session_starts [OF s(1) demo_io_fine] obtain w where
    "session_open 0 2 (prefix_of ?d (layout_of ?d) 1700000000 @ [1, 2]) 5 1 w"
    by (auto simp: demo_ibt_layout demo_ibt_ok demo_ibt_row I32_MIN_def demo_io_def)
  from failed_row_leaves_fragment [OF this s(2), of "demo_io\<lparr>io_row := Some 1\<rparr>" 1] show ?thesis
    by (auto simp: demo_ibt_ok demo_ibt_row session_open_def)
qed

text \<open>The round trip of the prefix at the small session's map.\<close>

theorem ibt_prefix_roundtrip_witness:
  "\<exists>prefix. build_prefix (demo_ibt 5 [1, 2]) (layout_of (demo_ibt 5 [1, 2])) 7 = Inr prefix \<and>
     length prefix = 289 \<and> active_varbuf (prefix @ [1, 2]) = Inr (Some (0, 289))"
proof -
  let ?d = "demo_ibt 5 [1, 2]"
  have m: "map_ok ?d" "parse_layout ?d = Inr (Some (layout_of ?d))" by (simp_all add: demo_ibt_ok)
  then have "layout_nonneg ?d" "length ?d \<le> MAX_TELEMETRY_SIZE" by (simp_all add: map_ok_def)
  from ibt_prefix_roundtrip [OF m(2) this, of "[1, 2]" 7] show ?thesis
    by (auto simp: demo_ibt_layout)
qed

end
