(* ===== verification/Target_Loop.thy ===== *)
theory Target_Loop
  imports Proto_Receiver Ibt_Session Xor_Delta Stats
begin

text \<open>
  The target's receive loop (\<open>target.rs\<close>): one iteration as a step on the loop's variables. The
  environment of an iteration is the shutdown channel, what the socket returns, the clock at each
  reading point and the answers of the operating system. The LZ4 decompressor is a parameter: it
  gets the compressed bytes and the output buffer and returns the length it wrote, or none, with
  the buffer after it. The step returns its visible actions in order, in particular every
  content of the shared map that another process can observe between two writes.

  Creating the map asks the system for the region of a name. It fails, or hands out a region whose
  bytes are the environment's: zeros when the region is new, and whatever it holds when another
  process has kept one of that name open, which the code does not look for.
\<close>

definition RESYNC_REQUEST_INTERVAL :: int where
  "RESYNC_REQUEST_INTERVAL = 1000000"

record target_config =
  tc_capacity :: nat
  tc_proto_size :: nat
  tc_fanalab :: bool
  tc_stale_timeout :: int
  tc_endian :: endian
  tc_decompress :: "byte list \<Rightarrow> byte list \<Rightarrow> nat option \<times> byte list"

datatype 'a received_packet = Datagram "byte list" 'a | No_Data | Recv_Error

datatype target_reading =
    On_Heartbeat | On_Sequence | On_Transit | On_Written | On_Window | On_Printed
  | On_Resync_Check | On_Resync | On_Stale_Check

record 'a target_env =
  te_shutdown :: bool
  te_recv :: "'a received_packet"
  te_clock :: "target_reading \<Rightarrow> int"
  te_create :: "(nat \<Rightarrow> byte) option"
  te_stub :: bool
  te_ibt :: ibt_io

datatype 'a action =
    Map_Created "byte list"
  | Map_Write "byte list"
  | Signalled
  | First_Data
  | Stub_Started
  | Stub_Stopped
  | Stats_Callback "u64 \<times> u64 \<times> u64"
  | Resync_Request "byte list" 'a
  | Map_Closed "byte list"
  | Stale

datatype target_exit = Continues | Returns_Ok | Returns_Err

record 'a target_state =
  tgt_proto :: receiver
  tgt_staging :: "byte list"
  tgt_prev :: "byte list"
  reconstruct_buf :: "byte list"
  tgt_map :: "byte list option"
  last_update :: int
  tgt_stats :: stats
  seq_start :: "int option"
  has_full_frame :: bool
  first_data_called :: bool
  source_addr :: "'a option"
  last_resync_request :: int
  stub_running :: bool
  tgt_ibt :: "ibt_writer option"

definition target_start :: "target_config \<Rightarrow> bool \<Rightarrow> int \<Rightarrow> 'a target_state" where
  "target_start cfg write_ibt now =
     \<lparr>tgt_proto = receiver_new (tc_proto_size cfg), tgt_staging = replicate (tc_capacity cfg) 0,
      tgt_prev = replicate (tc_capacity cfg) 0, reconstruct_buf = replicate (tc_capacity cfg) 0,
      tgt_map = None, last_update = now, tgt_stats = stats_new ''target'' now, seq_start = None,
      has_full_frame = False, first_data_called = False, source_addr = None,
      last_resync_request = now - RESYNC_REQUEST_INTERVAL, stub_running = False,
      tgt_ibt = (if write_ibt then Some ibt_new else None)\<rparr>"

section \<open>Writing a frame to the map\<close>

text \<open>Both handlers return \<open>None\<close> where the code gives the frame up with \<open>continue\<close>, else the
  decompressed length and the actions.\<close>

definition write_session ::
  "target_config \<Rightarrow> 'a target_env \<Rightarrow> byte list \<Rightarrow> byte list \<Rightarrow> 'a target_state \<Rightarrow>
   ((nat \<times> 'a action list) option \<times> 'a target_state) rust" where
  "write_session cfg ev compressed m s0 =
     (case tc_decompress cfg compressed (tgt_staging s0) of (res, staging) \<Rightarrow>
      let s = s0\<lparr>tgt_staging := staging\<rparr> in
      case res of
        None \<Rightarrow> Inr (None, s)
      | Some prefix_len \<Rightarrow>
          if prefix_len < 8 then Inr (None, s)
          else
            let n = min prefix_len (length m) in
            rbind (slice 0 4 staging) (\<lambda>a.
            rbind (store 0 a m) (\<lambda>m1.
            rbind (if 8 < n then rbind (slice 8 n staging) (\<lambda>b. rbind (store 8 b m1) (\<lambda>m2. Inr [m2]))
                   else Inr []) (\<lambda>rest.
            let m2 = last (m1 # rest);
                starts = tc_fanalab cfg \<and> \<not> stub_running s;
                acts = List.map Map_Write (m1 # rest)
                  @ (if first_data_called s then [] else [First_Data])
                  @ (if starts \<and> te_stub ev then [Stub_Started] else [])
            in Inr (Some (prefix_len, acts),
                 s\<lparr>tgt_map := Some m2, has_full_frame := True, first_data_called := True,
                   tgt_prev := replicate (length (tgt_prev s)) 0,
                   stub_running := (if starts then te_stub ev else stub_running s)\<rparr>)))))"

definition reconstruct ::
  "target_config \<Rightarrow> bool \<Rightarrow> nat \<Rightarrow> 'a target_state \<Rightarrow> (byte list option \<times> 'a target_state) rust" where
  "reconstruct cfg is_delta dec_len s =
     (if is_delta then
        if length (tgt_prev s) < dec_len then Inr (None, s)
        else
          rbind (slice 0 dec_len (tgt_staging s)) (\<lambda>cur.
          rbind (slice 0 dec_len (tgt_prev s)) (\<lambda>prev.
          rbind (slice 0 dec_len (reconstruct_buf s)) (\<lambda>out.
          rbind (xor_delta (tc_endian cfg) cur prev out) (\<lambda>frame_data.
          rbind (store 0 frame_data (reconstruct_buf s)) (\<lambda>rb.
          Inr (Some frame_data, s\<lparr>reconstruct_buf := rb\<rparr>))))))
      else rbind (slice 0 dec_len (tgt_staging s)) (\<lambda>frame_data. Inr (Some frame_data, s)))"

definition write_partial ::
  "target_config \<Rightarrow> u32 \<Rightarrow> byte list \<Rightarrow> byte list \<Rightarrow> 'a target_state \<Rightarrow>
   ((nat \<times> 'a action list) option \<times> 'a target_state) rust" where
  "write_partial cfg buf_offset compressed m s0 =
     (case tc_decompress cfg compressed (tgt_staging s0) of (res, staging) \<Rightarrow>
      let s = s0\<lparr>tgt_staging := staging\<rparr>;
          real_off = unat (buf_offset AND NOT DELTA_BIT);
          is_delta = (buf_offset \<noteq> U32_MAX \<and> buf_offset AND DELTA_BIT \<noteq> 0)
      in case res of
        None \<Rightarrow> Inr (None, s)
      | Some dec_len \<Rightarrow>
          if dec_len < IRSDK_HEADER_SIZE then Inr (None, s)
          else
            rbind (reconstruct cfg is_delta dec_len s) (\<lambda>(frame, s1).
            case frame of
              None \<Rightarrow> Inr (None, s1)
            | Some frame_data \<Rightarrow>
                let var_len = dec_len - IRSDK_HEADER_SIZE in
                if length m < IRSDK_HEADER_SIZE \<or> length m < real_off + var_len then Inr (None, s1)
                else
                  rbind (store 0 frame_data (tgt_prev s1)) (\<lambda>prev.
                  rbind (slice IRSDK_HEADER_SIZE dec_len frame_data) (\<lambda>var_data.
                  rbind (store real_off var_data m) (\<lambda>m1.
                  rbind (slice 0 IRSDK_HEADER_SIZE frame_data) (\<lambda>head.
                  rbind (store 0 head m1) (\<lambda>m2.
                  Inr (Some (dec_len, [Map_Write m1, Map_Write m2]),
                    s1\<lparr>tgt_prev := prev, tgt_map := Some m2\<rparr>))))))))"

section \<open>After a write\<close>

definition note_written ::
  "'a target_env \<Rightarrow> u32 \<Rightarrow> byte list \<Rightarrow> nat \<Rightarrow> 'a target_state \<Rightarrow> 'a target_state" where
  "note_written ev buf_offset compressed dec_len s =
     (case seq_start s of
        None \<Rightarrow> s
      | Some start \<Rightarrow>
          let x = \<lparr>smp_compressed = length compressed, smp_uncompressed = dec_len,
                   smp_source_us = last_source_us (tgt_proto s),
                   smp_transit_us = of_int (elapsed (te_clock ev On_Transit) start),
                   smp_is_full = (buf_offset = U32_MAX),
                   smp_is_delta = (buf_offset \<noteq> U32_MAX \<and> buf_offset AND DELTA_BIT \<noteq> 0)\<rparr>
          in s\<lparr>seq_start := None,
               tgt_stats := record_dropped (dropped_sequences (tgt_proto s)) (record_frame x (tgt_stats s)),
               tgt_proto := (tgt_proto s)\<lparr>dropped_sequences := 0\<rparr>\<rparr>)"

definition after_write ::
  "'a target_env \<Rightarrow> u32 \<Rightarrow> byte list \<Rightarrow> nat \<Rightarrow> 'a target_state \<Rightarrow> ('a action list \<times> 'a target_state) rust" where
  "after_write ev buf_offset compressed dec_len s =
     (let s1 = (note_written ev buf_offset compressed dec_len s)\<lparr>last_update := te_clock ev On_Written\<rparr> in
      rbind (maybe_print (te_clock ev On_Window) (te_clock ev On_Printed) (tgt_stats s1)) (\<lambda>(line, st).
      let acts = Signalled # (case line of None \<Rightarrow> [] | Some _ \<Rightarrow> [Stats_Callback (lifetime_snapshot st)]);
          s2 = s1\<lparr>tgt_stats := st\<rparr>
      in case (tgt_ibt s2, tgt_map s2) of
           (Some w, Some m) \<Rightarrow> rbind (on_map_update m (te_ibt ev) w) (\<lambda>w'. Inr (acts, s2\<lparr>tgt_ibt := Some w'\<rparr>))
         | _ \<Rightarrow> Inr (acts, s2)))"

section \<open>Leaving the loop\<close>

text \<open>A return, by shutdown or by an error, finishes the open file, stops the stub process and drops
  the map: it is unmapped with the contents it has.\<close>

definition leave :: "'a target_env \<Rightarrow> 'a target_state \<Rightarrow> 'a action list \<times> 'a target_state" where
  "leave ev s = ((if stub_running s then [Stub_Stopped] else [])
       @ (case tgt_map s of Some m \<Rightarrow> [Map_Closed m] | None \<Rightarrow> []),
     s\<lparr>tgt_ibt := map_option (finish (te_ibt ev)) (tgt_ibt s), stub_running := False\<rparr>)"

section \<open>A reassembled message\<close>

text \<open>\<open>Telemetry::create\<close>, by its result.\<close>

definition create_map :: "target_config \<Rightarrow> 'a target_env \<Rightarrow> byte list option" where
  "create_map cfg ev = map_option (\<lambda>found. List.map found [0..<tc_capacity cfg]) (te_create ev)"

text \<open>The flag says whether the iteration goes on to the resync request; it does not after a
  \<open>continue\<close> or a return.\<close>

definition deliver ::
  "target_config \<Rightarrow> 'a target_env \<Rightarrow> u32 \<Rightarrow> byte list \<Rightarrow> 'a target_state \<Rightarrow>
   ((target_exit \<times> bool \<times> 'a action list) \<times> 'a target_state) rust" where
  "deliver cfg ev buf_offset compressed s =
     (case (case tgt_map s of
              Some old \<Rightarrow> Some (old, [])
            | None \<Rightarrow> map_option (\<lambda>m. (m, [Map_Created m])) (create_map cfg ev)) of
        None \<Rightarrow> let (acts, s') = leave ev s in Inr ((Returns_Err, False, acts), s')
      | Some (m, made) \<Rightarrow>
        let s0 = s\<lparr>tgt_map := Some m\<rparr>
        in if buf_offset \<noteq> U32_MAX \<and> \<not> has_full_frame s0 then Inr ((Continues, True, made), s0)
           else
             rbind (if buf_offset = U32_MAX then write_session cfg ev compressed m s0
                    else write_partial cfg buf_offset compressed m s0) (\<lambda>(wrote, s1).
             case wrote of
               None \<Rightarrow> Inr ((Continues, False, made), s1)
             | Some (dec_len, acts) \<Rightarrow>
                 rbind (after_write ev buf_offset compressed dec_len s1) (\<lambda>(acts', s2).
                 Inr ((Continues, True, made @ acts @ acts'), s2))))"

section \<open>One iteration of the loop\<close>

definition request_resync :: "'a target_env \<Rightarrow> 'a target_state \<Rightarrow> 'a action list \<times> 'a target_state" where
  "request_resync ev s =
     (case source_addr s of
        Some addr \<Rightarrow>
          if \<not> has_full_frame s \<and>
             RESYNC_REQUEST_INTERVAL \<le> elapsed (te_clock ev On_Resync_Check) (last_resync_request s)
          then ([Resync_Request [1, 1] addr], s\<lparr>last_resync_request := te_clock ev On_Resync\<rparr>)
          else ([], s)
      | None \<Rightarrow> ([], s))"

definition receive_step ::
  "target_config \<Rightarrow> 'a target_env \<Rightarrow> byte list \<Rightarrow> 'a \<Rightarrow> 'a target_state \<Rightarrow>
   ((target_exit \<times> 'a action list) \<times> 'a target_state) rust" where
  "receive_step cfg ev datagram src s =
     rbind (ingest (tgt_proto s) (take MAX_DATAGRAM_SIZE datagram)) (\<lambda>(res, proto).
     let s1 = s\<lparr>source_addr := Some src, tgt_proto := proto\<rparr> in
     rbind (if heartbeat res then Inr ((Continues, True, []), s1\<lparr>last_update := te_clock ev On_Heartbeat\<rparr>)
            else
              let s2 = (if new_seq res then s1\<lparr>seq_start := Some (te_clock ev On_Sequence)\<rparr> else s1)
              in case assembled res of
                   None \<Rightarrow> Inr ((Continues, True, []), s2)
                 | Some compressed \<Rightarrow> deliver cfg ev (ing_buf_offset res) compressed s2)
       (\<lambda>((exit, falls_through, acts), s3).
        if falls_through then
          let (acts', s4) = request_resync ev s3 in Inr ((exit, acts @ acts'), s4)
        else Inr ((exit, acts), s3)))"

definition stale_step ::
  "target_config \<Rightarrow> 'a target_env \<Rightarrow> 'a target_state \<Rightarrow> (target_exit \<times> 'a action list) \<times> 'a target_state" where
  "stale_step cfg ev s =
     (case tgt_map s of
        Some m \<Rightarrow>
          if tc_stale_timeout cfg \<le> elapsed (te_clock ev On_Stale_Check) (last_update s) then
            ((Continues, [Map_Write (replicate (length m) 0), Map_Closed (replicate (length m) 0), Stale]
                @ (if stub_running s then [Stub_Stopped] else [])),
             s\<lparr>tgt_ibt := map_option (finish (te_ibt ev)) (tgt_ibt s), tgt_map := None,
               has_full_frame := False, first_data_called := False,
               tgt_prev := replicate (length (tgt_prev s)) 0, stub_running := False\<rparr>)
          else ((Continues, []), s)
      | None \<Rightarrow> ((Continues, []), s))"

definition target_step ::
  "target_config \<Rightarrow> 'a target_state \<Rightarrow> 'a target_env \<Rightarrow>
   ((target_exit \<times> 'a action list) \<times> 'a target_state) rust" where
  "target_step cfg s ev =
     (if te_shutdown ev then let (acts, s') = leave ev s in Inr ((Returns_Ok, acts), s')
      else case te_recv ev of
        Datagram datagram src \<Rightarrow> receive_step cfg ev datagram src s
      | No_Data \<Rightarrow> Inr (stale_step cfg ev s)
      | Recv_Error \<Rightarrow> let (acts, s') = leave ev s in Inr ((Returns_Err, acts), s'))"

definition target_run ::
  "target_config \<Rightarrow> 'a target_state \<Rightarrow> 'a target_env list \<Rightarrow>
   ((target_exit \<times> 'a action list) list \<times> 'a target_state) rust" where
  "target_run cfg = run_until (\<lambda>r. fst r \<noteq> Continues) (target_step cfg)"

end
