(* ===== verification/Target_Step.thy ===== *)
theory Target_Step
  imports Target_Loop
begin

text \<open>
  The operations of the target's loop without their panics: what each writes to the map, the loop
  invariant, and the step's behaviour on every kind of packet.
\<close>

section \<open>Invariant\<close>

text \<open>The documented contract of \<open>decompress_into\<close> with \<open>checked-decode\<close>: it never writes past
  the buffer, and the length it returns fits the buffer.\<close>

definition decoder_ok :: "(byte list \<Rightarrow> byte list \<Rightarrow> nat option \<times> byte list) \<Rightarrow> bool" where
  "decoder_ok dec \<longleftrightarrow> (\<forall>c b. length (snd (dec c b)) = length b \<and> (\<forall>n. fst (dec c b) = Some n \<longrightarrow> n \<le> length b))"

definition wf_target :: "target_config \<Rightarrow> 'a target_state \<Rightarrow> bool" where
  "wf_target cfg s \<longleftrightarrow> wf_receiver (tgt_proto s) \<and> max_payload (tgt_proto s) = tc_proto_size cfg \<and>
     length (tgt_staging s) = tc_capacity cfg \<and> length (tgt_prev s) = tc_capacity cfg \<and>
     length (reconstruct_buf s) = tc_capacity cfg \<and>
     (\<forall>m. tgt_map s = Some m \<longrightarrow> length m = tc_capacity cfg)"

text \<open>The lengths of the staging buffers alone.\<close>

definition bufs_ok :: "target_config \<Rightarrow> 'a target_state \<Rightarrow> bool" where
  "bufs_ok cfg s \<longleftrightarrow> length (tgt_staging s) = tc_capacity cfg \<and> length (tgt_prev s) = tc_capacity cfg \<and>
     length (reconstruct_buf s) = tc_capacity cfg"

lemma wf_target_bufs: "wf_target cfg s \<Longrightarrow> bufs_ok cfg s"
  by (simp add: wf_target_def bufs_ok_def)

lemma wf_target_start [simp]: "wf_target cfg (target_start cfg write_ibt now)"
  by (simp add: wf_target_def target_start_def)

lemma decoder_okD:
  assumes "decoder_ok dec" "dec c b = (r, b')"
  shows "length b' = length b" "r = Some n \<Longrightarrow> n \<le> length b"
  using assms unfolding decoder_ok_def by (metis snd_conv, metis fst_conv)

section \<open>A session-info frame\<close>

text \<open>The map after the first and the second copy.\<close>

definition session_map1 :: "byte list \<Rightarrow> byte list \<Rightarrow> byte list" where
  "session_map1 st m = blit 0 (take 4 st) m"

definition session_map2 :: "byte list \<Rightarrow> nat \<Rightarrow> byte list \<Rightarrow> byte list" where
  "session_map2 st n m = blit 8 (take (n - 8) (drop 8 st)) (session_map1 st m)"

definition session_snapshots :: "byte list \<Rightarrow> nat \<Rightarrow> byte list \<Rightarrow> byte list list" where
  "session_snapshots st n m = session_map1 st m # (if 8 < n then [session_map2 st n m] else [])"

lemma session_maps:
  assumes "length m = cap" "length st = cap" "8 \<le> n" "n \<le> cap"
  shows "length (session_map1 st m) = cap" "length (session_map2 st n m) = cap"
    "i < cap \<Longrightarrow> session_map1 st m ! i = (if i < 4 then st ! i else m ! i)"
    "i < cap \<Longrightarrow> session_map2 st n m ! i = (if i < 4 \<or> 8 \<le> i \<and> i < n then st ! i else m ! i)"
proof -
  show l1: "length (session_map1 st m) = cap" using assms by (simp add: session_map1_def)
  then show "length (session_map2 st n m) = cap" using assms by (simp add: session_map2_def)
  show m1: "i < cap \<Longrightarrow> session_map1 st m ! i = (if i < 4 then st ! i else m ! i)" for i
    using assms by (simp add: session_map1_def nth_blit)
  show "i < cap \<Longrightarrow> session_map2 st n m ! i = (if i < 4 \<or> 8 \<le> i \<and> i < n then st ! i else m ! i)"
    using assms l1 m1 by (auto simp: session_map2_def nth_blit)
qed

lemma last_session_snapshots:
  assumes "length m = cap" "length st = cap" "8 \<le> n" "n \<le> cap"
  shows "length (last (session_snapshots st n m)) = cap"
    "i < cap \<Longrightarrow> last (session_snapshots st n m) ! i = (if i < 4 \<or> 8 \<le> i \<and> i < n then st ! i else m ! i)"
  using session_maps [OF assms] assms(3) by (auto simp: session_snapshots_def)

definition session_state :: "'a target_env \<Rightarrow> target_config \<Rightarrow> byte list \<Rightarrow> nat \<Rightarrow> byte list \<Rightarrow> 'a target_state \<Rightarrow> 'a target_state" where
  "session_state ev cfg st n m s = s\<lparr>tgt_staging := st, tgt_map := Some (last (session_snapshots st n m)),
     has_full_frame := True, first_data_called := True, tgt_prev := replicate (length (tgt_prev s)) 0,
     stub_running := (if tc_fanalab cfg \<and> \<not> stub_running s then te_stub ev else stub_running s)\<rparr>"

lemma write_session_eq:
  assumes "decoder_ok (tc_decompress cfg)" "bufs_ok cfg s" "length m = tc_capacity cfg" "8 \<le> tc_capacity cfg"
    and "tc_decompress cfg compressed (tgt_staging s) = (r, st)"
  shows "write_session cfg ev compressed m s = Inr (case r of
      Some n \<Rightarrow>
        if n < 8 then (None, s\<lparr>tgt_staging := st\<rparr>)
        else (Some (n, List.map Map_Write (session_snapshots st n m)
            @ (if first_data_called s then [] else [First_Data])
            @ (if tc_fanalab cfg \<and> \<not> stub_running s \<and> te_stub ev then [Stub_Started] else [])),
          session_state ev cfg st n m s)
    | None \<Rightarrow> (None, s\<lparr>tgt_staging := st\<rparr>))"
proof (cases r)
  case None
  then show ?thesis using assms(5) by (simp add: write_session_def)
next
  case (Some n)
  have ls: "length (tgt_staging s) = tc_capacity cfg" using assms(2) by (simp add: bufs_ok_def)
  have lst: "length st = tc_capacity cfg" "n \<le> tc_capacity cfg"
    using decoder_okD [OF assms(1,5)] Some ls by simp_all
  show ?thesis
  proof (cases "n < 8")
    case True
    then show ?thesis using Some assms(5) by (simp add: write_session_def)
  next
    case False
    have k: "min n (length m) = n" using lst assms(3) by simp
    have a: "slice 0 4 st = Inr (take 4 st)" using lst assms(4) by (simp add: slice_ok)
    have b: "store 0 (take 4 st) m = Inr (session_map1 st m)"
      using lst assms(3,4) by (simp add: store_ok session_map1_def)
    have c: "slice 8 n st = Inr (take (n - 8) (drop 8 st))" using lst False by (simp add: slice_ok)
    have l1: "length (session_map1 st m) = tc_capacity cfg"
      using session_maps(1) [OF assms(3) lst(1), of n] False lst(2) by simp
    have d: "store 8 (take (n - 8) (drop 8 st)) (session_map1 st m) = Inr (session_map2 st n m)"
      using l1 lst False by (simp add: store_ok session_map2_def)
    show ?thesis using False Some assms(5)
      by (simp add: write_session_def k a b c d session_snapshots_def session_state_def Let_def)
  qed
qed

section \<open>A partial frame\<close>

definition partial_map1 :: "nat \<Rightarrow> byte list \<Rightarrow> byte list \<Rightarrow> byte list" where
  "partial_map1 off fr m = blit off (drop IRSDK_HEADER_SIZE fr) m"

definition partial_map2 :: "nat \<Rightarrow> byte list \<Rightarrow> byte list \<Rightarrow> byte list" where
  "partial_map2 off fr m = blit 0 (take IRSDK_HEADER_SIZE fr) (partial_map1 off fr m)"

definition decoded_frame :: "bool \<Rightarrow> byte list \<Rightarrow> byte list \<Rightarrow> byte list" where
  "decoded_frame is_delta payload prev = (if is_delta then xor_bytes payload (take (length payload) prev) else payload)"

definition delta_wire :: "u32 \<Rightarrow> bool" where
  "delta_wire w \<longleftrightarrow> w \<noteq> U32_MAX \<and> w AND DELTA_BIT \<noteq> 0"

definition wire_off :: "u32 \<Rightarrow> nat" where
  "wire_off w = unat (w AND NOT DELTA_BIT)"

lemma reconstruct_eq:
  assumes "bufs_ok cfg s" "n \<le> tc_capacity cfg"
  shows "\<exists>rb. reconstruct cfg is_delta n s =
    Inr (Some (decoded_frame is_delta (take n (tgt_staging s)) (tgt_prev s)), s\<lparr>reconstruct_buf := rb\<rparr>) \<and>
    length rb = tc_capacity cfg"
proof (cases is_delta)
  case True
  then show ?thesis using assms
    by (intro exI [of _ "blit 0 (xor_bytes (take n (tgt_staging s)) (take n (tgt_prev s))) (reconstruct_buf s)"])
      (simp add: reconstruct_def bufs_ok_def slice_ok store_ok xor_delta_exact decoded_frame_def)
next
  case False
  have "s = s\<lparr>reconstruct_buf := reconstruct_buf s\<rparr>" by simp
  then show ?thesis using False assms
    by (intro exI [of _ "reconstruct_buf s"])
      (simp add: reconstruct_def bufs_ok_def slice_ok decoded_frame_def)
qed

lemma length_decoded_frame [simp]:
  "length payload \<le> length prev \<Longrightarrow> length (decoded_frame d payload prev) = length payload"
  by (simp add: decoded_frame_def)

lemma write_partial_eq:
  assumes "decoder_ok (tc_decompress cfg)" "bufs_ok cfg s" "length m = tc_capacity cfg"
    and "tc_decompress cfg compressed (tgt_staging s) = (r, st)"
  shows "\<exists>rb. length rb = tc_capacity cfg \<and>
    write_partial cfg w compressed m s = Inr (case r of
      Some n \<Rightarrow>
        if n < 112 then (None, s\<lparr>tgt_staging := st\<rparr>)
        else if tc_capacity cfg < wire_off w + (n - 112) then (None, s\<lparr>tgt_staging := st, reconstruct_buf := rb\<rparr>)
        else let fr = decoded_frame (delta_wire w) (take n st) (tgt_prev s) in
          (Some (n, [Map_Write (partial_map1 (wire_off w) fr m), Map_Write (partial_map2 (wire_off w) fr m)]),
           s\<lparr>tgt_staging := st, reconstruct_buf := rb, tgt_prev := blit 0 fr (tgt_prev s),
             tgt_map := Some (partial_map2 (wire_off w) fr m)\<rparr>)
    | None \<Rightarrow> (None, s\<lparr>tgt_staging := st\<rparr>))"
proof -
  have wf: "length (tgt_staging s) = tc_capacity cfg" "length (tgt_prev s) = tc_capacity cfg"
    "length (reconstruct_buf s) = tc_capacity cfg" using assms(2) by (simp_all add: bufs_ok_def)
  note dd = decoder_okD [OF assms(1,4)]
  have wfs: "bufs_ok cfg (s\<lparr>tgt_staging := st\<rparr>)" using assms(2) dd wf by (simp add: bufs_ok_def)
  show ?thesis
  proof (cases r)
    case None
    then show ?thesis using assms(4) wf(3) by (auto simp: write_partial_def)
  next
    case (Some n)
    show ?thesis
    proof (cases "n < 112")
      case True
      then show ?thesis using Some assms(4) wf(3) by (auto simp: write_partial_def IRSDK_HEADER_SIZE_def)
    next
      case False
      have n: "n \<le> tc_capacity cfg" using dd(2) [OF Some] wf by simp
      let ?fr = "decoded_frame (delta_wire w) (take n st) (tgt_prev s)"
      obtain rb where rb: "reconstruct cfg (delta_wire w) n (s\<lparr>tgt_staging := st\<rparr>) =
          Inr (Some ?fr, s\<lparr>tgt_staging := st, reconstruct_buf := rb\<rparr>)" "length rb = tc_capacity cfg"
        using reconstruct_eq [OF wfs n, of "delta_wire w"] by auto
      have lst: "length st = tc_capacity cfg" using dd(1) wf by simp
      then have lf: "length ?fr = n" using n wf by simp
      have a: "slice 112 n ?fr = Inr (drop 112 ?fr)" "slice 0 112 ?fr = Inr (take 112 ?fr)"
        using lf False by (simp_all add: slice_ok)
      have b: "store 0 ?fr (tgt_prev s) = Inr (blit 0 ?fr (tgt_prev s))" using lf n wf by (simp add: store_ok)
      show ?thesis
      proof (cases "tc_capacity cfg < wire_off w + (n - 112)")
        case True
        then show ?thesis using Some assms(3,4) rb False
          by (intro exI [of _ rb])
            (simp add: write_partial_def IRSDK_HEADER_SIZE_def delta_wire_def [symmetric] wire_off_def [symmetric] Let_def)
      next
        case fits: False
        have c: "store (wire_off w) (drop 112 ?fr) m = Inr (partial_map1 (wire_off w) ?fr m)"
          using lf fits assms(3) by (simp add: store_ok partial_map1_def IRSDK_HEADER_SIZE_def)
        have "length (partial_map1 (wire_off w) ?fr m) = tc_capacity cfg"
          using lf fits assms(3) by (simp add: partial_map1_def IRSDK_HEADER_SIZE_def)
        then have e: "store 0 (take 112 ?fr) (partial_map1 (wire_off w) ?fr m) = Inr (partial_map2 (wire_off w) ?fr m)"
          using lf n False by (simp add: store_ok partial_map2_def IRSDK_HEADER_SIZE_def)
        have "\<not> length m < 112" using n False assms(3) by simp
        then show ?thesis using Some assms(3,4) rb False fits a b c e
          by (intro exI [of _ rb])
            (simp add: write_partial_def IRSDK_HEADER_SIZE_def delta_wire_def [symmetric] wire_off_def [symmetric] Let_def)
      qed
    qed
  qed
qed

lemma partial_maps:
  assumes "length m = cap" "112 \<le> length fr" "off + (length fr - 112) \<le> cap" "112 \<le> cap"
  shows "length (partial_map1 off fr m) = cap" "length (partial_map2 off fr m) = cap"
    "i < cap \<Longrightarrow> partial_map1 off fr m ! i = (if off \<le> i \<and> i < off + (length fr - 112) then fr ! (112 + (i - off)) else m ! i)"
    "i < cap \<Longrightarrow> partial_map2 off fr m ! i = (if i < 112 then fr ! i
       else if off \<le> i \<and> i < off + (length fr - 112) then fr ! (112 + (i - off)) else m ! i)"
proof -
  show l1: "length (partial_map1 off fr m) = cap"
    using assms by (simp add: partial_map1_def IRSDK_HEADER_SIZE_def)
  then show "length (partial_map2 off fr m) = cap"
    using assms by (simp add: partial_map2_def IRSDK_HEADER_SIZE_def)
  show m1: "i < cap \<Longrightarrow> partial_map1 off fr m ! i = (if off \<le> i \<and> i < off + (length fr - 112) then fr ! (112 + (i - off)) else m ! i)" for i
    using assms by (auto simp: partial_map1_def IRSDK_HEADER_SIZE_def nth_blit)
  show "i < cap \<Longrightarrow> partial_map2 off fr m ! i = (if i < 112 then fr ! i
       else if off \<le> i \<and> i < off + (length fr - 112) then fr ! (112 + (i - off)) else m ! i)"
    using assms l1 m1 by (auto simp: partial_map2_def IRSDK_HEADER_SIZE_def nth_blit)
qed

section \<open>After a write\<close>

lemma wf_receiver_dropped [simp]: "wf_receiver (r\<lparr>dropped_sequences := n\<rparr>) = wf_receiver r"
  by (simp add: wf_receiver_def marked_def)

lemma note_written_frame [simp]:
  "tgt_staging (note_written ev w c n s) = tgt_staging s" "tgt_prev (note_written ev w c n s) = tgt_prev s"
  "reconstruct_buf (note_written ev w c n s) = reconstruct_buf s" "tgt_map (note_written ev w c n s) = tgt_map s"
  "has_full_frame (note_written ev w c n s) = has_full_frame s"
  "first_data_called (note_written ev w c n s) = first_data_called s"
  "source_addr (note_written ev w c n s) = source_addr s" "stub_running (note_written ev w c n s) = stub_running s"
  "last_resync_request (note_written ev w c n s) = last_resync_request s"
  "tgt_ibt (note_written ev w c n s) = tgt_ibt s"
  "wf_receiver (tgt_proto (note_written ev w c n s)) = wf_receiver (tgt_proto s)"
  "max_payload (tgt_proto (note_written ev w c n s)) = max_payload (tgt_proto s)"
  "current_seq (tgt_proto (note_written ev w c n s)) = current_seq (tgt_proto s)"
  by (simp_all add: note_written_def Let_def split: option.split)

text \<open>What a write to the map leaves alone: only the statistics, the clock and the disk writer move.\<close>

definition same_frame_state :: "'a target_state \<Rightarrow> 'a target_state \<Rightarrow> bool" where
  "same_frame_state s s' \<longleftrightarrow> tgt_staging s' = tgt_staging s \<and> tgt_prev s' = tgt_prev s \<and>
     reconstruct_buf s' = reconstruct_buf s \<and> tgt_map s' = tgt_map s \<and> has_full_frame s' = has_full_frame s \<and>
     first_data_called s' = first_data_called s \<and> source_addr s' = source_addr s \<and>
     stub_running s' = stub_running s \<and> last_resync_request s' = last_resync_request s \<and>
     (tgt_ibt s' = None \<longleftrightarrow> tgt_ibt s = None) \<and>
     wf_receiver (tgt_proto s') = wf_receiver (tgt_proto s) \<and> max_payload (tgt_proto s') = max_payload (tgt_proto s) \<and>
     current_seq (tgt_proto s') = current_seq (tgt_proto s)"

lemma same_frame_wf: "same_frame_state s s' \<Longrightarrow> wf_target cfg s' = wf_target cfg s"
  by (simp add: same_frame_state_def wf_target_def)

text \<open>The visible actions that follow a write: the signal, then at most the statistics line.\<close>

definition write_tail :: "'a action list \<Rightarrow> bool" where
  "write_tail acts \<longleftrightarrow> acts = [Signalled] \<or> (\<exists>st. acts = [Signalled, Stats_Callback (lifetime_snapshot st)])"

lemma after_write_cases:
  assumes "after_write ev w c n s = Inr (acts, s')"
  shows "same_frame_state s s' \<and> write_tail acts"
proof -
  let ?s1 = "(note_written ev w c n s)\<lparr>last_update := te_clock ev On_Written\<rparr>"
  obtain line st where line: "maybe_print (te_clock ev On_Window) (te_clock ev On_Printed) (tgt_stats ?s1) = Inr (line, st)"
    using maybe_print_returns [of "te_clock ev On_Window" "te_clock ev On_Printed" "tgt_stats ?s1"] by fastforce
  have "write_tail acts" using assms line
    by (auto simp: after_write_def Let_def write_tail_def rbind_eq_Inr split: option.splits)
  moreover have "same_frame_state s s'" using assms line
    by (auto simp: after_write_def Let_def same_frame_state_def rbind_eq_Inr split: option.splits)
  ultimately show ?thesis by simp
qed

lemma after_write_returns:
  assumes "tgt_ibt s = None"
  shows "\<exists>acts s'. after_write ev w c n s = Inr (acts, s') \<and> tgt_ibt s' = None"
proof -
  let ?s1 = "(note_written ev w c n s)\<lparr>last_update := te_clock ev On_Written\<rparr>"
  obtain line st where "maybe_print (te_clock ev On_Window) (te_clock ev On_Printed) (tgt_stats ?s1) = Inr (line, st)"
    using maybe_print_returns [of "te_clock ev On_Window" "te_clock ev On_Printed" "tgt_stats ?s1"] by fastforce
  with assms show ?thesis by (simp add: after_write_def Let_def)
qed

section \<open>A reassembled message\<close>

text \<open>The map the target writes to: the one it has, else the one it creates, with what that holds.\<close>

definition the_map :: "target_config \<Rightarrow> 'a target_env \<Rightarrow> 'a target_state \<Rightarrow> byte list" where
  "the_map cfg ev s = (case tgt_map s of
      Some m \<Rightarrow> m
    | None \<Rightarrow> (case create_map cfg ev of Some m \<Rightarrow> m | None \<Rightarrow> replicate (tc_capacity cfg) 0))"

definition created :: "target_config \<Rightarrow> 'a target_env \<Rightarrow> 'a target_state \<Rightarrow> 'a action list" where
  "created cfg ev s = (case tgt_map s of Some _ \<Rightarrow> [] | None \<Rightarrow> [Map_Created (the_map cfg ev s)])"

lemma length_create_map: "create_map cfg ev = Some m \<Longrightarrow> length m = tc_capacity cfg"
  by (auto simp: create_map_def)

lemma length_the_map: "wf_target cfg s \<Longrightarrow> length (the_map cfg ev s) = tc_capacity cfg"
  by (auto simp: the_map_def wf_target_def length_create_map split: option.split)

lemma the_map_Some: "tgt_map s = Some m \<Longrightarrow> the_map cfg ev s = m"
  by (simp add: the_map_def)

text \<open>What a message does to a map that is there, and the state it does it in.\<close>

definition write_frame ::
  "target_config \<Rightarrow> 'a target_env \<Rightarrow> u32 \<Rightarrow> byte list \<Rightarrow> 'a target_state \<Rightarrow>
   ((nat \<times> 'a action list) option \<times> 'a target_state) rust" where
  "write_frame cfg ev w c s =
     (let m = the_map cfg ev s; s0 = s\<lparr>tgt_map := Some m\<rparr>
      in if w = U32_MAX then write_session cfg ev c m s0 else write_partial cfg w c m s0)"

definition opened :: "'a target_env \<Rightarrow> 'a target_state \<Rightarrow> bool" where
  "opened ev s \<longleftrightarrow> tgt_map s \<noteq> None \<or> te_create ev \<noteq> None"

definition wanted :: "u32 \<Rightarrow> 'a target_state \<Rightarrow> bool" where
  "wanted w s \<longleftrightarrow> w = U32_MAX \<or> has_full_frame s"

lemma deliver_refused:
  "\<not> opened ev s \<Longrightarrow> deliver cfg ev w c s = Inr ((Returns_Err, False, fst (leave ev s)), snd (leave ev s))"
  by (simp add: deliver_def opened_def create_map_def split_beta)

lemma deliver_ignored:
  "opened ev s \<Longrightarrow> \<not> wanted w s \<Longrightarrow>
   deliver cfg ev w c s = Inr ((Continues, True, created cfg ev s), s\<lparr>tgt_map := Some (the_map cfg ev s)\<rparr>)"
  by (cases "tgt_map s") (auto simp add: deliver_def opened_def wanted_def the_map_def created_def create_map_def Let_def)

lemma deliver_dropped:
  "opened ev s \<Longrightarrow> wanted w s \<Longrightarrow> write_frame cfg ev w c s = Inr (None, s1) \<Longrightarrow>
   deliver cfg ev w c s = Inr ((Continues, False, created cfg ev s), s1)"
  by (cases "tgt_map s"; cases "w = U32_MAX")
    (auto simp add: deliver_def opened_def wanted_def the_map_def created_def create_map_def Let_def write_frame_def)

lemma deliver_wrote:
  "opened ev s \<Longrightarrow> wanted w s \<Longrightarrow> write_frame cfg ev w c s = Inr (Some (n, acts), s1) \<Longrightarrow>
   deliver cfg ev w c s = rbind (after_write ev w c n s1)
     (\<lambda>(acts', s2). Inr ((Continues, True, created cfg ev s @ acts @ acts'), s2))"
  by (cases "tgt_map s"; cases "w = U32_MAX")
    (auto simp add: deliver_def opened_def wanted_def the_map_def created_def create_map_def Let_def write_frame_def)

lemma session_state_frame [simp]:
  "tgt_proto (session_state ev cfg st n m s) = tgt_proto s" "tgt_ibt (session_state ev cfg st n m s) = tgt_ibt s"
  "has_full_frame (session_state ev cfg st n m s)" "source_addr (session_state ev cfg st n m s) = source_addr s"
  "tgt_map (session_state ev cfg st n m s) = Some (last (session_snapshots st n m))"
  "tgt_prev (session_state ev cfg st n m s) = replicate (length (tgt_prev s)) 0"
  "reconstruct_buf (session_state ev cfg st n m s) = reconstruct_buf s"
  "tgt_staging (session_state ev cfg st n m s) = st"
  by (simp_all add: session_state_def)

lemma write_session_wf:
  assumes "decoder_ok (tc_decompress cfg)" "wf_target cfg s" "length m = tc_capacity cfg" "8 \<le> tc_capacity cfg"
  shows "\<exists>wrote s'. write_session cfg ev c m s = Inr (wrote, s') \<and> wf_target cfg s' \<and> tgt_ibt s' = tgt_ibt s"
proof -
  obtain r st where d: "tc_decompress cfg c (tgt_staging s) = (r, st)" by force
  have l: "length st = tc_capacity cfg" "\<And>n. r = Some n \<Longrightarrow> n \<le> tc_capacity cfg"
    using decoder_okD [OF assms(1) d] assms(2) by (auto simp: wf_target_def)
  have "wf_target cfg (s\<lparr>tgt_staging := st\<rparr>)" using assms(2) l by (simp add: wf_target_def)
  moreover have "wf_target cfg (session_state ev cfg st n m s)" if "r = Some n" "\<not> n < 8" for n
    using assms(2) l that last_session_snapshots(1) [OF assms(3) l(1), of n] by (simp add: wf_target_def)
  ultimately show ?thesis unfolding write_session_eq [OF assms(1) wf_target_bufs [OF assms(2)] assms(3,4) d] by (auto split: option.split)
qed

lemma write_partial_wf:
  assumes "decoder_ok (tc_decompress cfg)" "wf_target cfg s" "length m = tc_capacity cfg"
  shows "\<exists>wrote s'. write_partial cfg w c m s = Inr (wrote, s') \<and> wf_target cfg s' \<and> tgt_ibt s' = tgt_ibt s"
proof -
  obtain r st where d: "tc_decompress cfg c (tgt_staging s) = (r, st)" by force
  note wf = assms(2) [unfolded wf_target_def]
  have l: "length st = tc_capacity cfg" "\<And>n. r = Some n \<Longrightarrow> n \<le> tc_capacity cfg"
    using decoder_okD [OF assms(1) d] wf by auto
  obtain rb where rb: "length rb = tc_capacity cfg" and eq: "write_partial cfg w c m s = Inr (case r of
      Some n \<Rightarrow>
        if n < 112 then (None, s\<lparr>tgt_staging := st\<rparr>)
        else if tc_capacity cfg < wire_off w + (n - 112) then (None, s\<lparr>tgt_staging := st, reconstruct_buf := rb\<rparr>)
        else let fr = decoded_frame (delta_wire w) (take n st) (tgt_prev s) in
          (Some (n, [Map_Write (partial_map1 (wire_off w) fr m), Map_Write (partial_map2 (wire_off w) fr m)]),
           s\<lparr>tgt_staging := st, reconstruct_buf := rb, tgt_prev := blit 0 fr (tgt_prev s),
             tgt_map := Some (partial_map2 (wire_off w) fr m)\<rparr>)
    | None \<Rightarrow> (None, s\<lparr>tgt_staging := st\<rparr>))"
    using write_partial_eq [OF assms(1) wf_target_bufs [OF assms(2)] assms(3) d, of w] by auto
  have "length (partial_map2 (wire_off w) (decoded_frame (delta_wire w) (take n st) (tgt_prev s)) m) = tc_capacity cfg"
    if "r = Some n" "\<not> n < 112" "\<not> tc_capacity cfg < wire_off w + (n - 112)" for n
    using that l wf by (intro partial_maps(2) assms(3)) auto
  moreover have "length (blit 0 (decoded_frame (delta_wire w) (take n st) (tgt_prev s)) (tgt_prev s)) = tc_capacity cfg"
    if "r = Some n" for n using that l wf by simp
  ultimately show ?thesis unfolding eq using wf l rb
    by (auto simp: wf_target_def Let_def split: option.split)
qed

lemma leave_wf [simp]: "wf_target cfg (snd (leave ev s)) = wf_target cfg s"
  "tgt_ibt (snd (leave ev s)) = None \<longleftrightarrow> tgt_ibt s = None"
  by (simp_all add: leave_def wf_target_def)

lemma request_resync_wf [simp]: "wf_target cfg (snd (request_resync ev s)) = wf_target cfg s"
  "tgt_ibt (snd (request_resync ev s)) = tgt_ibt s"
  by (auto simp: request_resync_def wf_target_def split: option.split)

text \<open>The configuration the loop is started with: a decompressor that keeps to its buffer and
  a map that holds the header.\<close>

definition target_config_ok :: "target_config \<Rightarrow> bool" where
  "target_config_ok cfg \<longleftrightarrow> decoder_ok (tc_decompress cfg) \<and> 8 \<le> tc_capacity cfg"

lemma write_frame_wf:
  assumes "target_config_ok cfg" "wf_target cfg s"
  shows "\<exists>wrote s'. write_frame cfg ev w c s = Inr (wrote, s') \<and> wf_target cfg s' \<and> tgt_ibt s' = tgt_ibt s"
proof -
  have lm: "length (the_map cfg ev s) = tc_capacity cfg" using assms(2) by (rule length_the_map)
  then have wf0: "wf_target cfg (s\<lparr>tgt_map := Some (the_map cfg ev s)\<rparr>)" using assms(2) by (simp add: wf_target_def)
  show ?thesis
  proof (cases "w = U32_MAX")
    case True
    then show ?thesis using write_session_wf [OF _ wf0 lm, of ev c] assms(1)
      by (auto simp: target_config_ok_def write_frame_def Let_def)
  next
    case False
    then show ?thesis using write_partial_wf [OF _ wf0 lm, of w c] assms(1)
      by (auto simp: target_config_ok_def write_frame_def Let_def)
  qed
qed

lemma deliver_wf:
  assumes "target_config_ok cfg" "wf_target cfg s" "deliver cfg ev w c s = Inr (out, s')"
  shows "wf_target cfg s' \<and> (tgt_ibt s' = None \<longleftrightarrow> tgt_ibt s = None)"
proof (cases "opened ev s \<and> wanted w s")
  case True
  obtain wrote s1 where wr: "write_frame cfg ev w c s = Inr (wrote, s1)" "wf_target cfg s1" "tgt_ibt s1 = tgt_ibt s"
    using write_frame_wf [OF assms(1,2)] by blast
  show ?thesis
  proof (cases wrote)
    case None
    with wr True assms(3) show ?thesis by (simp add: deliver_dropped)
  next
    case (Some x)
    obtain n acts where "wrote = Some (n, acts)" using Some by (cases x) simp
    with wr True assms(3) obtain acts' where "after_write ev w c n s1 = Inr (acts', s')"
      by (auto simp: deliver_wrote rbind_eq_Inr)
    then have "same_frame_state s1 s'" using after_write_cases by blast
    with wr(2,3) show ?thesis by (simp add: same_frame_wf) (simp add: same_frame_state_def)
  qed
next
  case False
  have "wf_target cfg (s\<lparr>tgt_map := Some (the_map cfg ev s)\<rparr>)"
    using assms(2) length_the_map [OF assms(2)] by (simp add: wf_target_def)
  with False assms show ?thesis
    by (cases "opened ev s") (auto simp: deliver_refused deliver_ignored)
qed

lemma deliver_returns:
  assumes "target_config_ok cfg" "wf_target cfg s" "tgt_ibt s = None"
  shows "returns (deliver cfg ev w c s)"
proof (cases "opened ev s \<and> wanted w s")
  case True
  obtain wrote s1 where wr: "write_frame cfg ev w c s = Inr (wrote, s1)" "tgt_ibt s1 = None"
    using write_frame_wf [OF assms(1,2)] assms(3) by metis
  show ?thesis
  proof (cases wrote)
    case None
    with wr(1) True show ?thesis using deliver_dropped by blast
  next
    case (Some x)
    obtain n acts where x: "wrote = Some (n, acts)" using Some by (cases x) simp
    obtain acts' s2 where "after_write ev w c n s1 = Inr (acts', s2)" using after_write_returns [OF wr(2)] by blast
    with wr(1) True x show ?thesis by (metis deliver_wrote rbind_simps(2) prod.case)
  qed
next
  case False
  then show ?thesis using deliver_refused deliver_ignored by blast
qed

section \<open>One iteration\<close>

text \<open>The state in which a message is handed on, after the receiver took the datagram.\<close>

definition received_state :: "'a target_env \<Rightarrow> 'a \<Rightarrow> bool \<Rightarrow> receiver \<Rightarrow> 'a target_state \<Rightarrow> 'a target_state" where
  "received_state ev src opens proto s = s\<lparr>source_addr := Some src, tgt_proto := proto,
     seq_start := (if opens then Some (te_clock ev On_Sequence) else seq_start s)\<rparr>"

lemma received_state_simps [simp]:
  "tgt_map (received_state ev src b proto s) = tgt_map s" "tgt_prev (received_state ev src b proto s) = tgt_prev s"
  "has_full_frame (received_state ev src b proto s) = has_full_frame s"
  "tgt_staging (received_state ev src b proto s) = tgt_staging s"
  "reconstruct_buf (received_state ev src b proto s) = reconstruct_buf s"
  "first_data_called (received_state ev src b proto s) = first_data_called s"
  "stub_running (received_state ev src b proto s) = stub_running s"
  "tgt_ibt (received_state ev src b proto s) = tgt_ibt s" "tgt_proto (received_state ev src b proto s) = proto"
  "source_addr (received_state ev src b proto s) = Some src"
  "last_resync_request (received_state ev src b proto s) = last_resync_request s"
  "last_update (received_state ev src b proto s) = last_update s"
  by (simp_all add: received_state_def)

lemma received_bufs_ok [simp]:
  "bufs_ok cfg (received_state ev src b proto s) = bufs_ok cfg s"
  "bufs_ok cfg (s\<lparr>tgt_map := m\<rparr>) = bufs_ok cfg s"
  by (simp_all add: bufs_ok_def)

lemma received_state_wf:
  "wf_target cfg s \<Longrightarrow> wf_receiver proto \<Longrightarrow> max_payload proto = max_payload (tgt_proto s) \<Longrightarrow>
   wf_target cfg (received_state ev src b proto s)"
  by (simp add: wf_target_def)

text \<open>The resync request at the end of an iteration.\<close>

fun asked :: "'a target_env \<Rightarrow> (target_exit \<times> bool \<times> 'a action list) \<times> 'a target_state \<Rightarrow>
    (target_exit \<times> 'a action list) \<times> 'a target_state" where
  "asked ev ((exit, falls_through, acts), s) =
     (if falls_through then ((exit, acts @ fst (request_resync ev s)), snd (request_resync ev s))
      else ((exit, acts), s))"

lemma receive_step_eq:
  assumes "ingest (tgt_proto s) (take MAX_DATAGRAM_SIZE dg) = Inr (res, proto)"
  shows "receive_step cfg ev dg src s =
    rbind (if heartbeat res then Inr ((Continues, True, []),
              (received_state ev src False proto s)\<lparr>last_update := te_clock ev On_Heartbeat\<rparr>)
           else case assembled res of
               None \<Rightarrow> Inr ((Continues, True, []), received_state ev src (new_seq res) proto s)
             | Some c \<Rightarrow> deliver cfg ev (ing_buf_offset res) c (received_state ev src (new_seq res) proto s))
      (\<lambda>r. Inr (asked ev r))"
proof -
  have s2: "(if new_seq res then (received_state ev src False proto s)\<lparr>seq_start := Some (te_clock ev On_Sequence)\<rparr>
      else received_state ev src False proto s) = received_state ev src (new_seq res) proto s"
    by (simp add: received_state_def)
  have s1: "s\<lparr>source_addr := Some src, tgt_proto := proto\<rparr> = received_state ev src False proto s"
    by (simp add: received_state_def)
  have tail: "(\<lambda>((exit, falls_through, acts), s3).
        if falls_through then case request_resync ev s3 of (acts', s4) \<Rightarrow> Inr ((exit, acts @ acts'), s4)
        else Inr ((exit, acts), s3)) = (\<lambda>r. Inr (asked ev r))"
    by (auto simp: fun_eq_iff Let_def split: prod.split)
  show ?thesis unfolding receive_step_def Let_def assms rbind_simps prod.case s1 s2 tail ..
qed

lemma asked_wf [simp]:
  "wf_target cfg (snd (asked ev r)) = wf_target cfg (snd r)" "tgt_ibt (snd (asked ev r)) = tgt_ibt (snd r)"
  by (cases "(ev, r)" rule: asked.cases; simp)+

text \<open>What an iteration that receives a datagram hands to the tail of the loop.\<close>

definition taken ::
  "target_config \<Rightarrow> 'a target_env \<Rightarrow> ingested \<Rightarrow> 'a target_state \<Rightarrow>
   ((target_exit \<times> bool \<times> 'a action list) \<times> 'a target_state) rust" where
  "taken cfg ev res s =
     (if heartbeat res then Inr ((Continues, True, []), s\<lparr>last_update := te_clock ev On_Heartbeat\<rparr>)
      else case assembled res of
        None \<Rightarrow> Inr ((Continues, True, []), s)
      | Some c \<Rightarrow> deliver cfg ev (ing_buf_offset res) c s)"

lemma received_wf:
  assumes "wf_target cfg s"
  obtains res proto where "ingest (tgt_proto s) (take MAX_DATAGRAM_SIZE dg) = Inr (res, proto)"
    "\<And>opens. wf_target cfg (received_state ev src opens proto s)"
    "receive_step cfg ev dg src s =
       rbind (taken cfg ev res (received_state ev src (new_seq res \<and> \<not> heartbeat res) proto s)) (\<lambda>r. Inr (asked ev r))"
proof -
  obtain res proto where i: "ingest (tgt_proto s) (take MAX_DATAGRAM_SIZE dg) = Inr (res, proto)"
    "wf_receiver proto" "max_payload proto = max_payload (tgt_proto s)"
    using ingest_ok [of "tgt_proto s" "take MAX_DATAGRAM_SIZE dg"] assms by (auto simp: wf_target_def)
  show ?thesis
  proof (rule that [OF i(1)])
    show "wf_target cfg (received_state ev src opens proto s)" for opens
      by (rule received_state_wf [OF assms i(2,3)])
    show "receive_step cfg ev dg src s =
       rbind (taken cfg ev res (received_state ev src (new_seq res \<and> \<not> heartbeat res) proto s)) (\<lambda>r. Inr (asked ev r))"
      unfolding receive_step_eq [OF i(1)] taken_def by (cases "heartbeat res") (auto split: option.split)
  qed
qed

lemma taken_wf:
  assumes "target_config_ok cfg" "wf_target cfg s" "taken cfg ev res s = Inr r"
  shows "wf_target cfg (snd r) \<and> (tgt_ibt (snd r) = None \<longleftrightarrow> tgt_ibt s = None)"
proof (cases "heartbeat res \<or> assembled res = None")
  case True
  then show ?thesis using assms(2,3) by (auto simp: taken_def wf_target_def split: if_splits)
next
  case False
  then obtain c where "deliver cfg ev (ing_buf_offset res) c s = Inr r" using assms(3) by (auto simp: taken_def)
  then show ?thesis using deliver_wf [OF assms(1,2)] by (cases r) auto
qed

lemma taken_returns:
  "target_config_ok cfg \<Longrightarrow> wf_target cfg s \<Longrightarrow> tgt_ibt s = None \<Longrightarrow> \<exists>r. taken cfg ev res s = Inr r"
  using deliver_returns by (auto simp: taken_def split: option.split)

lemma stale_step_wf [simp]:
  "wf_target cfg s \<Longrightarrow> wf_target cfg (snd (stale_step cfg ev s))"
  "tgt_ibt (snd (stale_step cfg ev s)) = None \<longleftrightarrow> tgt_ibt s = None"
  by (auto simp: stale_step_def wf_target_def split: option.split)

lemma target_step_wf:
  assumes "target_config_ok cfg" "wf_target cfg s" "target_step cfg s ev = Inr (out, s')"
  shows "wf_target cfg s' \<and> (tgt_ibt s' = None \<longleftrightarrow> tgt_ibt s = None)"
proof -
  have leave: "wf_target cfg t' \<and> (tgt_ibt t' = None \<longleftrightarrow> tgt_ibt s = None)" if "leave ev s = (acts, t')" for acts t'
    using assms(2) that leave_wf [where ev = ev and s = s] by (metis snd_conv)
  have "wf_target cfg s' \<and> (tgt_ibt s' = None \<longleftrightarrow> tgt_ibt s = None)"
    if r: "receive_step cfg ev dg src s = Inr (out, s')" for dg src
  proof -
    obtain res proto where st: "wf_target cfg (received_state ev src (new_seq res \<and> \<not> heartbeat res) proto s)"
      "receive_step cfg ev dg src s =
       rbind (taken cfg ev res (received_state ev src (new_seq res \<and> \<not> heartbeat res) proto s)) (\<lambda>r. Inr (asked ev r))"
      using received_wf [OF assms(2)] by metis
    then obtain x where "taken cfg ev res (received_state ev src (new_seq res \<and> \<not> heartbeat res) proto s) = Inr x"
      "s' = snd (asked ev x)" using r unfolding st(2) rbind_eq_Inr by (metis sum.inject(2) snd_conv)
    then show ?thesis using taken_wf [OF assms(1) st(1)] by auto
  qed
  moreover have "wf_target cfg s' \<and> (tgt_ibt s' = None \<longleftrightarrow> tgt_ibt s = None)" if "stale_step cfg ev s = (out, s')"
    using that assms(2) stale_step_wf [where cfg = cfg and ev = ev and s = s] by (metis snd_conv)
  ultimately show ?thesis using assms(3) leave
    by (auto simp: target_step_def Let_def split: if_splits received_packet.splits prod.splits)
qed

lemma target_step_returns:
  assumes "target_config_ok cfg" "wf_target cfg s" "tgt_ibt s = None"
  shows "returns (target_step cfg s ev)"
proof -
  have "returns (receive_step cfg ev dg src s)" for dg src
  proof -
    obtain res proto where st: "wf_target cfg (received_state ev src (new_seq res \<and> \<not> heartbeat res) proto s)"
      "receive_step cfg ev dg src s =
       rbind (taken cfg ev res (received_state ev src (new_seq res \<and> \<not> heartbeat res) proto s)) (\<lambda>r. Inr (asked ev r))"
      using received_wf [OF assms(2)] by metis
    moreover obtain r where "taken cfg ev res (received_state ev src (new_seq res \<and> \<not> heartbeat res) proto s) = Inr r"
      using taken_returns [OF assms(1) st(1)] assms(3) received_state_simps(8) by metis
    ultimately show ?thesis by auto
  qed
  then show ?thesis by (cases "stale_step cfg ev s") (auto simp: target_step_def Let_def split: received_packet.split prod.split)
qed

section \<open>The loop as a machine\<close>

interpretation tgt: safe_machine "target_step cfg"
  "\<lambda>s. target_config_ok cfg \<and> wf_target cfg s \<and> tgt_ibt s = None" "\<lambda>_. True" for cfg :: target_config
  by unfold_locales (use target_step_wf target_step_returns in blast)+

end
