(* ===== verification/Target_Display.thy ===== *)
theory Target_Display
  imports Target_Step
begin

text \<open>
  The abstract specification of the target: a display, which is the shared map, the flags that
  depend on it and the delta reference, with six kinds of steps. The detailed loop, with its
  receiver, clocks, statistics, decompressor and disk writer, refines it; the invariant of the
  flags and the correspondence between the visible actions and the map are proved on the display.
\<close>

record core =
  shown :: "byte list option"
  live :: bool
  announced :: bool
  reference :: "byte list"
  stubbed :: bool

definition core_of :: "'a target_state \<Rightarrow> core" where
  "core_of s = \<lparr>shown = tgt_map s, live = has_full_frame s, announced = first_data_called s,
     reference = tgt_prev s, stubbed = stub_running s\<rparr>"

lemma core_of_simps [simp]:
  "shown (core_of s) = tgt_map s" "live (core_of s) = has_full_frame s"
  "announced (core_of s) = first_data_called s" "reference (core_of s) = tgt_prev s"
  "stubbed (core_of s) = stub_running s"
  by (simp_all add: core_of_def)

definition blank_map :: "target_config \<Rightarrow> byte list" where
  "blank_map cfg = replicate (tc_capacity cfg) 0"

text \<open>The map a step works on, \<open>c\<close> being the region the system hands out in that step, if it does.\<close>

definition backing :: "byte list option \<Rightarrow> core \<Rightarrow> byte list option" where
  "backing c x = (case shown x of Some m \<Rightarrow> Some m | None \<Rightarrow> c)"

definition making :: "core \<Rightarrow> byte list \<Rightarrow> 'a action list" where
  "making x m = (case shown x of Some _ \<Rightarrow> [] | None \<Rightarrow> [Map_Created m])"

definition asking :: "'a action list \<Rightarrow> bool" where
  "asking acts \<longleftrightarrow> acts = [] \<or> (\<exists>a. acts = [Resync_Request [1, 1] a])"

text \<open>One step of the display, with the region it may be handed and the actions it makes visible.\<close>

inductive display :: "target_config \<Rightarrow> byte list option \<Rightarrow> core \<Rightarrow> 'a action list \<Rightarrow> target_exit \<Rightarrow> core \<Rightarrow> bool"
  for cfg c where
  idle: "asking acts \<Longrightarrow> \<not> (live x \<and> acts \<noteq> []) \<Longrightarrow> display cfg c x acts Continues x"
| unused: "backing c x = Some m \<Longrightarrow> asking acts \<Longrightarrow> \<not> (live x \<and> acts \<noteq> []) \<Longrightarrow>
    display cfg c x (making x m @ acts) Continues (x\<lparr>shown := Some m\<rparr>)"
| session: "backing c x = Some m \<Longrightarrow> 8 \<le> n \<Longrightarrow> n \<le> tc_capacity cfg \<Longrightarrow> length st = tc_capacity cfg \<Longrightarrow> write_tail tail \<Longrightarrow>
    display cfg c x (making x m @ List.map Map_Write (session_snapshots st n m)
        @ (if announced x then [] else [First_Data])
        @ (if tc_fanalab cfg \<and> \<not> stubbed x \<and> started then [Stub_Started] else []) @ tail) Continues
      \<lparr>shown = Some (last (session_snapshots st n m)), live = True, announced = True,
       reference = replicate (length (reference x)) 0,
       stubbed = (if tc_fanalab cfg \<and> \<not> stubbed x then started else stubbed x)\<rparr>"
| partial: "backing c x = Some m \<Longrightarrow> live x \<Longrightarrow> 112 \<le> length fr \<Longrightarrow> length fr \<le> tc_capacity cfg \<Longrightarrow>
    off + (length fr - 112) \<le> tc_capacity cfg \<Longrightarrow> write_tail tail \<Longrightarrow>
    display cfg c x (making x m @ [Map_Write (partial_map1 off fr m), Map_Write (partial_map2 off fr m)] @ tail) Continues
      (x\<lparr>shown := Some (partial_map2 off fr m), reference := blit 0 fr (reference x)\<rparr>)"
| timeout: "shown x = Some m \<Longrightarrow>
    display cfg c x ([Map_Write (replicate (length m) 0), Map_Closed (replicate (length m) 0), Stale]
        @ (if stubbed x then [Stub_Stopped] else [])) Continues
      \<lparr>shown = None, live = False, announced = False, reference = replicate (length (reference x)) 0,
       stubbed = False\<rparr>"
| leaving: "exit \<noteq> Continues \<Longrightarrow>
    display cfg c x ((if stubbed x then [Stub_Stopped] else [])
        @ (case shown x of Some m \<Rightarrow> [Map_Closed m] | None \<Rightarrow> [])) exit (x\<lparr>stubbed := False\<rparr>)"


section \<open>The loop refines the display\<close>

lemma core_the_map:
  "opened ev s \<Longrightarrow> backing (create_map cfg ev) (core_of s) = Some (the_map cfg ev s)"
  "making (core_of s) (the_map cfg ev s) = created cfg ev s"
  by (auto simp: backing_def the_map_def making_def created_def opened_def create_map_def split: option.split)

lemma core_received [simp]: "core_of (received_state ev src b proto s) = core_of s"
  by (simp add: core_of_def)

lemma core_same: "same_frame_state s s' \<Longrightarrow> core_of s' = core_of s"
  by (simp add: same_frame_state_def core_of_def)

lemma leave_display: "exit \<noteq> Continues \<Longrightarrow> display cfg c (core_of s) (fst (leave ev s)) exit (core_of (snd (leave ev s)))"
proof -
  have "core_of (snd (leave ev s)) = (core_of s)\<lparr>stubbed := False\<rparr>" by (simp add: leave_def core_of_def)
  then show "exit \<noteq> Continues \<Longrightarrow> ?thesis" using leaving [where cfg = cfg and c = c and x = "core_of s"]
    by (simp only: leave_def fst_conv core_of_simps)
qed

lemma request_resync_core:
  "core_of (snd (request_resync ev s)) = core_of s" "asking (fst (request_resync ev s))"
  "has_full_frame s \<Longrightarrow> fst (request_resync ev s) = []"
  by (auto simp: request_resync_def core_of_def asking_def split: option.split)

lemma write_frame_cases:
  fixes s s1 :: "'a target_state"
  assumes "target_config_ok cfg" "wf_target cfg s" "wanted w s" "opened ev s" "write_frame cfg ev w c s = Inr (wrote, s1)"
  shows "case wrote of
      None \<Rightarrow> core_of s1 = (core_of s)\<lparr>shown := Some (the_map cfg ev s)\<rparr>
    | Some (n, acts) \<Rightarrow> live (core_of s1) \<and>
        (\<forall>tail. write_tail tail \<longrightarrow> display cfg (create_map cfg ev) (core_of s) (created cfg ev s @ acts @ tail) Continues (core_of s1))"
proof -
  let ?m = "the_map cfg ev s" let ?c = "create_map cfg ev" let ?s0 = "s\<lparr>tgt_map := Some ?m\<rparr>" let ?cap = "tc_capacity cfg"
  have ok: "decoder_ok (tc_decompress cfg)" "8 \<le> ?cap" using assms(1) by (simp_all add: target_config_ok_def)
  have lm: "length ?m = ?cap" using assms(2) by (rule length_the_map)
  have b: "bufs_ok cfg ?s0" using wf_target_bufs [OF assms(2)] by simp
  obtain r st where d: "tc_decompress cfg c (tgt_staging ?s0) = (r, st)" by force
  have l: "length st = ?cap" "r = Some n \<Longrightarrow> n \<le> ?cap" for n
    using decoder_okD [OF ok(1) d] b by (simp_all add: bufs_ok_def)
  have prev: "length (tgt_prev s) = ?cap" using b by (simp add: bufs_ok_def)
  have core0: "core_of ?s0 = (core_of s)\<lparr>shown := Some ?m\<rparr>" by (simp add: core_of_def)
  note con = core_the_map(2) [of s cfg ev] and got = core_the_map(1) [OF assms(4), of cfg]
  show ?thesis
  proof (cases "w = U32_MAX")
    case True
    have eq: "write_frame cfg ev w c s = write_session cfg ev c ?m ?s0" using True by (simp add: write_frame_def Let_def)
    show ?thesis
    proof (cases "\<exists>n. r = Some n \<and> 8 \<le> n")
      case True
      then obtain n where n: "r = Some n" "8 \<le> n" by blast
      have wrote: "wrote = Some (n, List.map Map_Write (session_snapshots st n ?m)
            @ (if first_data_called s then [] else [First_Data])
            @ (if tc_fanalab cfg \<and> \<not> stub_running s \<and> te_stub ev then [Stub_Started] else []))"
        and s1: "s1 = session_state ev cfg st n ?m ?s0"
        using assms(5) n unfolding eq write_session_eq [OF ok(1) b lm ok(2) d] by simp_all
      have c1: "core_of (session_state ev cfg st n ?m ?s0) =
        \<lparr>shown = Some (last (session_snapshots st n ?m)), live = True, announced = True,
         reference = replicate (length (tgt_prev s)) 0,
         stubbed = (if tc_fanalab cfg \<and> \<not> stub_running s then te_stub ev else stub_running s)\<rparr>"
        by (simp add: session_state_def core_of_def)
      note step = session [where 'a = 'a and cfg = cfg and x = "core_of s" and started = "te_stub ev",
          OF got n(2) l(2) [OF n(1)] l(1), unfolded con core_of_simps]
      have "live (core_of s1)" and "write_tail tail \<Longrightarrow> display cfg ?c (core_of s)
          (created cfg ev s @ snd (the wrote) @ tail) Continues (core_of s1)" for tail
        using step unfolding wrote s1 c1 by (simp_all only: option.sel snd_conv append_assoc core.simps)
      then show ?thesis using wrote by auto
    next
      case False
      then have "wrote = None" "s1 = ?s0\<lparr>tgt_staging := st\<rparr>"
        using assms(5) unfolding eq write_session_eq [OF ok(1) b lm ok(2) d] by (auto split: option.splits if_splits)
      then show ?thesis by (simp add: core_of_def)
    qed
  next
    case False
    have eq: "write_frame cfg ev w c s = write_partial cfg w c ?m ?s0" using False by (simp add: write_frame_def Let_def)
    obtain rb where wp: "write_partial cfg w c ?m ?s0 = Inr (case r of
      Some n \<Rightarrow>
        if n < 112 then (None, ?s0\<lparr>tgt_staging := st\<rparr>)
        else if ?cap < wire_off w + (n - 112) then (None, ?s0\<lparr>tgt_staging := st, reconstruct_buf := rb\<rparr>)
        else let fr = decoded_frame (delta_wire w) (take n st) (tgt_prev ?s0) in
          (Some (n, [Map_Write (partial_map1 (wire_off w) fr ?m), Map_Write (partial_map2 (wire_off w) fr ?m)]),
           ?s0\<lparr>tgt_staging := st, reconstruct_buf := rb, tgt_prev := blit 0 fr (tgt_prev ?s0),
             tgt_map := Some (partial_map2 (wire_off w) fr ?m)\<rparr>)
    | None \<Rightarrow> (None, ?s0\<lparr>tgt_staging := st\<rparr>))"
      using write_partial_eq [OF ok(1) b lm d, of w] by auto
    show ?thesis
    proof (cases "\<exists>n. r = Some n \<and> 112 \<le> n \<and> wire_off w + (n - 112) \<le> ?cap")
      case True
      then obtain n where n: "r = Some n" "112 \<le> n" "wire_off w + (n - 112) \<le> ?cap" by blast
      let ?fr = "decoded_frame (delta_wire w) (take n st) (tgt_prev s)"
      have lf: "length ?fr = n" using n l prev by simp
      have "wrote = Some (n, [Map_Write (partial_map1 (wire_off w) ?fr ?m), Map_Write (partial_map2 (wire_off w) ?fr ?m)])"
        "core_of s1 = (core_of s)\<lparr>shown := Some (partial_map2 (wire_off w) ?fr ?m), reference := blit 0 ?fr (tgt_prev s)\<rparr>"
        using assms(5) n unfolding eq wp by (auto simp: Let_def core_of_def)
      moreover have "live (core_of s)" using assms(3) False by (simp add: wanted_def)
      ultimately show ?thesis
        using partial [where 'a = 'a and cfg = cfg and x = "core_of s" and fr = ?fr and off = "wire_off w", OF got] n l(2) [OF n(1)] lf by (simp add: con)
    next
      case False
      then have "wrote = None" "core_of s1 = core_of ?s0"
        using assms(5) unfolding eq wp by (auto simp: Let_def core_of_def split: option.splits if_splits)
      then show ?thesis using core0 by simp
    qed
  qed
qed

lemma deliver_display:
  fixes s s' :: "'a target_state"
  assumes "target_config_ok cfg" "wf_target cfg s" "deliver cfg ev w c s = Inr ((exit, falls_through, acts), s')"
    and "asking tail" "has_full_frame s' \<Longrightarrow> tail = []" "falls_through \<or> tail = []"
  shows "display cfg (create_map cfg ev) (core_of s) (acts @ tail) exit (core_of s')"
proof (cases "opened ev s")
  case False
  then show ?thesis using assms(3,6) leave_display [of Returns_Err cfg "create_map cfg ev" s ev] by (simp add: deliver_refused)
next
  case opened: True
  have blank: "core_of (s\<lparr>tgt_map := Some (the_map cfg ev s)\<rparr>) = (core_of s)\<lparr>shown := Some (the_map cfg ev s)\<rparr>"
    by (simp add: core_of_def)
  note unused' = unused [where 'a = 'a and x = "core_of s" and cfg = cfg, OF core_the_map(1) [OF opened, of cfg], unfolded core_the_map(2)]
  show ?thesis
  proof (cases "wanted w s")
    case False
    then have "exit = Continues" "acts = created cfg ev s" "s' = s\<lparr>tgt_map := Some (the_map cfg ev s)\<rparr>"
      using assms(3) deliver_ignored [OF opened, of w cfg c] by simp_all
    then show ?thesis using unused' [OF assms(4)] assms(5) by (auto simp: blank)
  next
    case True
    obtain wrote s1 where wr: "write_frame cfg ev w c s = Inr (wrote, s1)" "wf_target cfg s1"
      using write_frame_wf [OF assms(1,2)] by blast
    note cases = write_frame_cases [OF assms(1,2) True opened wr(1)]
    show ?thesis
    proof (cases wrote)
      case None
      then have "exit = Continues" "\<not> falls_through" "acts = created cfg ev s" "s' = s1"
        using assms(3) wr(1) deliver_dropped [OF opened True, of cfg c s1] by simp_all
      then show ?thesis using unused' [of "[]"] assms(6) cases None by (simp add: asking_def)
    next
      case (Some x)
      obtain n acts0 where x: "wrote = Some (n, acts0)" using Some by (cases x) simp
      then obtain tail0 where a: "after_write ev w c n s1 = Inr (tail0, s')" "exit = Continues"
          "acts = created cfg ev s @ acts0 @ tail0"
        using assms(3) wr(1) deliver_wrote [OF opened True, of cfg c n acts0 s1] by (auto simp: rbind_eq_Inr)
      have same: "same_frame_state s1 s'" "write_tail tail0" using after_write_cases [OF a(1)] by simp_all
      have d: "display cfg (create_map cfg ev) (core_of s) (created cfg ev s @ acts0 @ tail0) Continues (core_of s1)"
        using cases same(2) x by simp
      have "live (core_of s1)" using cases x by simp
      then have "tail = []" using assms(5) same(1) by (simp add: same_frame_state_def)
      then show ?thesis using d a core_same [OF same(1)] by simp
    qed
  qed
qed

lemma taken_display:
  fixes s s' :: "'a target_state"
  assumes "target_config_ok cfg" "wf_target cfg s" "taken cfg ev res s = Inr ((exit, falls_through, acts), s')"
    and "asking tail" "has_full_frame s' \<Longrightarrow> tail = []" "falls_through \<or> tail = []"
  shows "display cfg (create_map cfg ev) (core_of s) (acts @ tail) exit (core_of s')"
proof (cases "\<not> heartbeat res \<and> assembled res \<noteq> None")
  case True
  then show ?thesis using assms(3) deliver_display [OF assms(1,2) _ assms(4-6)] by (auto simp: taken_def)
next
  case False
  then have "exit = Continues" "acts = []" "core_of s' = core_of s" "has_full_frame s' = has_full_frame s"
    using assms(3) by (auto simp: taken_def core_of_def split: if_splits)
  then show ?thesis using idle [where 'a = 'a and cfg = cfg and c = "create_map cfg ev" and x = "core_of s", OF assms(4)] assms(5) by auto
qed

lemma asked_display:
  fixes s s' :: "'a target_state"
  assumes "target_config_ok cfg" "wf_target cfg s" "taken cfg ev res s = Inr r" "asked ev r = ((exit, acts), s')"
  shows "display cfg (create_map cfg ev) (core_of s) acts exit (core_of s')"
proof -
  obtain ex ft acts0 s1 where r: "r = ((ex, ft, acts0), s1)" by (cases r) auto
  note d = taken_display [OF assms(1,2) assms(3) [unfolded r]]
  note q = request_resync_core [where ev = ev and s = s1]
  show ?thesis
  proof (cases ft)
    case True
    then have "exit = ex" "acts = acts0 @ fst (request_resync ev s1)" "core_of s' = core_of s1"
      using assms(4) q(1) by (auto simp: r)
    then show ?thesis using d [OF q(2,3)] True by simp
  next
    case False
    then show ?thesis using d [of "[]"] assms(4) by (auto simp: r asking_def)
  qed
qed

text \<open>The target's loop refines the display: whatever an iteration receives, its visible actions
  and its effect on the map, the flags and the delta reference are one of the display's steps.\<close>

lemma target_step_display:
  fixes s s' :: "'a target_state"
  assumes "target_config_ok cfg" "wf_target cfg s" "target_step cfg s ev = Inr ((exit, acts), s')"
  shows "display cfg (create_map cfg ev) (core_of s) acts exit (core_of s')"
proof (cases "te_shutdown ev")
  case True
  then show ?thesis using assms(3) leave_display [of Returns_Ok cfg "create_map cfg ev" s ev] by (auto simp: target_step_def Let_def split: prod.splits)
next
  case running: False
  show ?thesis
  proof (cases "te_recv ev")
    case (Datagram dg src)
    obtain res proto where st: "wf_target cfg (received_state ev src (new_seq res \<and> \<not> heartbeat res) proto s)"
      "receive_step cfg ev dg src s =
       rbind (taken cfg ev res (received_state ev src (new_seq res \<and> \<not> heartbeat res) proto s)) (\<lambda>r. Inr (asked ev r))"
      using received_wf [OF assms(2)] by metis
    have "receive_step cfg ev dg src s = Inr ((exit, acts), s')"
      using assms(3) running Datagram by (simp add: target_step_def)
    then obtain r where "taken cfg ev res (received_state ev src (new_seq res \<and> \<not> heartbeat res) proto s) = Inr r"
      "asked ev r = ((exit, acts), s')" unfolding st(2) rbind_eq_Inr by (metis sum.inject(2))
    from asked_display [OF assms(1) st(1) this] show ?thesis by simp
  next
    case No_Data
    then have "stale_step cfg ev s = ((exit, acts), s')" using assms(3) running by (simp add: target_step_def)
    moreover have "s = s'" "acts = []" "exit = Continues" if "stale_step cfg ev s = ((Continues, []), s)"
      using that calculation by simp_all
    moreover have "display cfg (create_map cfg ev) (core_of s) ([] :: 'a action list) Continues (core_of s)"
      by (rule idle) (simp_all add: asking_def)
    moreover have "stale_step cfg ev s = ((Continues, []), s) \<or> (\<exists>m. tgt_map s = Some m \<and> exit = Continues \<and>
        acts = [Map_Write (replicate (length m) 0), Map_Closed (replicate (length m) 0), Stale]
            @ (if stub_running s then [Stub_Stopped] else []) \<and>
        core_of s' = \<lparr>shown = None, live = False, announced = False,
          reference = replicate (length (tgt_prev s)) 0, stubbed = False\<rparr>)"
      using calculation(1) by (auto simp: stale_step_def core_of_def split: option.splits if_splits)
    ultimately show ?thesis using timeout [where 'a = 'a and cfg = cfg and c = "create_map cfg ev" and x = "core_of s", unfolded core_of_simps] by metis
  next
    case Recv_Error
    then show ?thesis using assms(3) running leave_display [of Returns_Err cfg "create_map cfg ev" s ev]
      by (auto simp: target_step_def Let_def split: prod.splits)
  qed
qed

section \<open>Invariant of the display\<close>

definition consistent :: "target_config \<Rightarrow> core \<Rightarrow> bool" where
  "consistent cfg x \<longleftrightarrow> length (reference x) = tc_capacity cfg \<and> announced x = live x \<and>
     (live x \<longrightarrow> shown x \<noteq> None) \<and> (stubbed x \<longrightarrow> live x \<and> tc_fanalab cfg) \<and>
     (\<not> live x \<longrightarrow> reference x = blank_map cfg)"

lemma display_consistent:
  assumes "display cfg c x acts exit y" "consistent cfg x"
  shows "consistent cfg y"
  using assms(1)
proof (cases rule: display.cases)
  case (partial m fr off tail)
  then show ?thesis using assms(2) by (simp add: consistent_def)
qed (use assms(2) in \<open>auto simp: consistent_def blank_map_def\<close>)

lemma consistent_start: "consistent cfg (core_of (target_start cfg write_ibt now))"
  by (simp add: consistent_def target_start_def blank_map_def)

text \<open>The states of the loop that keep it.\<close>

definition tgt_inv :: "target_config \<Rightarrow> 'a target_state \<Rightarrow> bool" where
  "tgt_inv cfg s \<longleftrightarrow> target_config_ok cfg \<and> wf_target cfg s \<and> consistent cfg (core_of s)"

lemma tgt_inv_step:
  assumes "tgt_inv cfg s" "target_step cfg s ev = Inr (out, s')"
  shows "tgt_inv cfg s'" "display cfg (create_map cfg ev) (core_of s) (snd out) (fst out) (core_of s')"
proof -
  have ok: "target_config_ok cfg" "wf_target cfg s" "target_step cfg s ev = Inr ((fst out, snd out), s')"
    using assms by (simp_all add: tgt_inv_def)
  show d: "display cfg (create_map cfg ev) (core_of s) (snd out) (fst out) (core_of s')" by (rule target_step_display [OF ok])
  show "tgt_inv cfg s'"
    using display_consistent [OF d] target_step_wf [OF ok(1,2) assms(2)] assms(1) by (simp add: tgt_inv_def)
qed

interpretation tgt_flags: machine "target_step cfg" "tgt_inv cfg" "\<lambda>_. True" for cfg
  by unfold_locales (rule tgt_inv_step(1))

lemma tgt_inv_start: "target_config_ok cfg \<Longrightarrow> tgt_inv cfg (target_start cfg write_ibt now)"
  by (simp add: tgt_inv_def consistent_start)

text \<open>Without a session-info frame a step leaves the map as it was, or as the system handed it out.\<close>

lemma display_untouched:
  assumes "display cfg c x acts exit y" "\<not> live y" "shown y = Some m"
  shows "shown x = Some m \<and> \<not> live x \<or> c = Some m"
  using assms by (cases rule: display.cases) (auto simp: backing_def split: option.splits)

lemma target_run_untouched:
  "tgt_inv cfg s \<Longrightarrow> target_run cfg s evs = Inr (outs, s') \<Longrightarrow> \<not> has_full_frame s' \<Longrightarrow> tgt_map s' = Some m \<Longrightarrow>
   tgt_map s = Some m \<and> \<not> has_full_frame s \<or> (\<exists>ev\<in>set evs. create_map cfg ev = Some m)"
proof (induction evs arbitrary: s outs)
  case (Cons ev evs)
  then obtain out s1 where st: "target_step cfg s ev = Inr (out, s1)"
    by (auto simp: target_run_def rbind_eq_Inr)
  note one = tgt_inv_step [OF Cons.prems(1) st]
  have "tgt_map s1 = Some m \<and> \<not> has_full_frame s1 \<or> (\<exists>ev\<in>set evs. create_map cfg ev = Some m)"
  proof (cases "fst out = Continues")
    case True
    then obtain rest where "target_run cfg s1 evs = Inr (rest, s')"
      using Cons.prems(2) st by (auto simp: target_run_def rbind_eq_Inr)
    then show ?thesis by (rule Cons.IH [OF one(1) _ Cons.prems(3,4)])
  next
    case False
    then have "s' = s1" using Cons.prems(2) st by (auto simp: target_run_def)
    then show ?thesis using Cons.prems(3,4) by simp
  qed
  then show ?case using display_untouched [OF one(2)] by auto
qed (simp add: target_run_def)

text \<open>C12: Until a session-info frame has arrived the target writes nothing to the map: in every state
  the loop can reach without one (or after the stale timeout) there is no map, or one that holds
  what the system handed out when it was created in that run, which is zeros when every region
  handed out was new. The delta reference is zero then and no stub process runs; with such a frame
  there is a map, and it has been announced.\<close>

theorem untouched_until_session_info:
  assumes "target_config_ok cfg" "target_run cfg (target_start cfg write_ibt now) evs = Inr (outs, s')"
  shows "first_data_called s' = has_full_frame s' \<and> (has_full_frame s' \<longrightarrow> tgt_map s' \<noteq> None) \<and>
    (stub_running s' \<longrightarrow> has_full_frame s' \<and> tc_fanalab cfg) \<and>
    (\<not> has_full_frame s' \<longrightarrow> tgt_prev s' = replicate (tc_capacity cfg) 0 \<and>
       (\<forall>m. tgt_map s' = Some m \<longrightarrow> (\<exists>ev\<in>set evs. create_map cfg ev = Some m)) \<and>
       ((\<forall>ev\<in>set evs. te_create ev \<in> {None, Some (\<lambda>_. 0)}) \<longrightarrow>
          tgt_map s' \<in> {None, Some (replicate (tc_capacity cfg) 0)}))"
proof -
  note start = tgt_inv_start [OF assms(1), of write_ibt now]
  have inv: "tgt_inv cfg s'"
    using tgt_flags.run_until_inv [OF start, of evs] assms(2)
    by (simp add: target_run_def list_all_iff)
  have handed: "\<exists>ev\<in>set evs. create_map cfg ev = Some m" if "\<not> has_full_frame s'" "tgt_map s' = Some m" for m
    using target_run_untouched [OF start assms(2) that] by (simp add: target_start_def)
  have new: "m = replicate (tc_capacity cfg) 0"
    if "te_create ev \<in> {None, Some (\<lambda>_. 0)}" "create_map cfg ev = Some m" for ev :: "'a target_env" and m
    using that by (auto simp: create_map_def map_replicate_trivial map_replicate_const)
  have zero: "tgt_map s' \<in> {None, Some (replicate (tc_capacity cfg) 0)}"
    if "\<forall>ev\<in>set evs. te_create ev \<in> {None, Some (\<lambda>_. 0)}" "\<not> has_full_frame s'"
  proof (cases "tgt_map s'")
    case (Some m)
    then show ?thesis using handed [OF that(2) Some] new that(1) by blast
  qed simp
  from inv handed zero show ?thesis by (auto simp: tgt_inv_def consistent_def blank_map_def)
qed

section \<open>The visible actions explain the map\<close>

text \<open>What an observer of the actions takes the map to be.\<close>

fun viewed :: "'a action \<Rightarrow> byte list option \<Rightarrow> byte list option" where
  "viewed (Map_Created m) v = Some m"
| "viewed (Map_Write m) v = Some m"
| "viewed (Map_Closed m) v = None"
| "viewed _ v = v"

definition view_after :: "byte list option \<Rightarrow> (target_exit \<times> 'a action list) list \<Rightarrow> byte list option" where
  "view_after v outs = fold viewed (concat (List.map snd outs)) v"

lemma viewed_asking: "asking acts \<Longrightarrow> fold viewed acts v = v"
  by (auto simp: asking_def)

lemma viewed_tail: "write_tail acts \<Longrightarrow> fold viewed acts v = v"
  by (auto simp: write_tail_def)

lemma viewed_making: "backing c x = Some m \<Longrightarrow> fold viewed (making x m) (shown x) = Some m"
  by (auto simp: making_def backing_def split: option.splits)

lemma viewed_snapshots:
  "fold viewed (List.map Map_Write (session_snapshots st n m)) v = Some (last (session_snapshots st n m))"
  by (simp add: session_snapshots_def)

lemma display_view:
  assumes "display cfg c x acts exit y"
  shows "if exit = Continues then fold viewed acts (shown x) = shown y
    else (\<forall>m. Map_Closed m \<in> set acts \<longleftrightarrow> shown x = Some m) \<and> (\<forall>m. Map_Write m \<notin> set acts)"
  using assms
proof (cases rule: display.cases)
  case idle
  then show ?thesis by (simp add: viewed_asking)
next
  case (unused m acts')
  then show ?thesis by (simp add: viewed_asking viewed_making)
next
  case (session m n st tail started)
  then show ?thesis by (simp add: viewed_making viewed_snapshots viewed_tail)
next
  case (partial m fr off tail)
  then show ?thesis by (simp add: viewed_making viewed_tail)
next
  case (timeout m)
  then show ?thesis by simp
next
  case leaving
  then show ?thesis by (auto split: option.split)
qed

lemma target_run_view:
  "tgt_inv cfg s \<Longrightarrow> target_run cfg s evs = Inr (outs, s') \<Longrightarrow> list_all (\<lambda>r. fst r = Continues) outs \<Longrightarrow>
   tgt_inv cfg s' \<and> fold viewed (concat (List.map snd outs)) (tgt_map s) = tgt_map s'"
proof (induction evs arbitrary: s outs)
  case (Cons ev evs)
  then obtain out s1 rest where st: "target_step cfg s ev = Inr (out, s1)" "outs = out # rest"
    "fst out = Continues" "target_run cfg s1 evs = Inr (rest, s')"
    by (auto simp: target_run_def rbind_eq_Inr split: if_splits)
  note one = tgt_inv_step [OF Cons.prems(1) st(1)]
  have "fold viewed (snd out) (tgt_map s) = tgt_map s1"
    using display_view [OF one(2)] st(3) by simp
  with Cons.IH [OF one(1) st(4)] Cons.prems(3) st(2) show ?case by simp
qed (simp add: target_run_def)

section \<open>Properties of whole runs\<close>

text \<open>A run of the display: steps one after the other, none after a return.\<close>

inductive display_run :: "target_config \<Rightarrow> core \<Rightarrow> (target_exit \<times> 'a action list) list \<Rightarrow> core \<Rightarrow> bool" for cfg where
  stay: "display_run cfg x [] x"
| more: "display cfg c x acts exit y \<Longrightarrow> exit = Continues \<or> outs = [] \<Longrightarrow> display_run cfg y outs z \<Longrightarrow>
    display_run cfg x ((exit, acts) # outs) z"

lemma target_run_display:
  "tgt_inv cfg s \<Longrightarrow> target_run cfg s evs = Inr (outs, s') \<Longrightarrow> display_run cfg (core_of s) outs (core_of s')"
proof (induction evs arbitrary: s outs)
  case Nil
  then show ?case by (simp add: target_run_def stay)
next
  case (Cons ev evs)
  then obtain exit acts s1 where st: "target_step cfg s ev = Inr ((exit, acts), s1)"
    by (auto simp: target_run_def rbind_eq_Inr)
  note one = tgt_inv_step [OF Cons.prems(1) st]
  have d: "display cfg (create_map cfg ev) (core_of s) acts exit (core_of s1)" using one(2) by simp
  show ?case
  proof (cases "exit = Continues")
    case True
    then obtain rest where outs: "outs = (exit, acts) # rest" "target_run cfg s1 evs = Inr (rest, s')"
      using Cons.prems(2) st by (auto simp: target_run_def rbind_eq_Inr)
    show ?thesis unfolding outs(1) by (rule more [OF d _ Cons.IH [OF one(1) outs(2)]]) (simp add: True)
  next
    case False
    then have outs: "outs = [(exit, acts)]" "s' = s1" using Cons.prems(2) st by (auto simp: target_run_def)
    show ?thesis unfolding outs by (rule more [OF d _ stay]) simp
  qed
qed

text \<open>C3: The target's loop refines the display: a run of it, with any datagrams, clocks, decompressor
  results and operating-system answers, is step for step a run of the abstract display, with the
  same visible actions in the same order and the same map, flags and delta reference.\<close>

theorem target_refines_display:
  fixes evs :: "'a target_env list"
  assumes "target_config_ok cfg" "target_run cfg (target_start cfg write_ibt now) evs = Inr (outs, s')"
  shows "display_run cfg (core_of (target_start cfg write_ibt now :: 'a target_state)) outs (core_of s')"
  by (rule target_run_display [OF tgt_inv_start [OF assms(1)] assms(2)])

text \<open>C25: While the loop runs, its map is the last content it made visible; when it returns, on a
  shutdown or an error, it writes nothing more and unmaps exactly that content: the connected
  flag a partial frame has set is not cleared.\<close>

theorem map_closed_as_last_written:
  assumes "tgt_inv cfg s" "target_run cfg s evs = Inr (outs, s')"
  shows "(list_all (\<lambda>r. fst r = Continues) outs \<longrightarrow> view_after (tgt_map s) outs = tgt_map s') \<and>
    (\<forall>before exit acts. outs = before @ [(exit, acts)] \<and> exit \<noteq> Continues \<longrightarrow>
      (\<forall>m. Map_Closed m \<in> set acts \<longleftrightarrow> view_after (tgt_map s) before = Some m) \<and>
      (\<forall>m. Map_Write m \<notin> set acts))"
proof (intro conjI allI impI)
  show "view_after (tgt_map s) outs = tgt_map s'" if "list_all (\<lambda>r. fst r = Continues) outs"
    using target_run_view [OF assms that] by (simp add: view_after_def)
  fix before exit acts assume "outs = before @ [(exit, acts)] \<and> exit \<noteq> Continues"
  then have o: "outs = before @ [(exit, acts)]" "exit \<noteq> Continues" by simp_all
  obtain evs0 ev s1 where r: "target_run cfg s evs0 = Inr (before, s1)"
    "list_all (\<lambda>r. fst r = Continues) before" "target_step cfg s1 ev = Inr ((exit, acts), s')"
    using run_until_snocD [OF assms(2) [unfolded target_run_def o(1)]] by (auto simp: target_run_def)
  note v = target_run_view [OF assms(1) r(1,2)]
  have "display cfg (create_map cfg ev) (core_of s1) acts exit (core_of s')" using tgt_inv_step(2) [OF _ r(3)] v by simp
  then have closed: "(\<forall>m. Map_Closed m \<in> set acts \<longleftrightarrow> tgt_map s1 = Some m) \<and> (\<forall>m. Map_Write m \<notin> set acts)"
    using display_view o(2) by fastforce
  have "view_after (tgt_map s) before = tgt_map s1" using v by (simp add: view_after_def)
  with closed show "Map_Closed m \<in> set acts \<longleftrightarrow> view_after (tgt_map s) before = Some m" "Map_Write m \<notin> set acts" for m
    by simp_all
qed

end
