(* ===== verification/Target_Props.thy ===== *)
theory Target_Props
  imports Target_Display Transport
begin

text \<open>
  The properties of the target's loop: what each kind of frame makes visible in the shared map and
  in which order, the stale timeout and the resync requests.
\<close>

section \<open>A message arrives\<close>

text \<open>The iteration receives the datagram that completes a message with offset \<open>w\<close> and payload \<open>c\<close>.\<close>

definition incoming :: "'a target_env \<Rightarrow> 'a target_state \<Rightarrow> u32 \<Rightarrow> byte list \<Rightarrow> bool" where
  "incoming ev s w c \<longleftrightarrow> \<not> te_shutdown ev \<and>
     (case te_recv ev of
        Datagram dg src \<Rightarrow> (case ingest (tgt_proto s) (take MAX_DATAGRAM_SIZE dg) of
            Inr (res, proto) \<Rightarrow> \<not> heartbeat res \<and> assembled res = Some c \<and> ing_buf_offset res = w
          | Inl _ \<Rightarrow> False)
      | _ \<Rightarrow> False)"

text \<open>The receiver's state after it has taken that datagram.\<close>

definition receives :: "'a target_env \<Rightarrow> 'a target_state \<Rightarrow> receiver \<Rightarrow> bool" where
  "receives ev s proto \<longleftrightarrow> (\<exists>dg src res. te_recv ev = Datagram dg src \<and>
     ingest (tgt_proto s) (take MAX_DATAGRAM_SIZE dg) = Inr (res, proto))"

lemma incoming_step:
  assumes "wf_target cfg s" "incoming ev s w c"
  obtains src opens proto where "wf_target cfg (received_state ev src opens proto s)" "receives ev s proto"
    "target_step cfg s ev =
       rbind (deliver cfg ev w c (received_state ev src opens proto s)) (\<lambda>r. Inr (asked ev r))"
proof -
  from assms(2) obtain dg src res proto where i: "te_recv ev = Datagram dg src" "\<not> te_shutdown ev"
    "ingest (tgt_proto s) (take MAX_DATAGRAM_SIZE dg) = Inr (res, proto)"
    "\<not> heartbeat res" "assembled res = Some c" "ing_buf_offset res = w"
    by (auto simp: incoming_def split: received_packet.splits sum.splits)
  obtain res' proto' where r: "ingest (tgt_proto s) (take MAX_DATAGRAM_SIZE dg) = Inr (res', proto')"
    "\<And>opens. wf_target cfg (received_state ev src opens proto' s)"
    "receive_step cfg ev dg src s =
       rbind (taken cfg ev res' (received_state ev src (new_seq res' \<and> \<not> heartbeat res') proto' s)) (\<lambda>r. Inr (asked ev r))"
    using received_wf [OF assms(1), where dg = dg and src = src and ev = ev] by metis
  have "res' = res" "proto' = proto" using r(1) i(3) by simp_all
  moreover have "receives ev s proto" using i(1,3) by (auto simp: receives_def)
  ultimately show ?thesis using r i by (intro that [OF r(2)]) (simp_all add: target_step_def taken_def)
qed

lemma received_the_map [simp]:
  "the_map cfg ev (received_state ev' src b proto s) = the_map cfg ev s"
  "created cfg ev (received_state ev' src b proto s) = created cfg ev s"
  "opened ev (received_state ev' src b proto s) = opened ev s"
  "wanted w (received_state ev' src b proto s) = wanted w s"
  by (auto simp: the_map_def created_def opened_def wanted_def split: option.split)

text \<open>A message that is written.\<close>

lemma incoming_wrote:
  assumes "wf_target cfg s" "incoming ev s w c" "opened ev s" "wanted w s"
    and "\<And>src opens proto. write_frame cfg ev w c (received_state ev src opens proto s) =
           Inr (Some (n, acts0), f src opens proto)"
    and "\<And>src opens proto. has_full_frame (f src opens proto)"
    and "target_step cfg s ev = Inr ((exit, acts), s')"
  obtains src opens proto tail where "exit = Continues" "same_frame_state (f src opens proto) s'"
    "acts = created cfg ev s @ acts0 @ tail" "write_tail tail" "receives ev s proto"
    "after_write ev w c n (f src opens proto) = Inr (tail, s')"
proof -
  obtain src opens proto where st: "receives ev s proto" "target_step cfg s ev =
      rbind (deliver cfg ev w c (received_state ev src opens proto s)) (\<lambda>r. Inr (asked ev r))"
    using incoming_step [OF assms(1,2)] by metis
  let ?s = "received_state ev src opens proto s"
  have o: "opened ev ?s" "wanted w ?s" "created cfg ev ?s = created cfg ev s"
    using assms(3,4) by simp_all
  obtain tail s2 where a: "after_write ev w c n (f src opens proto) = Inr (tail, s2)"
    using assms(7) unfolding st(2) deliver_wrote [OF o(1,2) assms(5)] rbind_eq_Inr by force
  have same: "same_frame_state (f src opens proto) s2" "write_tail tail"
    using after_write_cases [OF a] by simp_all
  then have "has_full_frame s2" using assms(6) by (simp add: same_frame_state_def)
  then have "request_resync ev s2 = ([], s2)" by (simp add: request_resync_def split: option.split)
  then have "exit = Continues" "acts = created cfg ev s @ acts0 @ tail" "s' = s2"
    using assms(7) a o(3) unfolding st(2) deliver_wrote [OF o(1,2) assms(5)] by simp_all
  with same st(1) a show ?thesis using that by blast
qed

section \<open>A session-info frame\<close>

lemma session_writes:
  assumes "target_config_ok cfg" "wf_target cfg s" "tc_decompress cfg c (tgt_staging s) = (Some n, st)" "8 \<le> n"
  shows "write_frame cfg ev U32_MAX c (received_state ev src opens proto s) =
    Inr (Some (n, List.map Map_Write (session_snapshots st n (the_map cfg ev s))
        @ (if first_data_called s then [] else [First_Data])
        @ (if tc_fanalab cfg \<and> \<not> stub_running s \<and> te_stub ev then [Stub_Started] else [])),
      session_state ev cfg st n (the_map cfg ev s)
        ((received_state ev src opens proto s)\<lparr>tgt_map := Some (the_map cfg ev s)\<rparr>))"
proof -
  have ok: "decoder_ok (tc_decompress cfg)" "8 \<le> tc_capacity cfg" using assms(1) by (simp_all add: target_config_ok_def)
  have lm: "length (the_map cfg ev s) = tc_capacity cfg" using assms(2) by (rule length_the_map)
  show ?thesis
    using write_session_eq [OF ok(1) _ lm ok(2),
        of "(received_state ev src opens proto s)\<lparr>tgt_map := Some (the_map cfg ev s)\<rparr>" c "Some n" st ev]
      wf_target_bufs [OF assms(2)] assms(3,4) by (simp add: write_frame_def Let_def)
qed

lemma session_incoming:
  assumes "target_config_ok cfg" "wf_target cfg s" "incoming ev s U32_MAX c" "opened ev s"
    and "tc_decompress cfg c (tgt_staging s) = (Some n, st)" "8 \<le> n"
    and "target_step cfg s ev = Inr ((exit, acts), s')"
  obtains src opens proto tail where "exit = Continues" "receives ev s proto" "write_tail tail"
    "same_frame_state (session_state ev cfg st n (the_map cfg ev s)
       ((received_state ev src opens proto s)\<lparr>tgt_map := Some (the_map cfg ev s)\<rparr>)) s'"
    "acts = created cfg ev s @ (List.map Map_Write (session_snapshots st n (the_map cfg ev s))
      @ (if first_data_called s then [] else [First_Data])
      @ (if tc_fanalab cfg \<and> \<not> stub_running s \<and> te_stub ev then [Stub_Started] else [])) @ tail"
    "after_write ev U32_MAX c n (session_state ev cfg st n (the_map cfg ev s)
       ((received_state ev src opens proto s)\<lparr>tgt_map := Some (the_map cfg ev s)\<rparr>)) = Inr (tail, s')"
  by (rule incoming_wrote [OF assms(2,3,4) _ session_writes [OF assms(1,2,5,6)] _ assms(7)])
    (auto simp: wanted_def intro: that)

text \<open>C9: A session-info frame copies its prefix to the map except the status field: every content
  of the map it makes visible has the four status bytes of the map before, the last one has the
  prefix everywhere else, and the delta reference is zeroed. The frame is signalled, and the
  first one of a session is reported.\<close>

theorem session_info_written:
  assumes "target_config_ok cfg" "wf_target cfg s" "incoming ev s U32_MAX c" "opened ev s"
    and "tc_decompress cfg c (tgt_staging s) = (Some n, st)" "8 \<le> n"
    and "target_step cfg s ev = Inr ((exit, acts), s')"
  shows "exit = Continues \<and> has_full_frame s' \<and> tgt_prev s' = replicate (tc_capacity cfg) 0 \<and>
    Signalled \<in> set acts \<and> (First_Data \<in> set acts \<longleftrightarrow> \<not> first_data_called s) \<and>
    (\<forall>v. Map_Write v \<in> set acts \<longrightarrow> take 4 (drop 4 v) = take 4 (drop 4 (the_map cfg ev s))) \<and>
    (\<exists>m'. tgt_map s' = Some m' \<and> Map_Write m' \<in> set acts \<and> length m' = tc_capacity cfg \<and>
      (\<forall>i<tc_capacity cfg. m' ! i = (if i < 4 \<or> 8 \<le> i \<and> i < n then st ! i else the_map cfg ev s ! i)))"
proof -
  let ?m = "the_map cfg ev s" let ?cap = "tc_capacity cfg"
  have ok: "decoder_ok (tc_decompress cfg)" "8 \<le> ?cap" using assms(1) by (simp_all add: target_config_ok_def)
  have lm: "length ?m = ?cap" using assms(2) by (rule length_the_map)
  have lst: "length st = ?cap" "n \<le> ?cap"
    using decoder_okD [OF ok(1) assms(5)] assms(2) by (simp_all add: wf_target_def)
  obtain src opens proto tail where o: "exit = Continues" "receives ev s proto" "write_tail tail"
    "same_frame_state (session_state ev cfg st n ?m ((received_state ev src opens proto s)\<lparr>tgt_map := Some ?m\<rparr>)) s'"
    "acts = created cfg ev s @ (List.map Map_Write (session_snapshots st n ?m)
      @ (if first_data_called s then [] else [First_Data])
      @ (if tc_fanalab cfg \<and> \<not> stub_running s \<and> te_stub ev then [Stub_Started] else [])) @ tail"
    by (rule session_incoming [OF assms]) blast
  have status: "take 4 (drop 4 v) = take 4 (drop 4 ?m)" if "v \<in> set (session_snapshots st n ?m)" for v
  proof -
    have "length v = ?cap \<and> (\<forall>i<?cap. 4 \<le> i \<and> i < 8 \<longrightarrow> v ! i = ?m ! i)"
      using that session_maps [OF lm lst(1) assms(6) lst(2)] by (auto simp: session_snapshots_def split: if_splits)
    then show ?thesis using lm ok(2) by (intro nth_equalityI) simp_all
  qed
  have out: "Map_Write v \<in> set acts \<Longrightarrow> v \<in> set (session_snapshots st n ?m)" for v
    using o(3,5) by (auto simp: created_def write_tail_def split: option.splits if_splits)
  have m': "tgt_map s' = Some (last (session_snapshots st n ?m))" "has_full_frame s'"
    "tgt_prev s' = replicate ?cap 0"
    using o(4) assms(2) by (simp_all add: same_frame_state_def wf_target_def)
  have "last (session_snapshots st n ?m) \<in> set (session_snapshots st n ?m)"
    by (rule last_in_set) (simp add: session_snapshots_def)
  then have "Map_Write (last (session_snapshots st n ?m)) \<in> set acts" using o(5) by simp
  moreover have "First_Data \<in> set acts \<longleftrightarrow> \<not> first_data_called s" "Signalled \<in> set acts"
    using o(3,5) by (auto simp: created_def write_tail_def split: option.splits)
  ultimately show ?thesis
    using o(1) m' out status last_session_snapshots [OF lm lst(1) assms(6) lst(2)] by blast
qed

section \<open>A partial frame\<close>

lemma partial_incoming:
  assumes "target_config_ok cfg" "wf_target cfg s" "incoming ev s w c" "w \<noteq> U32_MAX" "has_full_frame s" "opened ev s"
    and "tc_decompress cfg c (tgt_staging s) = (Some n, st)" "112 \<le> n" "wire_off w + (n - 112) \<le> tc_capacity cfg"
    and "target_step cfg s ev = Inr ((exit, acts), s')"
    and fr_def: "fr = decoded_frame (delta_wire w) (take n st) (tgt_prev s)"
  obtains proto tail where "exit = Continues" "receives ev s proto" "write_tail tail" "length fr = n" "n \<le> tc_capacity cfg"
    "acts = created cfg ev s @ [Map_Write (partial_map1 (wire_off w) fr (the_map cfg ev s)),
       Map_Write (partial_map2 (wire_off w) fr (the_map cfg ev s))] @ tail"
    "tgt_prev s' = blit 0 fr (tgt_prev s)" "tgt_map s' = Some (partial_map2 (wire_off w) fr (the_map cfg ev s))"
    "has_full_frame s'" "current_seq (tgt_proto s') = current_seq proto"
proof -
  let ?m = "the_map cfg ev s" let ?cap = "tc_capacity cfg" let ?off = "wire_off w"
  let ?r = "\<lambda>src opens proto. (received_state ev src opens proto s)\<lparr>tgt_map := Some ?m\<rparr>"
  have ok: "decoder_ok (tc_decompress cfg)" using assms(1) by (simp add: target_config_ok_def)
  have sz: "length (tgt_staging s) = ?cap" "length (tgt_prev s) = ?cap" using assms(2) by (simp_all add: wf_target_def)
  have lm: "length ?m = ?cap" using assms(2) by (rule length_the_map)
  have lst: "length st = ?cap" "n \<le> ?cap" using decoder_okD [OF ok assms(7)] sz by simp_all
  then have lf: "length fr = n" using sz by (simp add: fr_def)
  have "\<exists>rb. write_frame cfg ev w c (received_state ev src opens proto s) =
      Inr (Some (n, [Map_Write (partial_map1 ?off fr ?m), Map_Write (partial_map2 ?off fr ?m)]),
       (?r src opens proto)\<lparr>tgt_staging := st, reconstruct_buf := rb, tgt_prev := blit 0 fr (tgt_prev s),
         tgt_map := Some (partial_map2 ?off fr ?m)\<rparr>)" for src opens proto
    using write_partial_eq [OF ok _ lm, of "?r src opens proto" c "Some n" st w] wf_target_bufs [OF assms(2)]
      assms(4,7,8,9) by (auto simp: write_frame_def Let_def fr_def)
  then obtain rb where wr: "write_frame cfg ev w c (received_state ev src opens proto s) =
      Inr (Some (n, [Map_Write (partial_map1 ?off fr ?m), Map_Write (partial_map2 ?off fr ?m)]),
       (?r src opens proto)\<lparr>tgt_staging := st, reconstruct_buf := rb src opens proto, tgt_prev := blit 0 fr (tgt_prev s),
         tgt_map := Some (partial_map2 ?off fr ?m)\<rparr>)" for src opens proto by metis
  obtain src opens proto tail where o: "exit = Continues"
    "same_frame_state ((?r src opens proto)\<lparr>tgt_staging := st, reconstruct_buf := rb src opens proto,
       tgt_prev := blit 0 fr (tgt_prev s), tgt_map := Some (partial_map2 ?off fr ?m)\<rparr>) s'"
    "acts = created cfg ev s @ [Map_Write (partial_map1 ?off fr ?m), Map_Write (partial_map2 ?off fr ?m)] @ tail"
    "write_tail tail" "receives ev s proto"
    by (rule incoming_wrote [OF assms(2,3,6) _ wr _ assms(10)]) (use assms(5) in \<open>auto simp: wanted_def\<close>)
  have "tgt_prev s' = blit 0 fr (tgt_prev s)" "tgt_map s' = Some (partial_map2 ?off fr ?m)"
    "has_full_frame s'" "current_seq (tgt_proto s') = current_seq proto"
    using o(2) assms(5) by (simp_all add: same_frame_state_def)
  with o(1,3,4,5) lf lst(2) show ?thesis by (intro that)
qed

text \<open>C8: A partial frame is written in two steps, the variable data first and the header last: the
  first content made visible differs from the map before only inside the variable buffer, the
  second differs from the first only in the header, so a status bit that a frame sets appears with
  that frame's data already in place. A delta frame is decoded against the last one written.\<close>

theorem partial_frame_written:
  assumes "target_config_ok cfg" "wf_target cfg s" "incoming ev s w c" "w \<noteq> U32_MAX" "has_full_frame s" "opened ev s"
    and "tc_decompress cfg c (tgt_staging s) = (Some n, st)" "112 \<le> n" "wire_off w + (n - 112) \<le> tc_capacity cfg"
    and "target_step cfg s ev = Inr ((exit, acts), s')"
  shows "\<exists>fr v1 v2 tail. fr = (if delta_wire w then xor_bytes (take n st) (take n (tgt_prev s)) else take n st) \<and>
    exit = Continues \<and> acts = created cfg ev s @ [Map_Write v1, Map_Write v2] @ tail \<and> write_tail tail \<and>
    length v1 = tc_capacity cfg \<and> length v2 = tc_capacity cfg \<and>
    (\<forall>i<tc_capacity cfg. v1 ! i = (if wire_off w \<le> i \<and> i < wire_off w + (n - 112)
       then fr ! (112 + (i - wire_off w)) else the_map cfg ev s ! i)) \<and>
    (\<forall>i<tc_capacity cfg. v2 ! i = (if i < 112 then fr ! i else v1 ! i)) \<and>
    tgt_map s' = Some v2 \<and> take n (tgt_prev s') = fr \<and> drop n (tgt_prev s') = drop n (tgt_prev s)"
proof -
  let ?m = "the_map cfg ev s" let ?cap = "tc_capacity cfg" let ?off = "wire_off w"
  let ?fr = "decoded_frame (delta_wire w) (take n st) (tgt_prev s)"
  have lm: "length ?m = ?cap" using assms(2) by (rule length_the_map)
  have sz: "length (tgt_staging s) = ?cap" "length (tgt_prev s) = ?cap" using assms(2) by (simp_all add: wf_target_def)
  have lst: "length st = ?cap" using decoder_okD(1) [of "tc_decompress cfg", OF _ assms(7)] sz assms(1) by (simp add: target_config_ok_def)
  obtain proto tail where o: "exit = Continues" "receives ev s proto" "write_tail tail" "length ?fr = n" "n \<le> ?cap"
    "acts = created cfg ev s @ [Map_Write (partial_map1 ?off ?fr ?m), Map_Write (partial_map2 ?off ?fr ?m)] @ tail"
    "tgt_prev s' = blit 0 ?fr (tgt_prev s)" "tgt_map s' = Some (partial_map2 ?off ?fr ?m)"
    by (rule partial_incoming [OF assms refl])
  note maps = partial_maps [OF lm, of ?fr ?off, unfolded o(4), OF assms(8,9) le_trans [OF assms(8) o(5)]]
  have p: "take n (tgt_prev s') = ?fr" "drop n (tgt_prev s') = drop n (tgt_prev s)"
    unfolding o(7) using o(4,5) sz by (simp_all add: blit_def)
  have fr: "?fr = (if delta_wire w then xor_bytes (take n st) (take n (tgt_prev s)) else take n st)"
    using lst o(5) by (simp add: decoded_frame_def)
  have v2: "\<forall>i<?cap. partial_map2 ?off ?fr ?m ! i = (if i < 112 then ?fr ! i else partial_map1 ?off ?fr ?m ! i)"
    using maps(3,4) by simp
  have v1: "\<forall>i<?cap. partial_map1 ?off ?fr ?m ! i =
      (if ?off \<le> i \<and> i < ?off + (n - 112) then ?fr ! (112 + (i - ?off)) else ?m ! i)"
    using maps(3) by blast
  show ?thesis
    by (rule exI [of _ ?fr], rule exI [of _ "partial_map1 ?off ?fr ?m"], rule exI [of _ "partial_map2 ?off ?fr ?m"],
        rule exI [of _ tail]) (intro conjI fr o(1,6,3) maps(1,2) v1 v2 o(8) p)
qed

section \<open>Silence\<close>

definition silent :: "'a target_env \<Rightarrow> bool" where
  "silent ev \<longleftrightarrow> \<not> te_shutdown ev \<and> te_recv ev = No_Data"

definition timed_out :: "target_config \<Rightarrow> int \<Rightarrow> 'a target_env \<Rightarrow> bool" where
  "timed_out cfg since ev \<longleftrightarrow> tc_stale_timeout cfg \<le> elapsed (te_clock ev On_Stale_Check) since"

lemma silent_step: "silent ev \<Longrightarrow> target_step cfg s ev = Inr (stale_step cfg ev s)"
  by (simp add: silent_def target_step_def)

lemma silent_run_unchanged:
  "list_all silent evs \<Longrightarrow> list_all (\<lambda>ev. tgt_map s = None \<or> \<not> timed_out cfg (last_update s) ev) evs \<Longrightarrow>
   target_run cfg s evs = Inr (replicate (length evs) (Continues, []), s)"
proof (induction evs)
  case (Cons ev evs)
  then have "stale_step cfg ev s = ((Continues, []), s)"
    by (auto simp: stale_step_def timed_out_def split: option.split)
  with Cons show ?case by (simp add: target_run_def silent_step)
qed (simp add: target_run_def)

text \<open>C22: A target that hears nothing closes its map once: nothing happens while the timeout has not
  passed; at the first look at the clock after it, the whole map is zeroed before it is unmapped,
  the stale callback runs and the stub process stops, and the loop is back without a map, flags or
  delta reference; after that nothing happens again however long the silence lasts.\<close>

theorem stale_timeout_once:
  assumes "tgt_map s = Some m" "list_all silent (early @ ev # later)" "timed_out cfg (last_update s) ev"
    and "list_all (\<lambda>e. \<not> timed_out cfg (last_update s) e) early"
  shows "\<exists>s'. target_run cfg s (early @ ev # later) =
      Inr (replicate (length early) (Continues, []) @
           (Continues, [Map_Write (replicate (length m) 0), Map_Closed (replicate (length m) 0), Stale]
              @ (if stub_running s then [Stub_Stopped] else [])) #
           replicate (length later) (Continues, []), s') \<and>
    tgt_map s' = None \<and> \<not> has_full_frame s' \<and> \<not> first_data_called s' \<and> \<not> stub_running s' \<and>
    tgt_prev s' = replicate (length (tgt_prev s)) 0 \<and> tgt_proto s' = tgt_proto s \<and>
    source_addr s' = source_addr s \<and> tgt_ibt s' = map_option (finish (te_ibt ev)) (tgt_ibt s)"
proof -
  let ?acts = "[Map_Write (replicate (length m) 0), Map_Closed (replicate (length m) 0), Stale]
              @ (if stub_running s then [Stub_Stopped] else [])"
  obtain s1 where s1: "stale_step cfg ev s = ((Continues, ?acts), s1)" "tgt_map s1 = None"
    "\<not> has_full_frame s1" "\<not> first_data_called s1" "\<not> stub_running s1"
    "tgt_prev s1 = replicate (length (tgt_prev s)) 0" "tgt_proto s1 = tgt_proto s"
    "source_addr s1 = source_addr s" "tgt_ibt s1 = map_option (finish (te_ibt ev)) (tgt_ibt s)"
    using assms(1,3) by (simp add: stale_step_def timed_out_def)
  have later: "target_run cfg s1 later = Inr (replicate (length later) (Continues, []), s1)"
    using assms(2) s1(2) by (intro silent_run_unchanged) (simp_all add: list_all_iff)
  have "target_run cfg s (early @ ev # later) =
      Inr (replicate (length early) (Continues, []) @ (Continues, ?acts) # replicate (length later) (Continues, []), s1)"
    using assms(2,4)
  proof (induction early)
    case Nil
    then show ?case using later s1(1) by (simp add: target_run_def silent_step)
  next
    case (Cons e early)
    then have "stale_step cfg e s = ((Continues, []), s)" using assms(1) by (simp add: stale_step_def timed_out_def)
    with Cons show ?case by (simp add: target_run_def silent_step)
  qed
  with s1 show ?thesis by blast
qed

section \<open>Resync requests\<close>

definition due :: "'a target_env \<Rightarrow> 'a target_state \<Rightarrow> bool" where
  "due ev s \<longleftrightarrow> RESYNC_REQUEST_INTERVAL \<le> elapsed (te_clock ev On_Resync_Check) (last_resync_request s)"

text \<open>A complete session-info message that is given up: it does not decompress, or to less than the
  eight bytes a prefix has.\<close>

lemma session_dropped:
  assumes "target_config_ok cfg" "wf_target cfg s" "incoming ev s U32_MAX c" "opened ev s"
    and "tc_decompress cfg c (tgt_staging s) = (r, st)" "\<forall>n. r = Some n \<longrightarrow> n < 8"
    and "target_step cfg s ev = Inr ((exit, acts), s')"
  shows "acts = created cfg ev s" "tgt_map s' = Some (the_map cfg ev s)" "has_full_frame s' = has_full_frame s"
    "last_resync_request s' = last_resync_request s"
proof -
  obtain src opens proto where st: "wf_target cfg (received_state ev src opens proto s)" "target_step cfg s ev =
      rbind (deliver cfg ev U32_MAX c (received_state ev src opens proto s)) (\<lambda>r. Inr (asked ev r))"
    using incoming_step [OF assms(2,3)] by metis
  let ?s = "received_state ev src opens proto s" let ?m = "the_map cfg ev s"
  have ok: "decoder_ok (tc_decompress cfg)" "8 \<le> tc_capacity cfg" using assms(1) by (simp_all add: target_config_ok_def)
  have lm: "length ?m = tc_capacity cfg" using assms(2) by (rule length_the_map)
  have w: "write_frame cfg ev U32_MAX c ?s = Inr (None, ?s\<lparr>tgt_map := Some ?m, tgt_staging := st\<rparr>)"
    using write_session_eq [OF ok(1) _ lm ok(2), of "?s\<lparr>tgt_map := Some ?m\<rparr>" c r st ev]
      wf_target_bufs [OF assms(2)] assms(5,6) by (auto simp: write_frame_def Let_def split: option.split)
  have o: "opened ev ?s" "wanted U32_MAX ?s" "created cfg ev ?s = created cfg ev s"
    using assms(4) by (simp_all add: wanted_def)
  have "acts = created cfg ev s \<and> s' = ?s\<lparr>tgt_map := Some ?m, tgt_staging := st\<rparr>"
    using assms(7) o(3) unfolding st(2) deliver_dropped [OF o(1,2) w] by simp
  then show "acts = created cfg ev s" "tgt_map s' = Some ?m" "has_full_frame s' = has_full_frame s"
    "last_resync_request s' = last_resync_request s" by simp_all
qed

text \<open>The map is as it was, or as the system handed it out in this iteration.\<close>

definition untouched :: "target_config \<Rightarrow> 'a target_env \<Rightarrow> 'a target_state \<Rightarrow> 'a target_state \<Rightarrow> bool" where
  "untouched cfg ev s s' \<longleftrightarrow> tgt_map s' = tgt_map s \<or> tgt_map s = None \<and> tgt_map s' = create_map cfg ev"

lemma untouched_the_map: "opened ev s \<Longrightarrow> tgt_map s' = Some (the_map cfg ev s) \<Longrightarrow> untouched cfg ev s s'"
  by (auto simp: untouched_def the_map_def opened_def create_map_def split: option.splits)

lemma continues_opened:
  assumes "wf_target cfg s" "incoming ev s w c" "target_step cfg s ev = Inr ((Continues, acts), s')"
  shows "opened ev s"
proof (rule ccontr)
  assume no: "\<not> opened ev s"
  obtain src opens proto where st: "target_step cfg s ev =
      rbind (deliver cfg ev w c (received_state ev src opens proto s)) (\<lambda>r. Inr (asked ev r))"
    using incoming_step [OF assms(1,2)] by metis
  have "\<not> opened ev (received_state ev src opens proto s)" using no by (simp add: opened_def)
  then show False using assms(3) unfolding st by (simp add: deliver_refused)
qed

text \<open>The iterations that go on to the check for a request: all but those that take a complete
  session-info message.\<close>

lemma unfinished_asks:
  assumes "wf_target cfg s" "\<not> has_full_frame s" "\<not> te_shutdown ev" "te_recv ev = Datagram dg src"
    and "\<forall>c. \<not> incoming ev s U32_MAX c" "target_step cfg s ev = Inr ((Continues, acts), s')"
  obtains s1 pre where "acts = pre @ fst (request_resync ev s1)" "s' = snd (request_resync ev s1)"
    "pre \<in> {[], created cfg ev s}" "\<not> has_full_frame s1" "source_addr s1 = Some src"
    "last_resync_request s1 = last_resync_request s" "untouched cfg ev s s1"
proof -
  obtain res proto where r: "ingest (tgt_proto s) (take MAX_DATAGRAM_SIZE dg) = Inr (res, proto)"
    "receive_step cfg ev dg src s =
       rbind (taken cfg ev res (received_state ev src (new_seq res \<and> \<not> heartbeat res) proto s)) (\<lambda>r. Inr (asked ev r))"
    using received_wf [OF assms(1)] by metis
  let ?s = "received_state ev src (new_seq res \<and> \<not> heartbeat res) proto s"
  obtain x where x: "taken cfg ev res ?s = Inr x" "asked ev x = ((Continues, acts), s')"
    using assms(3,4,6) r(2) by (auto simp: target_step_def rbind_eq_Inr)
  have "\<exists>s1 pre. x = ((Continues, True, pre), s1) \<and> pre \<in> {[], created cfg ev s} \<and> \<not> has_full_frame s1 \<and>
      source_addr s1 = Some src \<and> last_resync_request s1 = last_resync_request s \<and> untouched cfg ev s s1"
  proof (cases "\<not> heartbeat res \<and> assembled res \<noteq> None")
    case True
    then obtain c where c: "assembled res = Some c" "\<not> heartbeat res" by blast
    have inc: "incoming ev s (ing_buf_offset res) c" using assms(3,4) r(1) c by (simp add: incoming_def)
    have t: "taken cfg ev res ?s = deliver cfg ev (ing_buf_offset res) c ?s" using c by (simp add: taken_def)
    have nw: "\<not> wanted (ing_buf_offset res) ?s" using inc assms(2,5) by (auto simp: wanted_def)
    have op: "opened ev s" by (rule continues_opened [OF assms(1) inc assms(6)])
    then have "opened ev ?s" by simp
    then have "x = ((Continues, True, created cfg ev ?s), ?s\<lparr>tgt_map := Some (the_map cfg ev ?s)\<rparr>)"
      using x(1) t deliver_ignored [of ev ?s "ing_buf_offset res" cfg c] nw by simp
    then show ?thesis using assms(2) untouched_the_map [OF op] by simp
  next
    case False
    then show ?thesis using x(1) assms(2) by (auto simp: taken_def untouched_def split: if_splits)
  qed
  then obtain s1 pre where s1: "x = ((Continues, True, pre), s1)" "pre \<in> {[], created cfg ev s}" "\<not> has_full_frame s1"
    "source_addr s1 = Some src" "last_resync_request s1 = last_resync_request s" "untouched cfg ev s s1" by blast
  show ?thesis by (rule that [OF _ _ s1(2-6)]) (use x(2) s1(1) in auto)
qed

lemma no_created [simp]: "Map_Write v \<notin> set (created cfg ev s)" "Resync_Request p a \<notin> set (created cfg ev s)"
  by (simp_all add: created_def split: option.split)

text \<open>The others never ask.\<close>

lemma finished_never_asks:
  assumes "target_config_ok cfg" "wf_target cfg s" "\<not> has_full_frame s" "incoming ev s U32_MAX c"
    and "target_step cfg s ev = Inr ((Continues, acts), s')"
  shows "\<forall>p a. Resync_Request p a \<notin> set acts" "last_resync_request s' = last_resync_request s"
    "has_full_frame s' = (\<exists>n. fst (tc_decompress cfg c (tgt_staging s)) = Some n \<and> 8 \<le> n)"
    "\<not> has_full_frame s' \<Longrightarrow> (\<forall>v. Map_Write v \<notin> set acts) \<and> untouched cfg ev s s'"
proof -
  have op: "opened ev s" by (rule continues_opened [OF assms(2,4,5)])
  obtain r st where d: "tc_decompress cfg c (tgt_staging s) = (r, st)" by force
  have "(\<forall>p a. Resync_Request p a \<notin> set acts) \<and> last_resync_request s' = last_resync_request s \<and>
      has_full_frame s' = (\<exists>n. r = Some n \<and> 8 \<le> n) \<and>
      (\<not> has_full_frame s' \<longrightarrow> (\<forall>v. Map_Write v \<notin> set acts) \<and> untouched cfg ev s s')"
  proof (cases "\<exists>n. r = Some n \<and> 8 \<le> n")
    case True
    then obtain n where n: "r = Some n" "8 \<le> n" by blast
    obtain src opens proto tail where o: "write_tail tail"
      "same_frame_state (session_state ev cfg st n (the_map cfg ev s)
         ((received_state ev src opens proto s)\<lparr>tgt_map := Some (the_map cfg ev s)\<rparr>)) s'"
      "acts = created cfg ev s @ (List.map Map_Write (session_snapshots st n (the_map cfg ev s))
        @ (if first_data_called s then [] else [First_Data])
        @ (if tc_fanalab cfg \<and> \<not> stub_running s \<and> te_stub ev then [Stub_Started] else [])) @ tail"
      by (rule session_incoming [OF assms(1,2,4) op d [unfolded n(1)] n(2) assms(5)]) blast
    have "Resync_Request p a \<notin> set acts" for p a using o(1,3) by (auto simp: write_tail_def)
    moreover have "has_full_frame s'" "last_resync_request s' = last_resync_request s"
      using o(2) by (simp_all add: same_frame_state_def session_state_def)
    ultimately show ?thesis using True by simp
  next
    case False
    then have "\<forall>n. r = Some n \<longrightarrow> n < 8" by (auto simp: not_le)
    note g = session_dropped [OF assms(1,2,4) op d this assms(5)]
    show ?thesis using g False assms(3) untouched_the_map [OF op g(2)] by auto
  qed
  then show "\<forall>p a. Resync_Request p a \<notin> set acts" "last_resync_request s' = last_resync_request s"
    "has_full_frame s' = (\<exists>n. fst (tc_decompress cfg c (tgt_staging s)) = Some n \<and> 8 \<le> n)"
    "\<not> has_full_frame s' \<Longrightarrow> (\<forall>v. Map_Write v \<notin> set acts) \<and> untouched cfg ev s s'"
    using d by simp_all
qed

text \<open>C23: Without a session-info frame, an iteration that takes a datagram does one of two things. When
  the datagram completes no session-info message, nothing is written to the map, which at most is
  created, and the packet \<open>[1, 1]\<close> goes to the sender of that datagram exactly when the last
  request is a second old. When it completes one, no request is sent even if one is due; the frame
  counts exactly when the message decompresses to at least eight bytes, and otherwise nothing is
  written to the map then either.\<close>

theorem resync_requested:
  assumes "tgt_inv cfg s" "\<not> has_full_frame s" "\<not> te_shutdown ev" "te_recv ev = Datagram dg src"
    and "target_step cfg s ev = Inr ((Continues, acts), s')"
  shows "((\<nexists>c. incoming ev s U32_MAX c) \<longrightarrow>
      \<not> has_full_frame s' \<and> (\<forall>v. Map_Write v \<notin> set acts) \<and> untouched cfg ev s s' \<and>
      (if due ev s then last acts = Resync_Request [1, 1] src \<and> last_resync_request s' = te_clock ev On_Resync
       else (\<forall>p a. Resync_Request p a \<notin> set acts) \<and> last_resync_request s' = last_resync_request s)) \<and>
    (\<forall>c. incoming ev s U32_MAX c \<longrightarrow>
      (\<forall>p a. Resync_Request p a \<notin> set acts) \<and> last_resync_request s' = last_resync_request s \<and>
      has_full_frame s' = (\<exists>n. fst (tc_decompress cfg c (tgt_staging s)) = Some n \<and> 8 \<le> n) \<and>
      (\<not> has_full_frame s' \<longrightarrow> (\<forall>v. Map_Write v \<notin> set acts) \<and> untouched cfg ev s s'))"
proof (intro conjI impI allI)
  have ok: "target_config_ok cfg" and wf: "wf_target cfg s" using assms(1) by (simp_all add: tgt_inv_def)
  {
    assume "\<nexists>c. incoming ev s U32_MAX c"
    then have "\<forall>c. \<not> incoming ev s U32_MAX c" by blast
    from unfinished_asks [OF wf assms(2,3,4) this assms(5)]
    obtain s1 pre where q: "acts = pre @ fst (request_resync ev s1)" "s' = snd (request_resync ev s1)"
      "pre \<in> {[], created cfg ev s}" "\<not> has_full_frame s1" "source_addr s1 = Some src"
      "last_resync_request s1 = last_resync_request s" "untouched cfg ev s s1" by metis
    have "tgt_map s' = tgt_map s1" using q(2) by (auto simp: request_resync_def split: option.split)
    then show "\<not> has_full_frame s'" "Map_Write v \<notin> set acts" "untouched cfg ev s s'"
      "if due ev s then last acts = Resync_Request [1, 1] src \<and> last_resync_request s' = te_clock ev On_Resync
       else (\<forall>p a. Resync_Request p a \<notin> set acts) \<and> last_resync_request s' = last_resync_request s" for v
      using q by (auto simp: request_resync_def due_def untouched_def)
  }
qed (use finished_never_asks [OF _ _ assms(2) _ assms(5)] assms(1) in \<open>auto simp: tgt_inv_def\<close>)

end
