(* ===== verification/Delta_Link.thy ===== *)
theory Delta_Link
  imports Source_Step Target_Step
begin

text \<open>
  The contract between the source's frame encoder and the target's frame decoder, as an
  interface: a keyframe is decoded whatever the two references are, a delta when they agree, and
  either leaves them agreeing. The lemmas for streams are proved against the contract; the XOR
  encoding of the code implements it.
\<close>

text \<open>A stream of frames through an encoder and a decoder; \<open>True\<close> asks for a delta.\<close>

fun relay ::
  "(bool \<Rightarrow> 'f \<Rightarrow> 'e \<Rightarrow> 'p \<times> 'e) \<Rightarrow> (bool \<Rightarrow> 'p \<Rightarrow> 'd \<Rightarrow> 'f \<times> 'd) \<Rightarrow> (bool \<times> 'f) list \<Rightarrow> 'e \<Rightarrow> 'd \<Rightarrow>
   'f list \<times> 'e \<times> 'd" where
  "relay enc dec [] e d = ([], e, d)"
| "relay enc dec ((b, f) # fs) e d =
     (let (p, e1) = enc b f e; (g, d1) = dec b p d; (gs, e2, d2) = relay enc dec fs e1 d1 in (g # gs, e2, d2))"

locale delta_link =
  fixes enc :: "bool \<Rightarrow> 'f \<Rightarrow> 'e \<Rightarrow> 'p \<times> 'e" and dec :: "bool \<Rightarrow> 'p \<Rightarrow> 'd \<Rightarrow> 'f \<times> 'd"
    and valid :: "'f \<Rightarrow> bool" and usable :: "'e \<Rightarrow> 'd \<Rightarrow> bool" and agree :: "'e \<Rightarrow> 'd \<Rightarrow> bool"
  assumes frame_decodes: "valid f \<Longrightarrow> usable e d \<Longrightarrow> b \<longrightarrow> agree e d \<Longrightarrow> enc b f e = (p, e') \<Longrightarrow>
      dec b p d = (g, d') \<Longrightarrow> g = f \<and> usable e' d' \<and> agree e' d'"
begin

lemma stream_decodes:
  "list_all (\<lambda>(b, f). valid f) fs \<Longrightarrow> usable e d \<Longrightarrow> agree e d \<or> fs = [] \<or> \<not> fst (hd fs) \<Longrightarrow>
   relay enc dec fs e d = (gs, e', d') \<Longrightarrow>
   gs = List.map snd fs \<and> usable e' d' \<and> (fs \<noteq> [] \<longrightarrow> agree e' d')"
proof (induction fs arbitrary: e d gs)
  case (Cons x fs)
  obtain b f where x: "x = (b, f)" by (cases x)
  obtain p e1 where e1: "enc b f e = (p, e1)" by (cases "enc b f e")
  obtain g d1 where d1: "dec b p d = (g, d1)" by (cases "dec b p d")
  obtain hs where r: "relay enc dec fs e1 d1 = (hs, e', d')" "gs = g # hs"
    using Cons.prems(4) x e1 d1 by (auto simp: Let_def split: prod.splits)
  have "g = f \<and> usable e1 d1 \<and> agree e1 d1"
    using frame_decodes [OF _ Cons.prems(2) _ e1 d1] Cons.prems(1,3) x by auto
  with Cons.IH [OF _ _ _ r(1)] Cons.prems(1) x r show ?case by (cases fs) auto
qed simp

end

text \<open>A finer contract says what happens when the references differ: the frame comes out blended with
  the difference, and the difference stays, until a keyframe clears it. It gives the contract above,
  where agreeing means that there is no difference.\<close>

locale masked_link =
  fixes enc :: "bool \<Rightarrow> 'f \<Rightarrow> 'e \<Rightarrow> 'p \<times> 'e" and dec :: "bool \<Rightarrow> 'p \<Rightarrow> 'd \<Rightarrow> 'f \<times> 'd"
    and valid :: "'f \<Rightarrow> bool" and usable :: "'e \<Rightarrow> 'd \<Rightarrow> bool" and diff :: "'e \<Rightarrow> 'd \<Rightarrow> 'f"
    and blend :: "'f \<Rightarrow> 'f \<Rightarrow> 'f" and zero :: 'f
  assumes frame_blends: "valid f \<Longrightarrow> usable e d \<Longrightarrow> enc b f e = (p, e') \<Longrightarrow> dec b p d = (g, d') \<Longrightarrow>
      g = blend f (if b then diff e d else zero) \<and> usable e' d' \<and> diff e' d' = (if b then diff e d else zero)"
    and blend_zero: "valid f \<Longrightarrow> blend f zero = f"
begin

lemma stream_blends:
  "list_all (\<lambda>(b, f). b \<and> valid f) fs \<Longrightarrow> usable e d \<Longrightarrow> relay enc dec fs e d = (gs, e', d') \<Longrightarrow>
   gs = List.map (\<lambda>(b, f). blend f (diff e d)) fs \<and> usable e' d' \<and> diff e' d' = diff e d"
proof (induction fs arbitrary: e d gs)
  case (Cons x fs)
  obtain f where x: "x = (True, f)" "valid f" using Cons.prems(1) by (cases x) auto
  obtain p e1 where e1: "enc True f e = (p, e1)" by (cases "enc True f e")
  obtain g d1 where d1: "dec True p d = (g, d1)" by (cases "dec True p d")
  obtain hs where r: "relay enc dec fs e1 d1 = (hs, e', d')" "gs = g # hs"
    using Cons.prems(3) x e1 d1 by (auto simp: Let_def split: prod.splits)
  have "g = blend f (diff e d) \<and> usable e1 d1 \<and> diff e1 d1 = diff e d"
    using frame_blends [OF x(2) Cons.prems(2) e1 d1] by simp
  with Cons.IH [OF _ _ r(1)] Cons.prems(1) x r(2) show ?case by auto
qed simp

end

sublocale masked_link \<subseteq> plain: delta_link enc dec valid usable "\<lambda>e d. diff e d = zero"
proof
  fix f e d b p e' g d'
  assume a: "valid f" "usable e d" "b \<longrightarrow> diff e d = zero" "enc b f e = (p, e')" "dec b p d = (g, d')"
  have "(if b then diff e d else zero) = zero" using a(3) by simp
  with frame_blends [OF a(1,2,4,5)] blend_zero [OF a(1)]
  show "g = f \<and> usable e' d' \<and> diff e' d' = zero" by simp
qed

section \<open>The XOR encoding of the code\<close>

text \<open>The source's payload and next reference; the target's frame and next reference.\<close>

definition enc_bytes :: "bool \<Rightarrow> byte list \<Rightarrow> byte list \<Rightarrow> byte list \<times> byte list" where
  "enc_bytes is_delta cur prev =
     (if is_delta then xor_bytes cur (take (length cur) prev) else cur, blit 0 cur prev)"

definition dec_bytes :: "bool \<Rightarrow> byte list \<Rightarrow> byte list \<Rightarrow> byte list \<times> byte list" where
  "dec_bytes is_delta payload prev =
     (decoded_frame is_delta payload prev, blit 0 (decoded_frame is_delta payload prev) prev)"

text \<open>The difference of two references of \<open>n\<close> bytes or more.\<close>

definition ref_diff :: "nat \<Rightarrow> byte list \<Rightarrow> byte list \<Rightarrow> byte list" where
  "ref_diff n prev_s prev_t = xor_bytes (take n prev_s) (take n prev_t)"

lemma xor_bytes_assoc: "xor_bytes (xor_bytes xs ys) zs = xor_bytes xs (xor_bytes ys zs)"
  by (rule nth_equalityI) (auto simp: xor.assoc)

lemma xor_bytes_self: "xor_bytes xs xs = replicate (length xs) 0"
  by (rule nth_equalityI) auto

lemma xor_bytes_back: "length xs = length ys \<Longrightarrow> xor_bytes xs (xor_bytes xs ys) = ys"
  by (rule nth_equalityI) (auto simp flip: xor.assoc)

lemma ref_diff_zero_iff:
  assumes "n \<le> length e" "n \<le> length d"
  shows "ref_diff n e d = replicate n 0 \<longleftrightarrow> take n e = take n d"
proof
  assume "ref_diff n e d = replicate n 0"
  then have "xor_bytes (take n e) (xor_bytes (take n e) (take n d)) = take n e"
    using assms xor_bytes_zero [of "take n e" n] by (simp add: ref_diff_def)
  then show "take n e = take n d" using assms by (simp add: xor_bytes_back)
qed (use assms in \<open>simp add: ref_diff_def xor_bytes_self\<close>)

interpretation xm: masked_link enc_bytes dec_bytes "\<lambda>f. length f = n" "\<lambda>e d. n \<le> length e \<and> n \<le> length d"
  "ref_diff n" xor_bytes "replicate n 0" for n
proof
  fix f e d :: "byte list" and b p e' g d'
  assume a: "length f = n" "n \<le> length e \<and> n \<le> length d" "enc_bytes b f e = (p, e')" "dec_bytes b p d = (g, d')"
  let ?m = "if b then ref_diff n e d else replicate n 0"
  have p: "p = (if b then xor_bytes f (take n e) else f)" "length p = n" "e' = blit 0 f e"
    using a(1-3) by (auto simp: enc_bytes_def)
  have g: "g = xor_bytes f ?m"
    using a(1,4) p(1,2) by (auto simp: dec_bytes_def decoded_frame_def ref_diff_def xor_bytes_assoc xor_bytes_zero)
  have lm: "length ?m = n" "length g = n" using a(1,2) by (simp_all add: g ref_diff_def)
  have d': "d' = blit 0 g d" using a(4) by (auto simp: dec_bytes_def)
  have "take n e' = f" "take n d' = g" using a(1,2) lm(2) p(3) d' by (simp_all add: blit_def)
  then have "ref_diff n e' d' = ?m" using a(1) lm(1) by (simp add: ref_diff_def g xor_bytes_back)
  moreover have "n \<le> length e' \<and> n \<le> length d'" using a(1,2) lm(2) p(3) d' by simp
  ultimately show "g = xor_bytes f ?m \<and> (n \<le> length e' \<and> n \<le> length d') \<and> ref_diff n e' d' = ?m" using g by blast
next
  show "xor_bytes f (replicate n 0) = f" if "length f = n" for f using that by (simp add: xor_bytes_zero)
qed

end
