(* ===== verification/Mirror.thy ===== *)
theory Mirror
  imports Source_Props Target_Props Delta_Link
begin

text \<open>
  The two programs together over a network that loses nothing: every datagram an iteration of
  the source sends is received by an iteration of the target, in order. The target's map then
  mirrors the live map frame by frame, keyframes and deltas alike.
\<close>

section \<open>Datagrams reach the target\<close>

text \<open>An iteration of the target that receives the datagram \<open>d\<close>.\<close>

definition carries :: "'a target_env \<Rightarrow> byte list \<Rightarrow> bool" where
  "carries ev d \<longleftrightarrow> \<not> te_shutdown ev \<and> te_create ev \<noteq> None \<and> (\<exists>src. te_recv ev = Datagram d src)"

definition ready :: "target_config \<Rightarrow> 'a target_state \<Rightarrow> bool" where
  "ready cfg t \<longleftrightarrow> tgt_inv cfg t \<and> tgt_ibt t = None"

lemma ready_wf: "ready cfg t \<Longrightarrow> wf_target cfg t" "ready cfg t \<Longrightarrow> target_config_ok cfg"
  "ready cfg t \<Longrightarrow> wf_receiver (tgt_proto t)" "ready cfg t \<Longrightarrow> max_payload (tgt_proto t) = tc_proto_size cfg"
  by (simp_all add: ready_def tgt_inv_def wf_target_def)

lemma ready_map:
  assumes "ready cfg t" "has_full_frame t"
  shows "\<exists>m. tgt_map t = Some m \<and> length m = tc_capacity cfg"
  using assms by (auto simp: ready_def tgt_inv_def consistent_def wf_target_def)

lemma length_ready_map: "ready cfg t \<Longrightarrow> has_full_frame t \<Longrightarrow> length (the (tgt_map t)) = tc_capacity cfg"
  using ready_map by fastforce

lemma ready_step: "ready cfg t \<Longrightarrow> \<exists>out t'. target_step cfg t ev = Inr (out, t') \<and> ready cfg t'"
  using tgt.step_ok [of cfg t ev] tgt_inv_step(1) [of cfg t ev] by (fastforce simp: ready_def tgt_inv_def)

text \<open>Iterations that complete no message leave everything but the receiver as it was.\<close>

definition unnoticed :: "target_exit \<times> 'a action list \<Rightarrow> bool" where
  "unnoticed out \<longleftrightarrow> fst out = Continues \<and> asking (snd out)"

lemma quiet_step:
  assumes "ready cfg t" "carries ev d" "length d \<le> MAX_DATAGRAM_SIZE"
    and "ingest (tgt_proto t) d = Inr (res, r')" "heartbeat res \<or> assembled res = None"
  shows "\<exists>out t'. target_step cfg t ev = Inr (out, t') \<and> unnoticed out \<and> ready cfg t' \<and>
    core_of t' = core_of t \<and> tgt_proto t' = r'"
proof -
  obtain src where src: "te_recv ev = Datagram d src" "\<not> te_shutdown ev" using assms(2) by (auto simp: carries_def)
  have d: "take MAX_DATAGRAM_SIZE d = d" using assms(3) by simp
  obtain res' proto where r: "ingest (tgt_proto t) (take MAX_DATAGRAM_SIZE d) = Inr (res', proto)"
    "receive_step cfg ev d src t =
       rbind (taken cfg ev res' (received_state ev src (new_seq res' \<and> \<not> heartbeat res') proto t)) (\<lambda>r. Inr (asked ev r))"
    using received_wf [OF ready_wf(1) [OF assms(1)], where dg = d and src = src and ev = ev] by metis
  then have e: "res' = res" "proto = r'" using assms(4) d by simp_all
  obtain s1 where s1: "taken cfg ev res (received_state ev src (new_seq res \<and> \<not> heartbeat res) r' t) = Inr ((Continues, True, []), s1)"
    "core_of s1 = core_of t" "tgt_proto s1 = r'"
    using assms(5) by (cases "heartbeat res") (simp_all add: taken_def core_of_def)
  have step: "target_step cfg t ev = Inr ((Continues, fst (request_resync ev s1)), snd (request_resync ev s1))"
    using src r e s1(1) by (simp add: target_step_def)
  have "tgt_proto (snd (request_resync ev s1)) = r'"
    using s1(3) by (auto simp: request_resync_def split: option.split)
  moreover have "ready cfg (snd (request_resync ev s1))" using ready_step [OF assms(1), of ev] step by auto
  ultimately show ?thesis using step s1(2) request_resync_core [where ev = ev and s = s1]
    by (auto simp: unnoticed_def)
qed

lemma quiet_run:
  "ready cfg t \<Longrightarrow> list_all2 carries evs ds \<Longrightarrow> list_all (\<lambda>d. length d \<le> MAX_DATAGRAM_SIZE) ds \<Longrightarrow>
   ingest_all (tgt_proto t) ds = Inr (outs, r') \<Longrightarrow>
   list_all (\<lambda>res. heartbeat res \<or> assembled res = None) outs \<Longrightarrow>
   \<exists>outs' t'. target_run cfg t evs = Inr (outs', t') \<and> list_all unnoticed outs' \<and> ready cfg t' \<and>
     core_of t' = core_of t \<and> tgt_proto t' = r'"
proof (induction evs arbitrary: t ds outs)
  case Nil
  then show ?case by (simp add: target_run_def)
next
  case (Cons ev evs)
  obtain d ds' where ds: "ds = d # ds'" "carries ev d" "list_all2 carries evs ds'"
    using Cons.prems(2) by (cases ds) auto
  obtain res r1 outs1 where i: "ingest (tgt_proto t) d = Inr (res, r1)" "ingest_all r1 ds' = Inr (outs1, r')"
    "outs = res # outs1" using Cons.prems(4) ds(1) by (auto simp: rbind_eq_Inr)
  obtain out t1 where t1: "target_step cfg t ev = Inr (out, t1)" "unnoticed out" "ready cfg t1"
    "core_of t1 = core_of t" "tgt_proto t1 = r1"
    using quiet_step [OF Cons.prems(1) ds(2) _ i(1)] Cons.prems(3,5) ds(1) i(3) by auto
  have "ingest_all (tgt_proto t1) ds' = Inr (outs1, r')" using i(2) t1(5) by simp
  from Cons.IH [OF t1(3) ds(3) _ this] Cons.prems(3,5) ds(1) i(3) obtain outs' t' where
    "target_run cfg t1 evs = Inr (outs', t')" "list_all unnoticed outs'" "ready cfg t'" "core_of t' = core_of t1"
    "tgt_proto t' = r'" by auto
  moreover have "fst out = Continues" using t1(2) by (simp add: unnoticed_def)
  ultimately show ?case using t1 by (simp add: target_run_def)
qed

text \<open>A whole message: all its datagrams but the last go by unnoticed, and the last completes it.\<close>

lemma message_arrives:
  assumes "ready cfg t" "good_message ppd z" "length z \<le> tc_proto_size cfg" "current_seq (tgt_proto t) \<noteq> Some sq"
    and "list_all2 carries evs (frames sq ppd z us w)"
  obtains evs0 ev outs t1 where "evs = evs0 @ [ev]" "target_run cfg t evs0 = Inr (outs, t1)" "list_all unnoticed outs"
    "ready cfg t1" "core_of t1 = core_of t" "incoming ev t1 w z" "te_create ev \<noteq> None"
    "\<And>p. receives ev t1 p \<Longrightarrow> current_seq p = None"
proof -
  note b = good_message_bounds [OF assms(2)]
  obtain m where m: "fragment_count ppd z = Suc m" using b(2) by (auto simp: gr0_conv_Suc)
  let ?ds = "map (frame sq ppd z us w) [0..<m]" and ?d = "frame sq ppd z us w m"
  have fr: "frames sq ppd z us w = ?ds @ [?d]" by (simp add: frames_def m)
  have len: "length (frame sq ppd z us w i) \<le> MAX_DATAGRAM_SIZE" for i
  proof -
    have "length (chunk ppd z i) \<le> MAX_PAYLOAD_PER_DATAGRAM"
      using length_chunk_le [of ppd z i] assms(2) by (simp add: good_message_def)
    then show ?thesis by (simp add: frame_def wire_consts)
  qed
  obtain evs0 ev where ev: "evs = evs0 @ [ev]" "list_all2 carries evs0 ?ds" "carries ev ?d"
    using assms(5) unfolding fr list_all2_append2 by (auto simp: list_all2_Cons2)
  have order: "set [0..<m] \<subseteq> {..<fragment_count ppd z}" "m \<notin> set [0..<m]"
    "insert m (set [0..<m]) = {..<fragment_count ppd z}" using m by auto
  have first: "placeable ppd z {} (hd ([0..<m] @ [m]))"
    using m hd_upt [of 0 "Suc m"] by (auto simp: placeable_def)
  obtain r' where r': "ingest_all (tgt_proto t) (?ds @ [?d]) = Inr (map quiet [0..<m] @ [complete z w m], r')"
    "current_seq r' = None"
    using deliver_all [OF assms(2) ready_wf(3) [OF assms(1)] _ assms(4) order first, of us w] assms(3)
      ready_wf(4) [OF assms(1)] by auto
  then obtain r1 where r1: "ingest_all (tgt_proto t) ?ds = Inr (map quiet [0..<m], r1)"
    "ingest r1 ?d = Inr (complete z w m, r')" by (auto simp: run_append rbind_eq_Inr)
  obtain outs t1 where t1: "target_run cfg t evs0 = Inr (outs, t1)" "list_all unnoticed outs" "ready cfg t1"
    "core_of t1 = core_of t" "tgt_proto t1 = r1"
    using quiet_run [OF assms(1) ev(2) _ r1(1)] len by (auto simp: list_all_iff quiet_def ingested_default_def)
  have td: "take MAX_DATAGRAM_SIZE ?d = ?d" using len by simp
  have "incoming ev t1 w z" using ev(3) r1(2) t1(5) td by (auto simp: incoming_def carries_def complete_def)
  moreover have "current_seq p = None" if "receives ev t1 p" for p
    using that ev(3) r1(2) r'(2) t1(5) td by (auto simp: receives_def carries_def)
  ultimately show ?thesis using ev(1,3) t1 by (intro that) (auto simp: carries_def)
qed

lemma run_last:
  assumes "target_run cfg t evs0 = Inr (outs, t1)" "list_all unnoticed outs" "target_step cfg t1 ev = Inr ((Continues, acts), t')"
  shows "target_run cfg t (evs0 @ [ev]) = Inr (outs @ [(Continues, acts)], t')"
proof -
  have "list_all (\<lambda>r. \<not> fst r \<noteq> Continues) outs" using assms(2) by (auto simp: list_all_iff unnoticed_def)
  with assms show ?thesis by (simp add: target_run_def run_until_append)
qed

section \<open>What the two programs assume of the link\<close>

text \<open>The documented round trip of the compressor and the decompressor, and messages that fit the
  protocol and the target's reassembly buffer.\<close>

definition link_ok :: "source_config \<Rightarrow> target_config \<Rightarrow> nat \<Rightarrow> bool" where
  "link_ok cfg tcfg ppd \<longleftrightarrow> target_config_ok tcfg \<and>
     (\<forall>p. 8 \<le> length p \<and> length p \<le> tc_capacity tcfg \<longrightarrow> (\<exists>z. cfg_compress cfg p = Some z \<and> good_message ppd z \<and>
        length z \<le> tc_proto_size tcfg \<and>
        (\<forall>b. length b = tc_capacity tcfg \<longrightarrow> (\<exists>b'. tc_decompress tcfg z b = (Some (length p), b') \<and> take (length p) b' = p))))"

lemma link_okE:
  assumes "link_ok cfg tcfg ppd" "8 \<le> length p" "length p \<le> tc_capacity tcfg"
  obtains z where "cfg_compress cfg p = Some z" "good_message ppd z" "length z \<le> tc_proto_size tcfg"
    "\<And>b. length b = tc_capacity tcfg \<Longrightarrow> \<exists>b'. tc_decompress tcfg z b = (Some (length p), b') \<and> take (length p) b' = p"
  using assms unfolding link_ok_def by metis

section \<open>One frame through the link\<close>

lemma session_frame_through:
  assumes "ready tcfg t" "link_ok cfg tcfg ppd" "current_seq (tgt_proto t) \<noteq> Some sq"
    and "8 \<le> length p" "length p \<le> tc_capacity tcfg" "cfg_compress cfg p = Some z"
    and "list_all2 carries evs (frames sq ppd z us U32_MAX)"
  shows "\<exists>outs t'. target_run tcfg t evs = Inr (outs, t') \<and> ready tcfg t' \<and> has_full_frame t' \<and>
    current_seq (tgt_proto t') = None"
proof -
  obtain z' where z': "cfg_compress cfg p = Some z'" "good_message ppd z'" "length z' \<le> tc_proto_size tcfg"
    "\<And>b. length b = tc_capacity tcfg \<Longrightarrow> \<exists>b'. tc_decompress tcfg z' b = (Some (length p), b') \<and> take (length p) b' = p"
    by (rule link_okE [OF assms(2,4,5)]) blast
  then have z: "good_message ppd z" "length z \<le> tc_proto_size tcfg" using assms(6) by simp_all
  obtain evs0 ev outs t1 where m: "evs = evs0 @ [ev]" "target_run tcfg t evs0 = Inr (outs, t1)" "list_all unnoticed outs"
    "ready tcfg t1" "core_of t1 = core_of t" "incoming ev t1 U32_MAX z" "te_create ev \<noteq> None"
    "\<And>p. receives ev t1 p \<Longrightarrow> current_seq p = None"
    by (rule message_arrives [OF assms(1) z assms(3,7)]) blast
  have wf: "wf_target tcfg t1" using m(4) by (rule ready_wf)
  then obtain st where st: "tc_decompress tcfg z (tgt_staging t1) = (Some (length p), st)"
    using z'(4) [of "tgt_staging t1"] z'(1) assms(6) by (auto simp: wf_target_def)
  obtain out t' where step: "target_step tcfg t1 ev = Inr (out, t')" "ready tcfg t'"
    using ready_step [OF m(4)] by blast
  obtain exit acts where out: "out = (exit, acts)" by (cases out)
  have op: "opened ev t1" using m(7) by (simp add: opened_def)
  obtain src opens proto tail where s: "exit = Continues" "receives ev t1 proto"
    "same_frame_state (session_state ev tcfg st (length p) (the_map tcfg ev t1)
       ((received_state ev src opens proto t1)\<lparr>tgt_map := Some (the_map tcfg ev t1)\<rparr>)) t'"
    using session_incoming [OF ready_wf(2) [OF m(4)] wf m(6) op st assms(4) step(1) [unfolded out]] by metis
  have "has_full_frame t'" "current_seq (tgt_proto t') = None"
    using s(3) m(8) [OF s(2)] by (simp_all add: same_frame_state_def)
  with run_last [OF m(2,3)] step out s(1) m(1) show ?thesis by auto
qed

lemma partial_frame_through:
  assumes "ready tcfg t" "link_ok cfg tcfg ppd" "current_seq (tgt_proto t) \<noteq> Some sq" "has_full_frame t"
    and "w \<noteq> U32_MAX" "112 \<le> length p" "length p \<le> tc_capacity tcfg" "wire_off w + (length p - 112) \<le> tc_capacity tcfg"
    and "cfg_compress cfg p = Some z" "list_all2 carries evs (frames sq ppd z us w)"
  shows "\<exists>outs t'. target_run tcfg t evs = Inr (outs, t') \<and> ready tcfg t' \<and> has_full_frame t' \<and>
    current_seq (tgt_proto t') = None \<and> tgt_prev t' = snd (dec_bytes (delta_wire w) p (tgt_prev t)) \<and>
    tgt_map t' = Some (partial_map2 (wire_off w) (fst (dec_bytes (delta_wire w) p (tgt_prev t))) (the (tgt_map t)))"
proof -
  have p8: "8 \<le> length p" using assms(6) by simp
  obtain z' where z': "cfg_compress cfg p = Some z'" "good_message ppd z'" "length z' \<le> tc_proto_size tcfg"
    "\<And>b. length b = tc_capacity tcfg \<Longrightarrow> \<exists>b'. tc_decompress tcfg z' b = (Some (length p), b') \<and> take (length p) b' = p"
    by (rule link_okE [OF assms(2) p8 assms(7)]) blast
  then have z: "good_message ppd z" "length z \<le> tc_proto_size tcfg" using assms(9) by simp_all
  obtain evs0 ev outs t1 where m: "evs = evs0 @ [ev]" "target_run tcfg t evs0 = Inr (outs, t1)" "list_all unnoticed outs"
    "ready tcfg t1" "core_of t1 = core_of t" "incoming ev t1 w z" "te_create ev \<noteq> None"
    "\<And>p. receives ev t1 p \<Longrightarrow> current_seq p = None"
    by (rule message_arrives [OF assms(1) z assms(3,10)]) blast
  have wf: "wf_target tcfg t1" using m(4) by (rule ready_wf)
  have core: "tgt_map t1 = tgt_map t" "tgt_prev t1 = tgt_prev t" "has_full_frame t1"
    using m(5) assms(4) by (simp_all add: core_of_def)
  obtain st where st: "tc_decompress tcfg z (tgt_staging t1) = (Some (length p), st)" "take (length p) st = p"
    using z'(4) [of "tgt_staging t1"] z'(1) assms(9) wf by (auto simp: wf_target_def)
  obtain out t' where step: "target_step tcfg t1 ev = Inr (out, t')" "ready tcfg t'"
    using ready_step [OF m(4)] by blast
  obtain exit acts where out: "out = (exit, acts)" by (cases out)
  have op: "opened ev t1" using m(7) by (simp add: opened_def)
  let ?fr = "decoded_frame (delta_wire w) (take (length p) st) (tgt_prev t1)"
  obtain proto where s: "exit = Continues" "receives ev t1 proto" "tgt_prev t' = blit 0 ?fr (tgt_prev t1)"
    "tgt_map t' = Some (partial_map2 (wire_off w) ?fr (the_map tcfg ev t1))" "has_full_frame t'"
    "current_seq (tgt_proto t') = current_seq proto"
    using partial_incoming [OF ready_wf(2) [OF m(4)] wf m(6) assms(5) core(3) op st(1) assms(6,8) step(1) [unfolded out] refl]
    by metis
  have "the_map tcfg ev t1 = the (tgt_map t)" using core(1) ready_map [OF assms(1,4)] by (auto simp: the_map_def)
  then have "tgt_prev t' = snd (dec_bytes (delta_wire w) p (tgt_prev t))"
    "tgt_map t' = Some (partial_map2 (wire_off w) (fst (dec_bytes (delta_wire w) p (tgt_prev t))) (the (tgt_map t)))"
    using s(3,4) st(2) core(2) by (simp_all add: dec_bytes_def)
  moreover have "current_seq (tgt_proto t') = None" using s(6) m(8) [OF s(2)] by simp
  ultimately show ?thesis using run_last [OF m(2,3)] step out s(1,5) m(1) by auto
qed

section \<open>The source's side\<close>

lemma transmit_record:
  assumes "wf_source cap s" "cfg_compress cfg p = Some z" "good_message (payload_per_datagram (src_sender s)) z"
    and "transmit cfg record_datagram ev bo (p, d, w) s = Inr (out, s')"
  shows "\<exists>us. wf_source cap s' \<and> frame_vars s' = frame_vars s \<and>
    src_net s' = src_net s @ frames (snd_sequence (src_sender s)) (payload_per_datagram (src_sender s)) z us w \<and>
    payload_per_datagram (src_sender s') = payload_per_datagram (src_sender s)"
proof -
  let ?us = "of_int (elapsed (ev_clock ev At_Source_Us) (last_data s))" let ?ppd = "payload_per_datagram (src_sender s)"
  note b = good_message_bounds [OF assms(3)]
  have "length z \<le> 65535 * ?ppd" using fragment_count_le_iff [OF b(1), of z 65535] b(3) by simp
  moreover have "z \<noteq> []" using assms(3) by (simp add: good_message_def)
  moreover have "wf_sender (src_sender s)" using assms(1) by (simp add: wf_source_def)
  ultimately obtain snd' where snd': "send record_datagram (src_sender s) (src_net s) z ?us w =
      Inr (Inr (of_nat (fragment_count ?ppd z)), snd', src_net s @ frames (snd_sequence (src_sender s)) ?ppd z ?us w)"
    "payload_per_datagram snd' = ?ppd"
    using send_record [of "src_sender s" z "src_net s" ?us w] by metis
  have "src_net s' = src_net s @ frames (snd_sequence (src_sender s)) ?ppd z ?us w" "src_sender s' = snd'"
    using assms(2,4) snd' by (auto simp: transmit_def Let_def rbind_eq_Inr note_send_def)
  moreover have "wf_source cap s'" "frame_vars s' = frame_vars s"
    using transmit_returns [OF assms(1), of cfg record_datagram ev bo "(p, d, w)"] assms(4) by auto
  ultimately show ?thesis using snd'(2) by auto
qed

lemma build_net:
  assumes "build cfg s ev = Inr (c, b, s2)"
  shows "src_sender s2 = src_sender s" "src_net s2 = src_net s" "got_data s2"
proof -
  have see: "src_sender (see_data k s) = src_sender s" "src_net (see_data k s) = src_net s" "got_data (see_data k s)" for k
    by (simp_all add: see_data_def Let_def)
  obtain s1 where c: "choose_frame ev (see_data (ev_clock ev) s) = Inr (c, s1)" "build_payload cfg ev c s1 = Inr (b, s2)"
    using assms by (auto simp: build_def rbind_eq_Inr)
  have 1: "src_sender s1 = src_sender s" "src_net s1 = src_net s" "got_data s1"
    using c(1) by (rule choose_frame_cases; simp add: see)+
  have enc: "src_sender s'' = src_sender s'" "src_net s'' = src_net s'" "got_data s'' = got_data s'"
    if "encode_frame cfg n s' = Inr (p, d, s'')" for n s' p d s''
    using that by (auto simp: encode_frame_def rbind_eq_Inr split: if_splits)
  have ses: "src_sender s'' = src_sender s' \<and> src_net s'' = src_net s' \<and> got_data s'' = got_data s'"
    if "session_payload ev s' = Inr (p, s'')" for s' p s''
    using that by (auto simp: session_payload_def rbind_eq_Inr)
  have par: "src_sender s'' = src_sender s' \<and> src_net s'' = src_net s' \<and> got_data s'' = got_data s'"
    if "partial_payload cfg ev c s' = Inr (p, s'')" for s' p s''
    using that by (cases c) (auto simp: partial_payload_def rbind_eq_Inr Let_def split: if_splits dest: enc)
  have "src_sender s2 = src_sender s1 \<and> src_net s2 = src_net s1 \<and> got_data s2 = got_data s1"
    using c(2) by (auto simp: build_payload_def rbind_eq_Inr split: if_splits option.splits dest!: ses par)
  with 1 show "src_sender s2 = src_sender s" "src_net s2 = src_net s" "got_data s2" by simp_all
qed

lemma first_data_is_session:
  assumes "\<not> got_data s" "ev_clock ev At_Session_Start \<le> ev_clock ev At_Force_Check" "build cfg s ev = Inr (c, b, s2)"
  shows "fst c = U32_MAX"
proof -
  obtain s1 where "choose_frame ev (see_data (ev_clock ev) s) = Inr (c, s1)"
    using assms(3) by (auto simp: build_def rbind_eq_Inr)
  moreover have "FULL_FRAME_INTERVAL \<le> elapsed (ev_clock ev At_Force_Check)
      (last_full_frame (see_data (ev_clock ev) s))"
    using assms(1,2) by (simp add: see_data_def Let_def elapsed_def)
  ultimately show ?thesis by (auto simp: choose_frame_def Let_def)
qed

text \<open>An iteration without data sends a heartbeat or nothing.\<close>

lemma idle_record:
  assumes "wf_source cap s" "src_net s = []" "idle_step cfg record_datagram s ev = Inr (e, s')"
  shows "wf_source cap s' \<and> src_prev s' = src_prev s \<and> (tick_counter s' = tick_counter s \<or> tick_counter s' = 0) \<and>
    (src_net s' = [] \<or> src_net s' = [header_bytes heartbeat_header]) \<and> (got_data s' \<longrightarrow> got_data s) \<and>
    payload_per_datagram (src_sender s') = payload_per_datagram (src_sender s)"
proof -
  let ?s0 = "poll_target cfg (ev_cap ev) s"
  have g: "got_data ?s0 = got_data s" using poll_target_frame(1) [of cfg "ev_cap ev" s] by (simp add: frame_vars_def)
  have wf: "wf_sender (src_sender s)" using assms(1) by (simp add: wf_source_def)
  have "\<exists>snd' net' hb. beat record_datagram (ev_clock ev) ?s0 = Inr (?s0\<lparr>src_sender := snd', src_net := net', last_heartbeat := hb\<rparr>) \<and>
      (net' = [] \<or> net' = [header_bytes heartbeat_header]) \<and> payload_per_datagram snd' = payload_per_datagram (src_sender s)"
  proof (cases "HEARTBEAT_INTERVAL \<le> elapsed (ev_clock ev At_Heartbeat_Check) (last_heartbeat ?s0)")
    case True
    obtain r snd' net' where h: "send_heartbeat record_datagram (src_sender s) [] = Inr (r, snd', net')"
      using send_heartbeat_wf [OF wf, of record_datagram "[]"] by auto
    have "sender_abs snd' = sender_abs (src_sender s)" "net' = [header_bytes heartbeat_header]"
      using heartbeat_datagram [OF wf, of record_datagram "[]" "[]"] h by (simp_all add: record_datagram_def)
    with h True assms(2) show ?thesis by (auto simp: beat_def sender_abs_def)
  next
    case False
    have "?s0 = ?s0\<lparr>src_sender := src_sender s, src_net := [], last_heartbeat := last_heartbeat ?s0\<rparr>"
      using assms(2) by simp
    then show ?thesis using False unfolding beat_def by auto
  qed
  then obtain snd' net' hb where b: "beat record_datagram (ev_clock ev) ?s0 = Inr (?s0\<lparr>src_sender := snd', src_net := net', last_heartbeat := hb\<rparr>)"
    "net' = [] \<or> net' = [header_bytes heartbeat_header]" "payload_per_datagram snd' = payload_per_datagram (src_sender s)"
    by blast
  have "src_net s' = net'" "payload_per_datagram (src_sender s') = payload_per_datagram (src_sender s)" "got_data s' \<longrightarrow> got_data s"
    using assms(3) b(1,3) g
    by (auto simp: idle_step_def disconnect_def Let_def split: if_splits option.splits sum.splits open_result.splits)
  with idle_step_returns [OF assms(1), of cfg record_datagram ev] assms(3) b(2) show ?thesis by auto
qed

section \<open>The two loops linked\<close>

text \<open>One iteration of the source and the iterations of the target that receive what it sent.\<close>

inductive exchange ::
  "source_config \<Rightarrow> target_config \<Rightarrow> source_env \<Rightarrow> byte list list source_state \<times> 'a target_state \<Rightarrow>
   byte list list source_state \<times> 'a target_state \<Rightarrow> bool" for cfg tcfg where
  exchange: "source_step cfg record_datagram (s\<lparr>src_net := []\<rparr>) ev = Inr (Next r, s') \<Longrightarrow>
    list_all2 carries evs (src_net s') \<Longrightarrow> target_run tcfg t evs = Inr (outs, t') \<Longrightarrow>
    exchange cfg tcfg ev (s, t) (s', t')"

inductive_cases exchangeE: "exchange cfg tcfg ev (s, t) (s', t')"

text \<open>An iteration on a live map of a session whose variable buffers make frames of \<open>n\<close> bytes.\<close>

definition live_env :: "target_config \<Rightarrow> nat \<Rightarrow> source_env \<Rightarrow> bool" where
  "live_env tcfg n ev \<longleftrightarrow> source_env_ok (tc_capacity tcfg) ev \<and> 112 \<le> length (ev_map ev Read_Active) \<and>
     ev_clock ev At_Session_Start \<le> ev_clock ev At_Force_Check \<and>
     (\<forall>off len tick tick_off. active_var_buf (ev_map ev Read_Active) = Inr (Some (off, len, tick, tick_off)) \<longrightarrow>
        112 + len = n)"

definition linked :: "target_config \<Rightarrow> nat \<Rightarrow> nat \<Rightarrow> byte list list source_state \<Rightarrow> 'a target_state \<Rightarrow> bool" where
  "linked tcfg ppd n s t \<longleftrightarrow> wf_source (tc_capacity tcfg) s \<and> ready tcfg t \<and>
     payload_per_datagram (src_sender s) = ppd \<and> current_seq (tgt_proto t) = None \<and>
     (if has_full_frame t then tick_counter s = 0 \<or> take n (src_prev s) = take n (tgt_prev t) else \<not> got_data s)"

lemma delta_bit_iff: "(w :: u32) AND DELTA_BIT \<noteq> 0 \<longleftrightarrow> bit w 31"
proof
  show "bit w 31" if "w AND DELTA_BIT \<noteq> 0"
  proof (rule ccontr)
    assume "\<not> bit w 31"
    then have "w AND DELTA_BIT = 0" by (intro bit_word_eqI) (auto simp: bit_and_iff)
    with that show False by simp
  qed
  show "w AND DELTA_BIT \<noteq> 0" if "bit w 31"
    using that by (metis bit_0_eq bit_DELTA_BIT bit_and_iff bot_apply bot_bool_def)
qed

lemma session_end_ge_8:
  assumes "112 \<le> length d" "session_info_end d = Inr e"
  shows "8 \<le> e"
proof -
  let ?f = "fold (\<lambda>i m. if in_range_off d i then min m (slot_off d i) else m) [0..<ring_slots d] (length d)"
  have "?f = length d \<or> 112 < ?f" using fold_min_off [of d "ring_slots d" "length d"] by (auto simp: Let_def)
  moreover have "e = ?f" using assms(2) session_info_end_eq [OF assms(1)] by simp
  ultimately show ?thesis using assms(1) by linarith
qed

text \<open>What an exchange with a partial frame leaves in the target's map: the live header and variable
  buffer, exclusive-or a mask of \<open>n\<close> bytes that is zero when the references agreed.\<close>

definition masked :: "source_env \<Rightarrow> nat \<Rightarrow> nat \<Rightarrow> byte list \<Rightarrow> byte list \<Rightarrow> bool" where
  "masked ev off n e m \<longleftrightarrow> (\<forall>i<112. m ! i = ev_map ev Read_Head ! i XOR e ! i) \<and>
     (\<forall>j<n - 112. 112 \<le> off + j \<longrightarrow> m ! (off + j) = ev_map ev Read_Var ! (off + j) XOR e ! (112 + j))"

definition mirrored :: "source_env \<Rightarrow> nat \<Rightarrow> nat \<Rightarrow> byte list \<Rightarrow> bool" where
  "mirrored ev off n m \<longleftrightarrow> (\<forall>i<112. m ! i = ev_map ev Read_Head ! i) \<and>
     (\<forall>j<n - 112. 112 \<le> off + j \<longrightarrow> m ! (off + j) = ev_map ev Read_Var ! (off + j))"

lemma masked_zero: "112 \<le> n \<Longrightarrow> masked ev off n (replicate n 0) m \<longleftrightarrow> mirrored ev off n m"
  by (simp add: masked_def mirrored_def)

lemma partial_map2_masked:
  assumes "length m = cap" "length (partial_bytes ev off (off + (n - 112))) = n" "112 \<le> n" "off + (n - 112) \<le> cap" "n \<le> cap"
    and "112 \<le> length (ev_map ev Read_Head)" "off + (n - 112) \<le> length (ev_map ev Read_Var)" "length e = n"
  shows "masked ev off n e (partial_map2 off (xor_bytes (partial_bytes ev off (off + (n - 112))) e) m)"
proof -
  let ?cur = "partial_bytes ev off (off + (n - 112))"
  have l: "length (xor_bytes ?cur e) = n" using assms(2,8) by simp
  note maps = partial_maps [OF assms(1), of "xor_bytes ?cur e" off, unfolded l, OF assms(3,4)]
  have head: "?cur ! i = ev_map ev Read_Head ! i" if "i < 112" for i
    using that assms(6) by (simp add: partial_bytes_def nth_append IRSDK_HEADER_SIZE_def)
  have var: "?cur ! (112 + j) = ev_map ev Read_Var ! (off + j)" if "j < n - 112" for j
    using that assms(6,7) by (simp add: partial_bytes_def nth_append IRSDK_HEADER_SIZE_def)
  show ?thesis unfolding masked_def using maps(4) head var assms(2-5,8) by auto
qed

lemma linked_net [simp]: "linked tcfg ppd n (s\<lparr>src_net := w\<rparr>) t = linked tcfg ppd n s t"
  by (simp add: linked_def wf_source_def)

lemma linked_simps:
  assumes "linked tcfg ppd n s t"
  shows "wf_source (tc_capacity tcfg) s" "ready tcfg t" "payload_per_datagram (src_sender s) = ppd"
    "current_seq (tgt_proto t) = None"
  using assms by (simp_all add: linked_def)

lemma idle_exchange:
  assumes "linked tcfg ppd n s t" "src_net s = []" "idle_step cfg record_datagram s ev = Inr (e, s')"
    and "list_all2 carries evs (src_net s')" "target_run tcfg t evs = Inr (outs, t')"
  shows "linked tcfg ppd n s' t'"
proof -
  note l = linked_simps [OF assms(1)]
  note i = idle_record [OF l(1) assms(2,3)]
  have hb: "ingest r (header_bytes heartbeat_header) = Inr (ingested_default\<lparr>heartbeat := True\<rparr>, r)" for r
  proof (rule ingest_heartbeat)
    show "HEADER_SIZE \<le> length (header_bytes heartbeat_header)" by (simp add: wire_consts)
    show "hdr_fragments (read_header (header_bytes heartbeat_header)) = 0"
      using heartbeat_datagram [OF l(1) [unfolded wf_source_def, THEN conjunct1], of record_datagram "[]" "[]"] by simp
  qed
  have "core_of t' = core_of t \<and> tgt_proto t' = tgt_proto t \<and> ready tcfg t'"
  proof (cases "src_net s' = []")
    case True
    then show ?thesis using assms(4,5) l(2) by (simp add: target_run_def)
  next
    case False
    then have "src_net s' = [header_bytes heartbeat_header]" using i by blast
    moreover have "list_all (\<lambda>d. length d \<le> MAX_DATAGRAM_SIZE) [header_bytes heartbeat_header]" by (simp add: wire_consts)
    moreover have "ingest_all (tgt_proto t) [header_bytes heartbeat_header] = Inr ([ingested_default\<lparr>heartbeat := True\<rparr>], tgt_proto t)"
      by (simp add: hb)
    ultimately show ?thesis using quiet_run [OF l(2), of evs "[header_bytes heartbeat_header]"] assms(4,5) by auto
  qed
  then have "has_full_frame t' = has_full_frame t" "tgt_prev t' = tgt_prev t" "current_seq (tgt_proto t') = None" "ready tcfg t'"
    using l(4) by (simp_all add: core_of_def)
  with i assms(1) show ?thesis by (auto simp: linked_def split: if_splits)
qed

text \<open>The source's message for a built payload, and the state it leaves.\<close>

lemma sent_message:
  assumes "payload_per_datagram (src_sender s) = ppd" "link_ok cfg tcfg ppd" "8 \<le> length p" "length p \<le> tc_capacity tcfg"
    and "build cfg s ev = Inr (c, Some (p, d, w), s2)" "wf_source (tc_capacity tcfg) s2" "src_net s = []"
    and "transmit cfg record_datagram ev (fst c) (p, d, w) s2 = Inr (e, s')"
  obtains z us where "cfg_compress cfg p = Some z" "src_net s' = frames (snd_sequence (src_sender s)) ppd z us w"
    "frame_vars s' = frame_vars s2" "wf_source (tc_capacity tcfg) s'" "payload_per_datagram (src_sender s') = ppd"
proof -
  obtain z where z: "cfg_compress cfg p = Some z" "good_message ppd z" by (rule link_okE [OF assms(2-4)]) blast
  have ppd: "payload_per_datagram (src_sender s2) = ppd" "src_net s2 = []" "src_sender s2 = src_sender s"
    using build_net [OF assms(5)] assms(1,7) by simp_all
  show ?thesis
    using transmit_record [OF assms(6) z(1) _ assms(8)] z ppd that by auto
qed

lemma session_exchange:
  assumes "linked tcfg ppd n s t" "link_ok cfg tcfg ppd" "8 \<le> length p" "length p \<le> tc_capacity tcfg" "src_net s = []"
    and "build cfg s ev = Inr (c, Some (p, False, U32_MAX), s2)" "wf_source (tc_capacity tcfg) s2" "tick_counter s2 = 0"
    and "transmit cfg record_datagram ev (fst c) (p, False, U32_MAX) s2 = Inr (e, s')"
    and "list_all2 carries evs (src_net s')" "target_run tcfg t evs = Inr (outs, t')"
  shows "linked tcfg ppd n s' t'"
proof -
  obtain z us where m: "cfg_compress cfg p = Some z" "src_net s' = frames (snd_sequence (src_sender s)) ppd z us U32_MAX"
    "frame_vars s' = frame_vars s2" "wf_source (tc_capacity tcfg) s'" "payload_per_datagram (src_sender s') = ppd"
    by (rule sent_message [OF linked_simps(3) [OF assms(1)] assms(2-4,6,7,5,9)])
  have "current_seq (tgt_proto t) \<noteq> Some (snd_sequence (src_sender s))" using linked_simps(4) [OF assms(1)] by simp
  from session_frame_through [OF linked_simps(2) [OF assms(1)] assms(2) this assms(3,4) m(1) assms(10) [unfolded m(2)]]
  have "ready tcfg t' \<and> has_full_frame t' \<and> current_seq (tgt_proto t') = None" using assms(11) by auto
  moreover have "tick_counter s' = 0" using m(3) assms(8) by (simp add: frame_vars_def)
  ultimately show ?thesis using m(4,5) by (simp add: linked_def)
qed

text \<open>Two states between which a partial frame may pass, whatever either has sent or received before;
  and the mask with which a frame that passes is decoded.\<close>

definition meeting :: "target_config \<Rightarrow> nat \<Rightarrow> byte list list source_state \<Rightarrow> 'a target_state \<Rightarrow> bool" where
  "meeting tcfg ppd s t \<longleftrightarrow> wf_source (tc_capacity tcfg) s \<and> ready tcfg t \<and>
     payload_per_datagram (src_sender s) = ppd \<and> has_full_frame t \<and>
     current_seq (tgt_proto t) \<noteq> Some (snd_sequence (src_sender s))"

definition mask_of :: "source_config \<Rightarrow> nat \<Rightarrow> byte list list source_state \<Rightarrow> 'a target_state \<Rightarrow> byte list" where
  "mask_of cfg n s t = (if use_delta cfg s then ref_diff n (src_prev s) (tgt_prev t) else replicate n 0)"

text \<open>For a frame to be decoded as it is, a delta needs agreeing references.\<close>

definition facing ::
  "source_config \<Rightarrow> target_config \<Rightarrow> nat \<Rightarrow> nat \<Rightarrow> byte list list source_state \<Rightarrow> 'a target_state \<Rightarrow> bool" where
  "facing cfg tcfg ppd n s t \<longleftrightarrow> meeting tcfg ppd s t \<and>
     (use_delta cfg s \<longrightarrow> take n (src_prev s) = take n (tgt_prev t))"

lemma linked_facing:
  assumes "linked tcfg ppd n s t" "has_full_frame t"
  shows "facing cfg tcfg ppd n s t"
proof -
  have "tick_counter s \<noteq> 0" if "use_delta cfg s" using that by (auto simp: use_delta_def)
  with assms show ?thesis by (auto simp: linked_def facing_def meeting_def)
qed

lemma meeting_net [simp]:
  "meeting tcfg ppd (s\<lparr>src_net := w\<rparr>) t = meeting tcfg ppd s t"
  "mask_of cfg n (s\<lparr>src_net := w\<rparr>) t = mask_of cfg n s t"
  by (simp_all add: meeting_def mask_of_def wf_source_def use_delta_def)

lemma meeting_refs:
  "meeting tcfg ppd s t \<Longrightarrow> length (src_prev s) = tc_capacity tcfg \<and> length (tgt_prev t) = tc_capacity tcfg"
  using ready_wf(1) by (auto simp: meeting_def wf_source_def wf_target_def)

lemma length_mask_of: "meeting tcfg ppd s t \<Longrightarrow> n \<le> tc_capacity tcfg \<Longrightarrow> length (mask_of cfg n s t) = n"
  using meeting_refs [of tcfg ppd s t] by (simp add: mask_of_def ref_diff_def)

lemma facing_mask:
  assumes "facing cfg tcfg ppd n s t" "n \<le> tc_capacity tcfg"
  shows "mask_of cfg n s t = replicate n 0"
  using assms meeting_refs [of tcfg ppd s t] ref_diff_zero_iff [of n "src_prev s" "tgt_prev t"]
  by (auto simp: facing_def mask_of_def)

text \<open>The states after a partial frame: nothing under way, and references that differ by the mask.\<close>

definition apart :: "target_config \<Rightarrow> nat \<Rightarrow> nat \<Rightarrow> byte list \<Rightarrow> byte list list source_state \<Rightarrow> 'a target_state \<Rightarrow> bool" where
  "apart tcfg ppd n e s t \<longleftrightarrow> meeting tcfg ppd s t \<and> current_seq (tgt_proto t) = None \<and>
     ref_diff n (src_prev s) (tgt_prev t) = e"

lemma apart_linked:
  assumes "apart tcfg ppd n (replicate n 0) s t" "n \<le> tc_capacity tcfg"
  shows "linked tcfg ppd n s t"
  using assms meeting_refs [of tcfg ppd s t] ref_diff_zero_iff [of n "src_prev s" "tgt_prev t"]
  by (auto simp: apart_def linked_def meeting_def)

lemma partial_exchange:
  assumes "meeting tcfg ppd s t" "link_ok cfg tcfg ppd" "src_net s = []"
    and "cur = partial_bytes ev off (off + (n - 112))" "length cur = n" "112 \<le> n" "n \<le> tc_capacity tcfg"
      "off + (n - 112) \<le> tc_capacity tcfg"
    and "p = fst (enc_bytes (use_delta cfg s) cur (src_prev s))" "w \<noteq> U32_MAX" "wire_off w = off" "delta_wire w = use_delta cfg s"
    and "build cfg s ev = Inr (c, Some (p, use_delta cfg s, w), s2)" "wf_source (tc_capacity tcfg) s2"
      "src_prev s2 = blit 0 cur (src_prev s)"
    and "transmit cfg record_datagram ev (fst c) (p, use_delta cfg s, w) s2 = Inr (e, s')"
    and "list_all2 carries evs (src_net s')" "target_run tcfg t evs = Inr (outs, t')"
  shows "apart tcfg ppd n (mask_of cfg n s t) s' t' \<and>
    tgt_map t' = Some (partial_map2 off (xor_bytes cur (mask_of cfg n s t)) (the (tgt_map t)))"
proof -
  let ?cap = "tc_capacity tcfg"
  have l: "wf_source ?cap s" "ready tcfg t" "payload_per_datagram (src_sender s) = ppd" "has_full_frame t"
    "current_seq (tgt_proto t) \<noteq> Some (snd_sequence (src_sender s))"
    using assms(1) by (simp_all add: meeting_def)
  have lens: "length (src_prev s) = ?cap" "length (tgt_prev t) = ?cap" using meeting_refs [OF assms(1)] by simp_all
  have lp: "length p = n" using assms(5,7,9) lens by (simp add: enc_bytes_def)
  obtain g d' where dec: "dec_bytes (use_delta cfg s) p (tgt_prev t) = (g, d')" by fastforce
  have enc: "enc_bytes (use_delta cfg s) cur (src_prev s) = (p, blit 0 cur (src_prev s))"
    using assms(9) by (simp add: enc_bytes_def)
  have x: "g = xor_bytes cur (mask_of cfg n s t)" "ref_diff n (blit 0 cur (src_prev s)) d' = mask_of cfg n s t"
    using xm.frame_blends [OF assms(5) _ enc dec] lens assms(7) unfolding mask_of_def by simp_all
  have p8: "8 \<le> length p" "length p \<le> ?cap" "112 \<le> length p" using lp assms(6,7) by simp_all
  obtain z us where m: "cfg_compress cfg p = Some z" "src_net s' = frames (snd_sequence (src_sender s)) ppd z us w"
    "frame_vars s' = frame_vars s2" "wf_source ?cap s'" "payload_per_datagram (src_sender s') = ppd"
    by (rule sent_message [OF l(3) assms(2) p8(1,2) assms(13,14,3,16)])
  have fits: "wire_off w + (length p - 112) \<le> ?cap" using assms(8,11) lp by simp
  from partial_frame_through [OF l(2) assms(2) l(5,4) assms(10) p8(3,2) fits m(1) assms(17) [unfolded m(2)]]
  have t': "ready tcfg t'" "has_full_frame t'" "current_seq (tgt_proto t') = None" "tgt_prev t' = d'"
    "tgt_map t' = Some (partial_map2 off (xor_bytes cur (mask_of cfg n s t)) (the (tgt_map t)))"
    using assms(18) dec x(1) by (auto simp: assms(11,12))
  have "src_prev s' = blit 0 cur (src_prev s)" using m(3) assms(15) by (simp add: frame_vars_def)
  with t' m(4,5) x(2) show ?thesis by (simp add: apart_def meeting_def)
qed

lemma partial_wire:
  assumes "off < 2 ^ 31 - 1" "w = (if b then of_nat off OR DELTA_BIT else (of_nat off :: u32))"
  shows "w \<noteq> U32_MAX" "wire_off w = off" "delta_wire w = b"
proof -
  have off: "off < 2 ^ 31" using assms(1) by simp
  note w = wire_offset_bits [OF off]
  show wo: "wire_off w = off" using w(1,4,5) assms(2) by (simp add: wire_off_def)
  have bw: "bit w 31 = b" using w(2,3) assms(2) by simp
  show "w \<noteq> U32_MAX"
  proof
    assume "w = U32_MAX"
    then have "off = unat (mask 31 :: u32)"
    proof -
      have "U32_MAX AND NOT DELTA_BIT = mask 31"
        by (intro bit_word_eqI) (auto simp: U32_MAX_def bit_DELTA_BIT bit_and_iff bit_not_iff bit_mask_iff)
      then show ?thesis using wo \<open>w = U32_MAX\<close> by (simp add: wire_off_def)
    qed
    then show False using assms(1) by (simp add: mask_eq_exp_minus_1)
  qed
  then show "delta_wire w = b" using bw by (simp add: delta_wire_def delta_bit_iff)
qed

text \<open>A partial frame is only built once the first data has made a session-info frame.\<close>

lemma sends_after_session:
  assumes "linked tcfg ppd n s t" "live_env tcfg n ev"
    and "built_frame cfg (s\<lparr>src_net := []\<rparr>) ev = Some (p, d, w)" "w \<noteq> U32_MAX"
  shows "has_full_frame t"
proof (rule ccontr)
  let ?s = "s\<lparr>src_net := []\<rparr>"
  assume "\<not> has_full_frame t"
  then have g: "\<not> got_data ?s" using assms(1) by (simp add: linked_def)
  obtain c s2 where b: "build cfg ?s ev = Inr (c, Some (p, d, w), s2)"
    using assms(3) by (auto simp: built_frame_def split: if_splits sum.splits)
  have "fst c = U32_MAX" using first_data_is_session [OF g _ b] assms(2) by (simp add: live_env_def)
  then have "w = U32_MAX" using b by (auto simp: build_def build_payload_def rbind_eq_Inr split: if_splits)
  with assms(4) show False by simp
qed

lemma exchange_masked:
  fixes t t' :: "'a target_state"
  assumes "link_ok cfg tcfg ppd" "tc_capacity tcfg < 2 ^ 31" "meeting tcfg ppd s t" "live_env tcfg n ev"
    and "exchange cfg tcfg ev (s, t) (s', t')"
    and "built_frame cfg (s\<lparr>src_net := []\<rparr>) ev = Some (p, d, w)" "w \<noteq> U32_MAX"
  shows "apart tcfg ppd n (mask_of cfg n s t) s' t' \<and> 112 \<le> n \<and> n \<le> tc_capacity tcfg \<and>
    (\<exists>m. tgt_map t' = Some m \<and> masked ev (wire_off w) n (mask_of cfg n s t) m)"
proof -
  let ?cap = "tc_capacity tcfg" let ?s = "s\<lparr>src_net := []\<rparr>"
  obtain r evs outs where x: "source_step cfg record_datagram ?s ev = Inr (Next r, s')"
    "list_all2 carries evs (src_net s')" "target_run tcfg t evs = Inr (outs, t')"
    using assms(5) by (auto elim: exchangeE)
  have f: "meeting tcfg ppd ?s t" using assms(3) by simp
  then have ls: "wf_source ?cap ?s" "ready tcfg t" "has_full_frame t" by (simp_all add: meeting_def)
  have env: "source_env_ok ?cap ev" "8 \<le> ?cap" "?cap < 2 ^ 63"
    using assms(1,2,4) by (simp_all add: live_env_def link_ok_def target_config_ok_def)
  have run: "\<not> ev_shutdown ev" "ev_ready ev" using assms(6) by (auto simp: built_frame_def split: if_splits)
  have d: "rbind (build cfg ?s ev) (\<lambda>(c, built, s2).
      case built of None \<Rightarrow> Inr (Next None, s2) | Some p \<Rightarrow> transmit cfg record_datagram ev (fst c) p s2) = Inr (Next r, s')"
    using x(1) run by (simp add: source_step_def data_step_build)
  have bf: "\<And>c b s2. build cfg ?s ev = Inr (c, b, s2) \<Longrightarrow> b = Some (p, d, w)"
    using assms(6) run by (simp add: built_frame_def)
  from ls(1) env show ?thesis
  proof (cases rule: build_cases [of ?cap ?s ev cfg])
    case (session c e s2)
    then show ?thesis using bf assms(7) by blast
  next
    case (skip c off len tick tick_off st k)
    then show ?thesis using bf by blast
  next
    case (partial off len tick tick_off st db)
    let ?cur = "partial_bytes ev off (off + len)" let ?ud = "use_delta cfg ?s"
    let ?w = "if ?ud then of_nat off OR DELTA_BIT else (of_nat off :: u32)"
    let ?p = "if ?ud then xor_bytes ?cur (take (length ?cur) (src_prev ?s)) else ?cur"
    let ?s2 = "(see_data (ev_clock ev) ?s)\<lparr>src_staging := st, delta_buf := db,
           src_prev := blit 0 ?cur (src_prev ?s), tick_counter := tick_counter ?s + 1, last_tick := tick\<rparr>"
    have n: "n = 112 + len" using assms(4) partial(1) by (simp add: live_env_def)
    have b: "build cfg ?s ev = Inr ((of_nat off, off, off + len, tick, tick_off), Some (?p, ?ud, ?w), ?s2)"
      using partial(10) by (simp only: Let_def)
    from bf [OF b] have w_eq: "w = ?w" unfolding option.inject prod.inject by (elim conjE) (rule sym)
    have len0: "len \<noteq> 0" using active_var_buf_SomeD(2) [OF partial(1)] by simp
    then have "off < 2 ^ 31 - 1" using partial(8) assms(2) by linarith
    note w = partial_wire [OF this refl, of ?ud]
    have lc: "length ?cur = n" using partial(9) n by (simp add: IRSDK_HEADER_SIZE_def)
    have ncap: "n \<le> ?cap" using partial(3) n by (simp add: IRSDK_HEADER_SIZE_def)
    have wf2: "wf_source ?cap ?s2" using ls(1) partial(4,5,9,3) by (simp add: wf_source_def see_data_def Let_def)
    have tr: "transmit cfg record_datagram ev (fst ((of_nat off :: u32), off, off + len, tick, tick_off)) (?p, ?ud, ?w) ?s2 = Inr (Next r, s')"
      using d unfolding b by simp
    have nl: "off + (n - 112) = off + len" using n by simp
    have cur: "?cur = partial_bytes ev off (off + (n - 112))" by (simp add: nl)
    have pe: "?p = fst (enc_bytes ?ud ?cur (src_prev ?s))" by (simp add: enc_bytes_def)
    have n112: "112 \<le> n" "off + (n - 112) \<le> ?cap" using n partial(8) by simp_all
    have net: "src_net ?s = []" and pv: "src_prev ?s2 = blit 0 ?cur (src_prev ?s)" by simp_all
    have sides: "apart tcfg ppd n (mask_of cfg n ?s t) s' t' \<and>
        tgt_map t' = Some (partial_map2 off (xor_bytes ?cur (mask_of cfg n ?s t)) (the (tgt_map t)))"
      by (rule partial_exchange [OF f assms(1) net cur lc n112(1) ncap n112(2) pe w b wf2 pv tr x(2,3)])
    have lens: "112 \<le> length (ev_map ev Read_Head)" "off + (n - 112) \<le> length (ev_map ev Read_Var)"
      using n active_choice_fits(1,2) [OF env(1,3) partial(1)] by (simp_all add: frame_fits_def IRSDK_HEADER_SIZE_def)
    have "masked ev off n (mask_of cfg n s t)
        (partial_map2 off (xor_bytes (partial_bytes ev off (off + (n - 112))) (mask_of cfg n s t)) (the (tgt_map t)))"
      by (rule partial_map2_masked [OF length_ready_map [OF ls(2) ls(3)]])
        (use lc nl n ncap lens partial(8) length_mask_of [OF assms(3) ncap] in simp_all)
    then have "masked ev off n (mask_of cfg n s t) (partial_map2 off (xor_bytes ?cur (mask_of cfg n s t)) (the (tgt_map t)))"
      by (simp only: nl)
    with sides w(2) w_eq n112(1) ncap show ?thesis by auto
  qed
qed

lemma exchange_partial:
  fixes t t' :: "'a target_state"
  assumes "link_ok cfg tcfg ppd" "tc_capacity tcfg < 2 ^ 31" "facing cfg tcfg ppd n s t" "live_env tcfg n ev"
    and "exchange cfg tcfg ev (s, t) (s', t')"
    and "built_frame cfg (s\<lparr>src_net := []\<rparr>) ev = Some (p, d, w)" "w \<noteq> U32_MAX"
  shows "linked tcfg ppd n s' t' \<and> (\<exists>m. tgt_map t' = Some m \<and> mirrored ev (wire_off w) n m)"
proof -
  have "meeting tcfg ppd s t" using assms(3) by (simp add: facing_def)
  note x = exchange_masked [OF assms(1,2) this assms(4-7)]
  then have "mask_of cfg n s t = replicate n 0" using facing_mask [OF assms(3)] by blast
  with x show ?thesis using apart_linked [of tcfg ppd n s' t'] masked_zero [of n] by auto
qed

lemma exchange_step:
  fixes t t' :: "'a target_state"
  assumes "link_ok cfg tcfg ppd" "tc_capacity tcfg < 2 ^ 31" "linked tcfg ppd n s t" "live_env tcfg n ev"
    and "exchange cfg tcfg ev (s, t) (s', t')"
  shows "linked tcfg ppd n s' t'"
proof -
  let ?cap = "tc_capacity tcfg" let ?s = "s\<lparr>src_net := []\<rparr>"
  obtain r evs outs where x: "source_step cfg record_datagram ?s ev = Inr (Next r, s')"
    "list_all2 carries evs (src_net s')" "target_run tcfg t evs = Inr (outs, t')"
    using assms(5) by (auto elim: exchangeE)
  have l: "linked tcfg ppd n ?s t" using assms(3) by simp
  note ls = linked_simps [OF l]
  have env: "source_env_ok ?cap ev" "8 \<le> ?cap" "?cap < 2 ^ 63"
    using assms(1,2,4) by (simp_all add: live_env_def link_ok_def target_config_ok_def)
  have run: "\<not> ev_shutdown ev" using x(1) by (auto simp: source_step_def)
  have full: "has_full_frame t" if "build cfg ?s ev = Inr (c, b, s2)" "fst c \<noteq> U32_MAX" for c b s2
  proof (rule ccontr)
    assume "\<not> has_full_frame t"
    then have "\<not> got_data ?s" using l by (simp add: linked_def)
    from first_data_is_session [OF this _ that(1)] assms(4) that(2) show False by (simp add: live_env_def)
  qed
  show ?thesis
  proof (cases "ev_ready ev")
    case False
    then have "idle_step cfg record_datagram ?s ev = Inr (Next r, s')" using x(1) run by (simp add: source_step_def)
    from idle_exchange [OF l _ this x(2,3)] show ?thesis by simp
  next
    case True
    have d: "rbind (build cfg ?s ev) (\<lambda>(c, built, s2).
        case built of None \<Rightarrow> Inr (Next None, s2) | Some p \<Rightarrow> transmit cfg record_datagram ev (fst c) p s2) = Inr (Next r, s')"
      using x(1) run True by (simp add: source_step_def data_step_build)
    from ls(1) env show ?thesis
    proof (cases rule: build_cases [of ?cap ?s ev cfg])
      case (session c e s2)
      let ?p = "session_bytes e (ev_map ev Read_Prefix)"
      have map: "112 \<le> length (ev_map ev Read_End)"
        using assms(4) env(1) source_env_ok_length by (metis live_env_def)
      have lp: "length ?p = e" by (simp add: session_bytes_def)
      have e: "8 \<le> length ?p" "length ?p \<le> ?cap" using session_end_ge_8 [OF map session(2)] session(4) lp by simp_all
      have "transmit cfg record_datagram ev (fst c) (?p, False, U32_MAX) s2 = Inr (Next r, s')" using d session(5) by simp
      from session_exchange [OF l assms(1) e _ session(5,9,6) this x(2,3)] show ?thesis by simp
    next
      case (skip c off len tick tick_off st k)
      have "s' = (see_data (ev_clock ev) ?s)\<lparr>src_staging := st, src_stats := record_dropped k (src_stats ?s)\<rparr>"
        using d skip(5) by simp
      then have net: "src_net s' = []" "src_prev s' = src_prev s" "tick_counter s' = tick_counter s"
        "src_sender s' = src_sender s" "wf_source ?cap s'"
        using ls(1) skip(3) by (auto simp: see_data_def Let_def wf_source_def)
      then have "t' = t" using x(2,3) by (simp add: target_run_def)
      with net assms(3) full [OF skip(5,2)] show ?thesis by (simp add: linked_def)
    next
      case (partial off len tick tick_off st db)
      let ?ud = "use_delta cfg ?s"
      have b: "build cfg ?s ev = Inr ((of_nat off, off, off + len, tick, tick_off),
          Some (if ?ud then xor_bytes (partial_bytes ev off (off + len)) (take (length (partial_bytes ev off (off + len))) (src_prev ?s))
            else partial_bytes ev off (off + len), ?ud, if ?ud then of_nat off OR DELTA_BIT else (of_nat off :: u32)),
          (see_data (ev_clock ev) ?s)\<lparr>src_staging := st, delta_buf := db,
           src_prev := blit 0 (partial_bytes ev off (off + len)) (src_prev ?s), tick_counter := tick_counter ?s + 1, last_tick := tick\<rparr>)"
        using partial(10) by (simp only: Let_def)
      have "len \<noteq> 0" using active_var_buf_SomeD(2) [OF partial(1)] by simp
      then have "off < 2 ^ 31 - 1" using partial(8) assms(2) by linarith
      note w = partial_wire(1) [OF this refl, of ?ud] partial_wire(1) [OF this refl, of False]
      have f: "facing cfg tcfg ppd n s t" using linked_facing [OF assms(3) full [OF b]] w(2) by simp
      show ?thesis
        by (rule exchange_partial [OF assms(1,2) f assms(4,5) _ w(1), THEN conjunct1])
          (use b run True in \<open>simp add: built_frame_def\<close>)
    qed
  qed
qed

section \<open>From the start of both programs\<close>

text \<open>The pairs of states reached from the two starts by exchanges on live maps whose frames have
  \<open>n\<close> bytes; \<open>size\<close> is the configured datagram size.\<close>

inductive together ::
  "source_config \<Rightarrow> target_config \<Rightarrow> nat \<Rightarrow> nat \<Rightarrow> byte list list source_state \<times> 'a target_state \<Rightarrow> bool"
  for cfg tcfg dsize n where
  starts: "together cfg tcfg dsize n
    (source_start (tc_capacity tcfg) dsize clock [], target_start tcfg False now)"
| exchanges: "together cfg tcfg dsize n x \<Longrightarrow> live_env tcfg n ev \<Longrightarrow> exchange cfg tcfg ev x y \<Longrightarrow>
    together cfg tcfg dsize n y"

abbreviation payload_room :: "nat \<Rightarrow> nat" where
  "payload_room dsize \<equiv> max 64 (min 65507 dsize) - HEADER_SIZE"

lemma linked_start:
  assumes "link_ok cfg tcfg (payload_room dsize)"
  shows "linked tcfg (payload_room dsize) n (source_start (tc_capacity tcfg) dsize clock [])
    (target_start tcfg False now :: 'a target_state)"
proof -
  let ?t = "target_start tcfg False now :: 'a target_state"
  have "target_config_ok tcfg" using assms by (simp add: link_ok_def)
  then have "ready tcfg ?t"
    using tgt_inv_start [of tcfg False now] by (simp add: ready_def) (simp add: target_start_def)
  moreover have "current_seq (tgt_proto ?t) = None" "\<not> has_full_frame ?t"
    by (simp_all add: target_start_def)
  moreover have "payload_per_datagram (src_sender (source_start (tc_capacity tcfg) dsize clock [])) = payload_room dsize"
    "\<not> got_data (source_start (tc_capacity tcfg) dsize clock [])"
    by (simp_all add: source_start_def wire_consts)
  ultimately show ?thesis by (simp add: linked_def)
qed

lemma together_linked:
  assumes "together cfg tcfg dsize n x" "link_ok cfg tcfg (payload_room dsize)" "tc_capacity tcfg < 2 ^ 31"
  shows "linked tcfg (payload_room dsize) n (fst x) (snd x)"
  using assms(1)
proof induction
  case (starts clock now)
  show ?case using linked_start [OF assms(2)] by simp
next
  case (exchanges x ev y)
  then show ?case using exchange_step [OF assms(2,3), of n "fst x" "snd x" ev "fst y" "snd y"] by simp
qed

text \<open>C1: The target's map mirrors the source's live map. From the start of both programs, over a
  network that delivers every datagram in order, through any sequence of session-info frames,
  keyframes, deltas, skipped frames, heartbeats and reconnections, an iteration of the source
  that sends a partial frame leaves the target's map with exactly the header and the active
  variable buffer the source read, at the buffer's own offset, however the frame was encoded.\<close>

theorem live_map_mirrored:
  assumes "link_ok cfg tcfg (payload_room dsize)" "tc_capacity tcfg < 2 ^ 31"
    and "together cfg tcfg dsize n (s, t)" "live_env tcfg n ev" "exchange cfg tcfg ev (s, t) (s', t')"
    and "built_frame cfg (s\<lparr>src_net := []\<rparr>) ev = Some (payload, is_delta, wire)" "wire \<noteq> U32_MAX"
  shows "\<exists>m. tgt_map t' = Some m \<and> (\<forall>i<112. m ! i = ev_map ev Read_Head ! i) \<and>
    (let off = unat (wire AND NOT DELTA_BIT) in
     \<forall>j<n - 112. 112 \<le> off + j \<longrightarrow> m ! (off + j) = ev_map ev Read_Var ! (off + j))"
proof -
  let ?s = "s\<lparr>src_net := []\<rparr>"
  have l: "linked tcfg (payload_room dsize) n s t" using together_linked [OF assms(3,1,2)] by simp
  have "facing cfg tcfg (payload_room dsize) n s t"
    using linked_facing [OF l] sends_after_session [OF l assms(4,6,7)] by blast
  from exchange_partial [OF assms(1,2) this assms(4-7)] show ?thesis
    by (auto simp: mirrored_def wire_off_def Let_def)
qed

end
