(* ===== verification/Target_Demo.thy ===== *)
theory Target_Demo
  imports Target_Props
begin

text \<open>
  A concrete target: a 200-byte map, a decompressor that copies, and the iterations in which a
  session-info frame, a partial frame, silence and a shutdown arrive. Every property of the loop
  is applied to it.
\<close>

definition copy_decoder :: "byte list \<Rightarrow> byte list \<Rightarrow> nat option \<times> byte list" where
  "copy_decoder c b = (if length c \<le> length b then (Some (length c), blit 0 c b) else (None, b))"

definition demo_target :: target_config where
  "demo_target = \<lparr>tc_capacity = 200, tc_proto_size = 200, tc_fanalab = True, tc_stale_timeout = 10000000,
     tc_endian = Little, tc_decompress = copy_decoder\<rparr>"

definition demo_recv :: "nat received_packet \<Rightarrow> int \<Rightarrow> nat target_env" where
  "demo_recv packet now = \<lparr>te_shutdown = False, te_recv = packet, te_clock = (\<lambda>_. now), te_create = Some (\<lambda>_. 0),
     te_stub = True, te_ibt = demo_io\<rparr>"

text \<open>Nine bytes of session-info prefix with the status bytes zero; a header of ones with one
  byte of variable data, for offset 150.\<close>

definition demo_prefix :: "byte list" where
  "demo_prefix = [2, 0, 0, 0, 0, 0, 0, 0, 7]"

definition demo_frame :: "byte list" where
  "demo_frame = replicate 112 1 @ [9]"

definition demo_datagram :: "u32 \<Rightarrow> byte list \<Rightarrow> u32 \<Rightarrow> byte list" where
  "demo_datagram sq data w = frame sq 8976 data 0 w 0"

lemma copy_decoder_ok: "decoder_ok copy_decoder"
  by (auto simp: decoder_ok_def copy_decoder_def)

lemma demo_target_ok [simp]: "target_config_ok demo_target"
  by (simp add: target_config_ok_def demo_target_def copy_decoder_ok)

lemma demo_target_simps [simp]:
  "tc_capacity demo_target = 200" "tc_proto_size demo_target = 200" "tc_fanalab demo_target"
  "tc_decompress demo_target = copy_decoder" "tc_stale_timeout demo_target = 10000000"
  by (simp_all add: demo_target_def)

lemma demo_recv_simps [simp]:
  "te_shutdown (demo_recv p now) = False" "te_recv (demo_recv p now) = p" "te_clock (demo_recv p now) r = now"
  "te_create (demo_recv p now) = Some (\<lambda>_. 0)" "te_stub (demo_recv p now)" "te_ibt (demo_recv p now) = demo_io"
  by (simp_all add: demo_recv_def)

lemma demo_create [simp]: "create_map demo_target (demo_recv p now) = Some (replicate 200 0)"
  by (simp add: create_map_def map_replicate_const)

lemma demo_lengths [simp]: "length demo_prefix = 9" "length demo_frame = 113"
  by (simp_all add: demo_prefix_def demo_frame_def)

lemma single_incoming:
  assumes "wf_target cfg s" "data \<noteq> []" "length data \<le> tc_proto_size cfg" "length data \<le> 8976"
    "current_seq (tgt_proto s) \<noteq> Some sq"
  shows "incoming (demo_recv (Datagram (demo_datagram sq data w) src) now) s w data"
proof -
  have fc: "fragment_count 8976 data = 1"
  proof -
    have "0 < length data" using assms(2) by simp
    then have "(length data + 8976 - 1) div 8976 = (length data - 1) div 8976 + 1" by (cases "length data") simp_all
    then show ?thesis using assms(2,4) by (simp add: fragment_count_def div_less)
  qed
  have good: "good_message 8976 data" using assms(2) fc by (simp add: good_message_def wire_consts)
  have "wf_receiver (tgt_proto s)" "length data \<le> max_payload (tgt_proto s)"
    using assms(1,3) by (simp_all add: wf_target_def)
  from single_delivered [OF good fc this assms(5)] obtain r' where
    r': "ingest (tgt_proto s) (frame sq 8976 data 0 w 0) = Inr (complete data w 0, r')" by blast
  have "take MAX_DATAGRAM_SIZE (frame sq 8976 data 0 w 0) = frame sq 8976 data 0 w 0"
    using assms(4) by (simp add: frame_def chunk_def wire_consts)
  with r' show ?thesis by (simp add: incoming_def demo_datagram_def complete_def)
qed

lemma demo_incoming:
  assumes "wf_target demo_target s" "data \<noteq> []" "length data \<le> 200" "current_seq (tgt_proto s) \<noteq> Some sq"
  shows "incoming (demo_recv (Datagram (demo_datagram sq data w) src) now) s w data"
  using assms by (intro single_incoming [of demo_target]) simp_all

abbreviation demo_start :: "nat target_state" where
  "demo_start \<equiv> target_start demo_target False 0"

abbreviation demo_session :: "nat target_env" where
  "demo_session \<equiv> demo_recv (Datagram (demo_datagram 1 demo_prefix U32_MAX) 7) 0"

lemma demo_start_simps [simp]:
  "tgt_map demo_start = None" "has_full_frame demo_start = False" "first_data_called demo_start = False"
  "current_seq (tgt_proto demo_start) = None" "tgt_ibt demo_start = None" "stub_running demo_start = False"
  "tgt_staging demo_start = replicate 200 0" "tgt_prev demo_start = replicate 200 0"
  "last_resync_request demo_start = - 1000000"
  by (simp_all add: target_start_def RESYNC_REQUEST_INTERVAL_def)

lemma demo_step:
  assumes "wf_target demo_target s" "tgt_ibt s = None"
  obtains exit acts s' where "target_step demo_target s ev = Inr ((exit, acts), s')"
    "wf_target demo_target s'" "tgt_ibt s' = None"
  using tgt.step_ok [of demo_target s ev] assms by auto

theorem session_info_written_witness:
  "\<exists>acts s' m'. target_step demo_target demo_start demo_session = Inr ((Continues, acts), s') \<and>
    tgt_map s' = Some m' \<and> has_full_frame s' \<and> First_Data \<in> set acts \<and>
    m' ! 0 = 2 \<and> m' ! 4 = 0 \<and> m' ! 8 = 7 \<and> m' ! 9 = 0"
proof -
  obtain exit acts s' where st: "target_step demo_target demo_start demo_session = Inr ((exit, acts), s')"
    by (rule demo_step [of demo_start demo_session]) simp_all
  have inc: "incoming demo_session demo_start U32_MAX demo_prefix"
    by (rule demo_incoming) (simp_all add: demo_prefix_def)
  have dec: "tc_decompress demo_target demo_prefix (tgt_staging demo_start) =
      (Some 9, blit 0 demo_prefix (replicate 200 0))" by (simp add: copy_decoder_def)
  have "the_map demo_target demo_session demo_start = replicate 200 0" by (simp add: the_map_def)
  then obtain m' where m': "exit = Continues" "has_full_frame s'" "First_Data \<in> set acts" "tgt_map s' = Some m'"
    "\<forall>i<200. m' ! i = (if i < 4 \<or> 8 \<le> i \<and> i < 9 then blit 0 demo_prefix (replicate 200 0) ! i else replicate 200 0 ! i)"
    using session_info_written [OF demo_target_ok wf_target_start inc _ dec _ st] by (auto simp: opened_def)
  have "m' ! 0 = 2" "m' ! 4 = 0" "m' ! 8 = 7" "m' ! 9 = 0"
    using m'(5) by (simp_all add: demo_prefix_def blit_def)
  with st m'(1-4) show ?thesis by auto
qed

text \<open>A state after a session-info frame: the map is there and still blank.\<close>

definition demo_live :: "nat target_state" where
  "demo_live = demo_start\<lparr>tgt_map := Some (replicate 200 0), has_full_frame := True, first_data_called := True\<rparr>"

lemma demo_live_simps [simp]:
  "tgt_map demo_live = Some (replicate 200 0)" "has_full_frame demo_live" "first_data_called demo_live"
  "current_seq (tgt_proto demo_live) = None" "tgt_ibt demo_live = None" "stub_running demo_live = False"
  "tgt_staging demo_live = replicate 200 0" "tgt_prev demo_live = replicate 200 0" "last_update demo_live = 0"
  by (simp_all add: demo_live_def) (simp add: target_start_def)

lemma wf_demo_live [simp]: "wf_target demo_target demo_live"
proof -
  have "wf_target demo_target demo_start" by simp
  then show ?thesis by (simp add: demo_live_def wf_target_def)
qed

lemma demo_live_inv: "tgt_inv demo_target demo_live"
  by (simp add: tgt_inv_def consistent_def)

abbreviation demo_partial :: "nat target_env" where
  "demo_partial \<equiv> demo_recv (Datagram (demo_datagram 2 demo_frame 150) 7) 0"

lemma demo_off: "wire_off 150 = 150" "\<not> delta_wire 150" "(150 :: u32) \<noteq> U32_MAX"
  by (simp_all add: wire_off_def delta_wire_def U32_MAX_def DELTA_BIT_def)

theorem partial_frame_written_witness:
  "\<exists>v1 v2 tail s'. target_step demo_target demo_live demo_partial =
      Inr ((Continues, [Map_Write v1, Map_Write v2] @ tail), s') \<and>
    v1 ! 4 = 0 \<and> v1 ! 150 = 9 \<and> v2 ! 4 = 1 \<and> v2 ! 150 = 9 \<and> v2 ! 151 = 0"
proof -
  obtain exit acts s' where st: "target_step demo_target demo_live demo_partial = Inr ((exit, acts), s')"
    by (rule demo_step [of demo_live demo_partial]) simp_all
  have inc: "incoming demo_partial demo_live 150 demo_frame"
    by (rule demo_incoming) (simp_all add: demo_frame_def)
  have dec: "tc_decompress demo_target demo_frame (tgt_staging demo_live) =
      (Some 113, blit 0 demo_frame (replicate 200 0))" by (simp add: copy_decoder_def)
  note off = demo_off
  have m: "the_map demo_target demo_partial demo_live = replicate 200 0" "created demo_target demo_partial demo_live = []"
    by (simp_all add: the_map_def created_def)
  have fr: "take 113 (blit 0 demo_frame (replicate 200 0)) = demo_frame" by (simp add: blit_def)
  obtain v1 v2 tail where v: "exit = Continues" "acts = [Map_Write v1, Map_Write v2] @ tail"
    "\<forall>i<200. v1 ! i = (if 150 \<le> i \<and> i < 151 then demo_frame ! (112 + (i - 150)) else 0)"
    "\<forall>i<200. v2 ! i = (if i < 112 then demo_frame ! i else v1 ! i)"
    using partial_frame_written [OF demo_target_ok wf_demo_live inc off(3) _ _ dec _ _ st]
    by (auto simp: off m fr opened_def)
  have "v1 ! 4 = 0" "v1 ! 150 = 9" "v1 ! 151 = 0" using v(3) by (simp_all add: demo_frame_def nth_append)
  moreover have "v2 ! 4 = 1" "v2 ! 150 = v1 ! 150" "v2 ! 151 = v1 ! 151"
    using v(4) by (simp_all add: demo_frame_def nth_append)
  ultimately show ?thesis using st v(1,2) by auto
qed

abbreviation demo_wait :: "int \<Rightarrow> nat target_env" where
  "demo_wait now \<equiv> demo_recv No_Data now"

theorem stale_timeout_once_witness:
  "\<exists>s'. target_run demo_target demo_live ([demo_wait 5000000] @ demo_wait 10000000 # [demo_wait 30000000]) =
      Inr ([(Continues, [])] @ (Continues, [Map_Write (replicate 200 0), Map_Closed (replicate 200 0), Stale]) #
           [(Continues, [])], s') \<and> tgt_map s' = None"
  using stale_timeout_once [of demo_live "replicate 200 0" "[demo_wait 5000000]" "demo_wait 10000000" "[demo_wait 30000000]"
      demo_target]
  by (auto simp: silent_def timed_out_def elapsed_def)

abbreviation demo_short :: "nat target_env" where
  "demo_short \<equiv> demo_recv (Datagram (demo_datagram 2 [1, 2, 3] U32_MAX) 7) 0"

theorem resync_requested_witness:
  "(\<exists>acts s'. target_step demo_target demo_start demo_partial = Inr ((Continues, acts), s') \<and>
     last acts = Resync_Request [1, 1] 7 \<and> tgt_map s' = Some (replicate 200 0) \<and> \<not> has_full_frame s') \<and>
   (\<exists>acts s'. target_step demo_target demo_start demo_short = Inr ((Continues, acts), s') \<and>
     Resync_Request [1, 1] 7 \<notin> set acts \<and> \<not> has_full_frame s')"
proof (rule conjI)
  have inv: "tgt_inv demo_target demo_start" by (rule tgt_inv_start) simp
  have due: "due demo_partial demo_start" by (simp add: due_def RESYNC_REQUEST_INTERVAL_def elapsed_def)
  have inc: "incoming demo_partial demo_start 150 demo_frame"
    by (rule demo_incoming) (simp_all add: demo_frame_def)
  have no: "\<nexists>c. incoming demo_partial demo_start U32_MAX c"
    using inc demo_off(3) by (auto simp: incoming_def split: sum.splits)
  obtain src opens proto where st: "target_step demo_target demo_start demo_partial =
      rbind (deliver demo_target demo_partial 150 demo_frame (received_state demo_partial src opens proto demo_start))
        (\<lambda>r. Inr (asked demo_partial r))"
    using incoming_step [OF wf_target_start inc] by metis
  have d: "deliver demo_target demo_partial 150 demo_frame (received_state demo_partial src opens proto demo_start) =
      Inr ((Continues, True, [Map_Created (replicate 200 0)]),
        (received_state demo_partial src opens proto demo_start)\<lparr>tgt_map := Some (replicate 200 0)\<rparr>)"
    by (subst deliver_ignored) (simp_all add: opened_def wanted_def demo_off the_map_def created_def)
  then obtain acts s' where r: "target_step demo_target demo_start demo_partial = Inr ((Continues, acts), s')"
    "tgt_map s' = Some (replicate 200 0)"
    using st by (auto simp: request_resync_def)
  then show "\<exists>acts s'. target_step demo_target demo_start demo_partial = Inr ((Continues, acts), s') \<and>
     last acts = Resync_Request [1, 1] 7 \<and> tgt_map s' = Some (replicate 200 0) \<and> \<not> has_full_frame s'"
    using resync_requested [OF inv _ _ _ r(1)] no due by auto
next
  have inv: "tgt_inv demo_target demo_start" by (rule tgt_inv_start) simp
  have inc: "incoming demo_short demo_start U32_MAX [1, 2, 3]" by (rule demo_incoming) simp_all
  have short: "fst (tc_decompress demo_target [1, 2, 3] (tgt_staging demo_start)) = Some 3" by (simp add: copy_decoder_def)
  obtain src opens proto where st: "target_step demo_target demo_start demo_short =
      rbind (deliver demo_target demo_short U32_MAX [1, 2, 3] (received_state demo_short src opens proto demo_start))
        (\<lambda>r. Inr (asked demo_short r))"
    using incoming_step [OF wf_target_start inc] by metis
  have "\<exists>out s'. target_step demo_target demo_start demo_short = Inr ((Continues, out), s')"
    unfolding st by (simp add: deliver_def write_session_def copy_decoder_def Let_def)
  then obtain acts s' where r: "target_step demo_target demo_start demo_short = Inr ((Continues, acts), s')" by blast
  have "Resync_Request [1, 1] 7 \<notin> set acts" "\<not> has_full_frame s'"
    using resync_requested [OF inv _ _ _ r] inc short by auto
  with r show "\<exists>acts s'. target_step demo_target demo_start demo_short = Inr ((Continues, acts), s') \<and>
     Resync_Request [1, 1] 7 \<notin> set acts \<and> \<not> has_full_frame s'" by blast
qed

lemma demo_run: "\<exists>outs s'. target_run demo_target demo_start evs = Inr (outs, s')"
proof -
  have "target_config_ok demo_target \<and> wf_target demo_target demo_start \<and> tgt_ibt demo_start = None" by simp
  then show ?thesis unfolding target_run_def using tgt.run_until_returns [of demo_target demo_start evs]
    by (fastforce simp: list_all_iff)
qed

theorem target_refines_display_witness:
  "\<exists>outs s'. target_run demo_target demo_start [demo_session, demo_partial, demo_wait 20000000] = Inr (outs, s') \<and>
    display_run demo_target (core_of demo_start) outs (core_of s')"
  using demo_run [of "[demo_session, demo_partial, demo_wait 20000000]"] target_refines_display [OF demo_target_ok] by blast

text \<open>A partial frame arrives first, and the system hands out a region another process has kept.\<close>

theorem untouched_until_session_info_witness:
  "\<exists>outs s'. target_run demo_target demo_start [demo_partial\<lparr>te_create := Some (\<lambda>_. 7)\<rparr>] = Inr (outs, s') \<and>
    \<not> has_full_frame s' \<and> tgt_map s' = Some (replicate 200 7) \<and> tgt_prev s' = replicate 200 0"
proof -
  let ?ev = "demo_partial\<lparr>te_create := Some (\<lambda>_. 7)\<rparr>"
  have "incoming demo_partial demo_start 150 demo_frame" by (rule demo_incoming) (simp_all add: demo_frame_def)
  then have inc: "incoming ?ev demo_start 150 demo_frame" by (simp add: incoming_def)
  have c: "create_map demo_target ?ev = Some (replicate 200 7)" by (simp add: create_map_def map_replicate_const)
  obtain src opens proto where st: "target_step demo_target demo_start ?ev =
      rbind (deliver demo_target ?ev 150 demo_frame (received_state ?ev src opens proto demo_start))
        (\<lambda>r. Inr (asked ?ev r))"
    using incoming_step [OF wf_target_start inc] by metis
  have d: "deliver demo_target ?ev 150 demo_frame (received_state ?ev src opens proto demo_start) =
      Inr ((Continues, True, created demo_target ?ev demo_start),
        (received_state ?ev src opens proto demo_start)\<lparr>tgt_map := Some (the_map demo_target ?ev demo_start)\<rparr>)"
    by (subst deliver_ignored) (simp_all add: opened_def wanted_def demo_off)
  obtain outs s' where r: "target_run demo_target demo_start [?ev] = Inr (outs, s')" using demo_run by blast
  have "tgt_map s' \<noteq> None" "\<not> has_full_frame s'"
    using r unfolding target_run_def by (auto simp: st d request_resync_def rbind_eq_Inr split: if_splits)
  with r c show ?thesis using untouched_until_session_info [OF demo_target_ok r] by auto
qed

text \<open>A shutdown of a target that shows a connected session.\<close>

definition demo_connected :: "nat target_state" where
  "demo_connected = demo_live\<lparr>tgt_map := Some (replicate 200 1)\<rparr>"

theorem map_closed_as_last_written_witness:
  "\<exists>acts s'. target_run demo_target demo_connected [(demo_wait 0)\<lparr>te_shutdown := True\<rparr>] = Inr ([(Returns_Ok, acts)], s') \<and>
    Map_Closed (replicate 200 1) \<in> set acts \<and> (\<forall>m. Map_Write m \<notin> set acts)"
proof -
  have "tgt_inv demo_target demo_connected"
    using demo_live_inv by (simp add: tgt_inv_def consistent_def demo_connected_def wf_target_def)
  note closed = map_closed_as_last_written [OF this]
  obtain acts s' where r: "target_run demo_target demo_connected [(demo_wait 0)\<lparr>te_shutdown := True\<rparr>] = Inr ([(Returns_Ok, acts)], s')"
    by (simp add: target_run_def target_step_def leave_def)
  have v: "view_after (tgt_map demo_connected) ([] :: (target_exit \<times> nat action list) list) = Some (replicate 200 1)"
    by (simp add: view_after_def demo_connected_def)
  show ?thesis using closed [OF r] r v by (metis append_Nil target_exit.distinct(1))
qed

end
