(* ===== verification/Mirror_Demo.thy ===== *)
theory Mirror_Demo
  imports Mirror Target_Demo
begin

text \<open>
  The two programs on a concrete session: a 120-byte live map, a compressor that copies, and two
  iterations of the source, the first of which sends a session-info frame and the second a frame.
\<close>

abbreviation demo_source :: "byte list list source_state" where
  "demo_source \<equiv> source_start 200 9000 (\<lambda>_. 0) []"

lemma demo_good: "8 \<le> length p \<Longrightarrow> length p \<le> 200 \<Longrightarrow> good_message 8976 p"
proof -
  assume p: "8 \<le> length p" "length p \<le> 200"
  then have "fragment_count 8976 p \<le> 1" by (simp add: fragment_count_le_iff)
  with p show ?thesis by (auto simp: good_message_def wire_consts)
qed

lemma demo_link: "link_ok demo_config demo_target (payload_room 9000)"
  using demo_good by (auto simp: link_ok_def demo_config_def copy_decoder_def blit_def wire_consts)

lemma demo_live_env: "live_env demo_target 116 demo_env"
proof -
  have "source_env_ok 200 demo_env" by (rule demo_env_ok) simp
  moreover have "length (ev_map demo_env Read_Active) = 120"
    using i32_at_demo(1) [of 9 116] by (simp add: demo_env_def)
  ultimately show ?thesis using demo_choice by (auto simp: live_env_def demo_env_def)
qed

lemma exchange_exists:
  assumes "wf_source 200 s" "ready demo_target t" "source_env_ok 200 ev" "\<not> ev_shutdown ev" "ev_ready ev"
  obtains r s' t' where "source_step cfg record_datagram (s\<lparr>src_net := []\<rparr>) ev = Inr (Next r, s')"
    "exchange cfg demo_target ev (s, t) (s', t' :: nat target_state)"
proof -
  let ?s = "s\<lparr>src_net := []\<rparr>"
  have wf: "wf_source 200 ?s \<and> 8 \<le> (200 :: nat) \<and> (200 :: nat) < 2 ^ 63" "source_env_ok 200 ev"
    using assms(1,3) by (simp_all add: wf_source_def)
  obtain e s' where st: "source_step cfg record_datagram ?s ev = Inr (e, s')"
    using src.step_ok [OF wf, of cfg record_datagram] by blast
  then have "\<exists>c b s2. build cfg ?s ev = Inr (c, b, s2) \<and>
      (case b of None \<Rightarrow> Inr (Next None, s2) | Some p \<Rightarrow> transmit cfg record_datagram ev (fst c) p s2) = Inr (e, s')"
    using assms(4,5) by (auto simp: source_step_def data_step_build rbind_eq_Inr)
  then obtain c b s2 where b: "build cfg ?s ev = Inr (c, b, s2)"
    "(case b of None \<Rightarrow> Inr (Next None, s2) | Some p \<Rightarrow> transmit cfg record_datagram ev (fst c) p s2) = Inr (e, s')" by blast
  have "wf_source 200 s2" using build_returns_wf [OF _ wf(2) _ _ b(1)] wf(1) by simp
  have "\<exists>r. e = Next r"
  proof (cases b)
    case (Some p)
    then show ?thesis using b(2) transmit_returns [OF \<open>wf_source 200 s2\<close>, of cfg record_datagram ev "fst c" p] by auto
  qed (use b(2) in auto)
  then obtain r where r: "e = Next r" by blast
  let ?evs = "List.map (\<lambda>d. demo_recv (Datagram d 7) 0) (src_net s')"
  have "list_all2 carries ?evs (src_net s')" by (auto simp: list_all2_conv_all_nth carries_def)
  moreover have "\<exists>outs t'. target_run demo_target t ?evs = Inr (outs, t')"
    using tgt.run_until_returns [of demo_target t ?evs "\<lambda>r. fst r \<noteq> Continues"] assms(2)
    by (fastforce simp: target_run_def ready_def tgt_inv_def list_all_iff)
  ultimately show ?thesis using st r that exchange.intros by metis
qed

lemma linked_demo:
  assumes "linked demo_target ppd n s t"
  shows "wf_source 200 s" "ready demo_target t"
  using linked_simps(1,2) [OF assms] by simp_all

lemma demo_first:
  assumes "source_step demo_config record_datagram demo_source demo_env = Inr (Next r, s1)"
  shows "last_session_update s1 = 0" "last_full_frame s1 = 0" "got_data s1" "\<not> pending_resync s1" "last_tick s1 = I32_NONE"
proof -
  let ?sF = "(see_data (\<lambda>_. 0) demo_source)\<lparr>last_full_frame := 0, pending_resync := False, last_session_update := 0\<rparr>"
  have c: "choose_frame demo_env (see_data (\<lambda>_. 0) demo_source) = Inr ((U32_MAX, 0, length (demo_map 9 116), 0, 0), ?sF)"
  proof -
    have "FULL_FRAME_INTERVAL \<le> elapsed 0 (last_full_frame (see_data (\<lambda>_. 0) demo_source))"
      by (simp add: see_data_def Let_def source_start_def elapsed_def)
    then show ?thesis using demo_session_update by (simp add: choose_frame_def demo_env_def Let_def)
  qed
  have "data_step demo_config record_datagram demo_source demo_env = Inr (Next r, s1)"
    using assms by (simp add: source_step_def demo_env_def)
  then obtain p s2 where s2: "session_payload demo_env ?sF = Inr (p, s2)"
    "transmit demo_config record_datagram demo_env U32_MAX (p, False, U32_MAX) s2 = Inr (Next r, s1)"
    using c by (auto simp: data_step_def build_payload_def rbind_eq_Inr demo_env_def)
  have f: "last_session_update s2 = 0" "last_full_frame s2 = 0" "got_data s2" "\<not> pending_resync s2" "last_tick s2 = I32_NONE"
    using s2(1) by (auto simp: session_payload_def rbind_eq_Inr see_data_def Let_def)
  have "wf_source 200 ?sF" by (simp add: wf_source_def source_start_def see_data_def Let_def)
  then have "wf_source 200 s2" using session_payload_returns [of 200 ?sF demo_env] demo_env_ok [of 200] s2(1)
    by (auto simp: wf_source_def)
  from transmit_returns [OF this, of demo_config record_datagram demo_env U32_MAX "(p, False, U32_MAX)"] s2(2)
  have "frame_vars s1 = frame_vars s2" "pending_resync s1 = pending_resync s2" by (auto simp: demo_env_def)
  with f show "last_session_update s1 = 0" "last_full_frame s1 = 0" "got_data s1" "\<not> pending_resync s1" "last_tick s1 = I32_NONE"
    by (auto simp: frame_vars_def)
qed

lemma demo_second:
  assumes "wf_source 200 s" "last_session_update s = 0" "last_full_frame s = 0" "got_data s" "\<not> pending_resync s" "last_tick s = I32_NONE"
  shows "\<exists>p d w. built_frame demo_config s demo_env = Some (p, d, w) \<and> w \<noteq> U32_MAX \<and> unat (w AND NOT DELTA_BIT) = 116"
proof -
  have m: "ev_map demo_env Read_Active = demo_map 9 116" "ev_clock demo_env = (\<lambda>_. 0)" by (simp_all add: demo_env_def)
  have ch: "choose_frame demo_env (see_data (\<lambda>_. 0) s) = Inr ((116, 116, 120, 9, 64), see_data (\<lambda>_. 0) s)"
    using demo_choice demo_session_update assms
    by (simp add: choose_frame_def demo_env_def see_data_def Let_def FULL_FRAME_INTERVAL_def elapsed_def)
  have c: "fst c = 116" if "build demo_config s demo_env = Inr (c, b, s2)" for c b s2
    using that ch by (auto simp: build_def demo_env_def rbind_eq_Inr)
  have ev: "source_env_ok 200 demo_env" by (rule demo_env_ok) simp
  have cap: "8 \<le> (200 :: nat)" "(200 :: nat) < 2 ^ 63" by simp_all
  from assms(1) ev cap show ?thesis
  proof (cases rule: build_cases [of 200 s demo_env demo_config])
    case (session c e s2)
    then show ?thesis using c by (auto simp: U32_MAX_def)
  next
    case (skip c off len tick tick_off st da)
    then show ?thesis using demo_choice demo_reread assms(6) by (simp add: m I32_NONE_def IRSDK_HEADER_SIZE_def)
  next
    case (partial off len tick tick_off st db)
    let ?w = "if use_delta demo_config s then of_nat 116 OR DELTA_BIT else (of_nat 116 :: u32)"
    have "off = 116" using partial(1) demo_choice by (simp add: m)
    with partial(10) have "\<exists>p. built_frame demo_config s demo_env = Some (p, use_delta demo_config s, ?w)"
      by (auto simp: built_frame_def Let_def demo_env_def)
    moreover have "?w \<noteq> U32_MAX" "wire_off ?w = 116"
      using partial_wire [of 116 ?w "use_delta demo_config s"] by simp_all
    ultimately show ?thesis unfolding wire_off_def by blast
  qed
qed

theorem live_map_mirrored_witness:
  "\<exists>s t s' t' m. together demo_config demo_target 9000 116 (s, t :: nat target_state) \<and>
    exchange demo_config demo_target demo_env (s, t) (s', t') \<and> tgt_map t' = Some m \<and>
    (\<forall>i<112. m ! i = demo_map 9 116 ! i) \<and> (\<forall>j<4. m ! (116 + j) = demo_map 9 116 ! (116 + j))"
proof -
  have cap: "tc_capacity demo_target < 2 ^ 31" by simp
  have tg0: "together demo_config demo_target 9000 116 (demo_source, demo_start)"
    using starts [of demo_config demo_target 9000 116 "\<lambda>_. 0" 0] by simp
  have l0: "linked demo_target (payload_room 9000) 116 demo_source demo_start"
    using together_linked [OF tg0 demo_link cap] by simp
  have run: "\<not> ev_shutdown demo_env" "ev_ready demo_env" by (simp_all add: demo_env_def)
  obtain r s t where e1: "source_step demo_config record_datagram (demo_source\<lparr>src_net := []\<rparr>) demo_env = Inr (Next r, s)"
    "exchange demo_config demo_target demo_env (demo_source, demo_start) (s, t)"
    by (rule exchange_exists [OF linked_demo(1,2) [OF l0] demo_env_ok run]) simp_all
  have tg1: "together demo_config demo_target 9000 116 (s, t)"
    by (rule exchanges [OF tg0 demo_live_env e1(2)])
  have l1: "linked demo_target (payload_room 9000) 116 s t" using together_linked [OF tg1 demo_link cap] by simp
  obtain r' s' t' where e2: "exchange demo_config demo_target demo_env (s, t) (s', t')"
    by (rule exchange_exists [OF linked_demo(1,2) [OF l1] demo_env_ok run]) simp_all
  have "demo_source\<lparr>src_net := []\<rparr> = demo_source" by (simp add: source_start_def)
  note first = demo_first [OF e1(1) [unfolded this]]
  have wf: "wf_source 200 (s\<lparr>src_net := []\<rparr>)" using linked_simps(1) [OF l1] by (simp add: wf_source_def)
  have "\<exists>p d w. built_frame demo_config (s\<lparr>src_net := []\<rparr>) demo_env = Some (p, d, w) \<and> w \<noteq> U32_MAX \<and>
      unat (w AND NOT DELTA_BIT) = 116"
    by (rule demo_second [OF wf]) (simp_all add: first)
  then obtain p d w where b: "built_frame demo_config (s\<lparr>src_net := []\<rparr>) demo_env = Some (p, d, w)" "w \<noteq> U32_MAX"
    "unat (w AND NOT DELTA_BIT) = 116" by blast
  have maps: "ev_map demo_env q = demo_map 9 116" for q by (simp add: demo_env_def)
  from live_map_mirrored [OF demo_link cap tg1 demo_live_env e2 b(1,2)] obtain m where "tgt_map t' = Some m"
    "\<forall>i<112. m ! i = demo_map 9 116 ! i" "\<forall>j<4. m ! (116 + j) = demo_map 9 116 ! (116 + j)"
    by (auto simp: Let_def b(3) maps)
  with tg1 e2 show ?thesis by blast
qed

end
