(* ===== verification/Healing.thy ===== *)
theory Healing
  imports Mirror_Demo
begin

text \<open>
  Recovery from loss. Whatever datagrams the network has dropped, duplicated or reordered so far,
  the first keyframe that arrives whole brings the two programs back together: the map mirrors the
  live one again, and does so after every further frame until the next loss.
\<close>

definition live_exchange ::
  "source_config \<Rightarrow> target_config \<Rightarrow> nat \<Rightarrow> byte list list source_state \<times> 'a target_state \<Rightarrow>
   byte list list source_state \<times> 'a target_state \<Rightarrow> bool" where
  "live_exchange cfg tcfg n x y \<longleftrightarrow> (\<exists>ev. live_env tcfg n ev \<and> exchange cfg tcfg ev x y)"

lemma linked_run:
  assumes "(live_exchange cfg tcfg n)\<^sup>*\<^sup>* x y" "link_ok cfg tcfg ppd" "tc_capacity tcfg < 2 ^ 31"
    and "linked tcfg ppd n (fst x) (snd x)"
  shows "linked tcfg ppd n (fst y) (snd y)"
  using assms(1)
proof induction
  case (step y z)
  then obtain ev where "live_env tcfg n ev" "exchange cfg tcfg ev (fst y, snd y) (fst z, snd z)"
    by (auto simp: live_exchange_def)
  with exchange_step [OF assms(2,3) step.IH] show ?case by blast
qed (rule assms(4))

text \<open>The frame that an exchange sends, if it is a partial frame: delta or not, and its offset.\<close>

definition sends_partial ::
  "source_config \<Rightarrow> source_env \<Rightarrow> byte list list source_state \<Rightarrow> bool \<Rightarrow> u32 \<Rightarrow> bool" where
  "sends_partial cfg ev s is_delta wire \<longleftrightarrow> wire \<noteq> U32_MAX \<and>
     (\<exists>payload. built_frame cfg (s\<lparr>src_net := []\<rparr>) ev = Some (payload, is_delta, wire))"

lemma built_is_delta:
  assumes "wf_source cap s" "source_env_ok cap ev" "8 \<le> cap" "cap < 2 ^ 63"
    and "built_frame cfg s ev = Some (p, d, w)" "w \<noteq> U32_MAX"
  shows "d = use_delta cfg s"
proof -
  have bf: "\<And>c b s2. build cfg s ev = Inr (c, b, s2) \<Longrightarrow> b = Some (p, d, w)"
    using assms(5) by (auto simp: built_frame_def split: if_splits)
  from assms(1-4) show ?thesis
  proof (cases rule: build_cases [of cap s ev cfg])
    case (session c e s2)
    then show ?thesis using bf assms(6) by blast
  next
    case (skip c off len tick tick_off st k)
    then show ?thesis using bf by blast
  next
    case (partial off len tick tick_off st db)
    from bf [OF partial(10) [unfolded Let_def]] show ?thesis unfolding option.inject prod.inject by blast
  qed
qed

text \<open>C2: A keyframe heals every loss. Take the source and the target in any states, whatever was
  lost between them, where the target has seen a session-info frame and is not assembling another
  message under the sequence number the source uses next. If a keyframe now arrives whole, the
  target's map mirrors the live map, and it mirrors it again after every later partial frame,
  delta or not, as long as nothing more is lost.\<close>

theorem keyframe_heals:
  assumes "link_ok cfg tcfg ppd" "tc_capacity tcfg < 2 ^ 31"
    and "wf_source (tc_capacity tcfg) s" "payload_per_datagram (src_sender s) = ppd"
    and "ready tcfg t" "has_full_frame t" "current_seq (tgt_proto t) \<noteq> Some (snd_sequence (src_sender s))"
    and "live_env tcfg n ev" "sends_partial cfg ev s False wire" "exchange cfg tcfg ev (s, t) (s1, t1)"
    and "(live_exchange cfg tcfg n)\<^sup>*\<^sup>* (s1, t1) (s2, t2)"
    and "live_env tcfg n ev'" "sends_partial cfg ev' s2 is_delta wire'" "exchange cfg tcfg ev' (s2, t2) (s3, t3)"
  shows "\<exists>m m'. tgt_map t1 = Some m \<and> mirrored ev (wire_off wire) n m \<and>
    tgt_map t3 = Some m' \<and> mirrored ev' (wire_off wire') n m'"
proof -
  let ?cap = "tc_capacity tcfg"
  obtain p where b: "built_frame cfg (s\<lparr>src_net := []\<rparr>) ev = Some (p, False, wire)" "wire \<noteq> U32_MAX"
    using assms(9) by (auto simp: sends_partial_def)
  obtain p' where b': "built_frame cfg (s2\<lparr>src_net := []\<rparr>) ev' = Some (p', is_delta, wire')" "wire' \<noteq> U32_MAX"
    using assms(13) by (auto simp: sends_partial_def)
  have env: "source_env_ok ?cap ev" "8 \<le> ?cap" "?cap < 2 ^ 63"
    using assms(1,2,8) by (simp_all add: live_env_def link_ok_def target_config_ok_def)
  have "wf_source ?cap (s\<lparr>src_net := []\<rparr>)" using assms(3) by (simp add: wf_source_def)
  from built_is_delta [OF this env b] have "\<not> use_delta cfg s" by (simp add: use_delta_def)
  then have f: "facing cfg tcfg ppd n s t" using assms(3-7) by (simp add: facing_def meeting_def)
  from exchange_partial [OF assms(1,2) this assms(8,10) b]
  have l1: "linked tcfg ppd n s1 t1" and m1: "\<exists>m. tgt_map t1 = Some m \<and> mirrored ev (wire_off wire) n m" by blast+
  have l2: "linked tcfg ppd n s2 t2" using linked_run [OF assms(11,1,2)] l1 by simp
  have "facing cfg tcfg ppd n s2 t2"
    using linked_facing [OF l2] sends_after_session [OF l2 assms(12) b'] by blast
  from exchange_partial [OF assms(1,2) this assms(12,14) b'] m1 show ?thesis by blast
qed

text \<open>A target that has lost frames: its delta reference is wrong, and half a message is waiting.\<close>

definition lost_target :: "nat target_state" where
  "lost_target = (target_start demo_target False 0)\<lparr>tgt_map := Some (replicate 200 3), has_full_frame := True,
     first_data_called := True, tgt_prev := replicate 200 7\<rparr>"

lemma lost_target_ready: "ready demo_target lost_target"
  using wf_target_start [of demo_target False 0]
  by (simp add: ready_def tgt_inv_def lost_target_def wf_target_def consistent_def core_of_def target_start_def)

lemma demo_tick_live: "7 < sint t \<Longrightarrow> live_env demo_target 116 (demo_tick t)"
proof -
  have "length (ev_map (demo_tick t) Read_Active) = 120"
    using i32_at_demo(1) [of t 116] by (simp add: demo_tick_def)
  then show "7 < sint t \<Longrightarrow> live_env demo_target 116 (demo_tick t)"
    using demo_tick_env_ok [of 200 t] demo_tick_choice [of t] by (auto simp: live_env_def demo_tick_def demo_env_def)
qed

lemma demo_tick_sends:
  assumes "wf_source 200 s" "got_data s" "\<not> pending_resync s" "last_session_update s = 0"
    "last_full_frame s = 0" "7 < sint t" "last_tick s \<noteq> t" "ready demo_target (x :: nat target_state)"
  obtains s' x' where "sends_partial demo_config (demo_tick t) s (use_delta demo_config s)
      (if use_delta demo_config s then 116 OR DELTA_BIT else 116)"
    "exchange demo_config demo_target (demo_tick t) (s, x) (s', x')" "wf_source 200 s'"
    "got_data s'" "\<not> pending_resync s'" "last_session_update s' = 0" "last_full_frame s' = 0"
    "last_tick s' = t" "tick_counter s' = tick_counter s + 1" "target_supports_delta s' = target_supports_delta s"
proof -
  let ?s = "s\<lparr>src_net := []\<rparr>"
  have wf: "wf_source 200 ?s" "use_delta demo_config ?s = use_delta demo_config s"
    using assms(1) by (simp_all add: wf_source_def use_delta_def)
  obtain r s' x' where e: "source_step demo_config record_datagram ?s (demo_tick t) = Inr (Next r, s')"
    "exchange demo_config demo_target (demo_tick t) (s, x) (s', x')"
    by (rule exchange_exists [OF assms(1,8) demo_tick_env_ok]) (simp_all add: demo_tick_def demo_env_def)
  have "(116 OR DELTA_BIT :: u32) \<noteq> U32_MAX" "(116 :: u32) \<noteq> U32_MAX" by (simp_all add: DELTA_BIT_def U32_MAX_def)
  then show ?thesis
    using demo_tick_step [OF wf(1), of t demo_config record_datagram] e wf(2) assms(2-7) that
    by (auto simp: sends_partial_def)
qed

theorem keyframe_heals_witness:
  "\<exists>s1 t1 s3 t3 m m'. exchange demo_config demo_target (demo_tick 9) (demo_state True 0, lost_target) (s1, t1) \<and>
     exchange demo_config demo_target (demo_tick 10) (s1, t1) (s3, t3 :: nat target_state) \<and> use_delta demo_config s1 \<and>
     tgt_map t1 = Some m \<and> m ! 0 = demo_map 9 116 ! 0 \<and> tgt_map t3 = Some m' \<and> mirrored (demo_tick 10) 116 116 m'"
proof -
  let ?s = "demo_state True 0"
  have s: "got_data ?s" "\<not> pending_resync ?s" "last_session_update ?s = 0" "last_full_frame ?s = 0" "last_tick ?s \<noteq> 9"
    "\<not> use_delta demo_config ?s" "payload_per_datagram (src_sender ?s) = payload_room 9000"
    by (simp_all add: demo_state_def source_start_def use_delta_def wire_consts I32_NONE_def)
  obtain s1 t1 where 1: "sends_partial demo_config (demo_tick 9) ?s False 116"
    "exchange demo_config demo_target (demo_tick 9) (?s, lost_target) (s1, t1)" "wf_source 200 s1"
    "got_data s1" "\<not> pending_resync s1" "last_session_update s1 = 0" "last_full_frame s1 = 0"
    "last_tick s1 = 9" "tick_counter s1 = 1" "target_supports_delta s1"
    using demo_tick_sends [OF wf_demo_state s(1-4) _ s(5) lost_target_ready] s(6)
    by (auto simp: demo_state_def)
  have l: "has_full_frame lost_target" "current_seq (tgt_proto lost_target) = None"
    by (simp_all add: lost_target_def target_start_def)
  have u: "use_delta demo_config s1" using 1(9,10) by (simp add: use_delta_def demo_config_def)
  have link: "link_ok demo_config demo_target (payload_room 9000)" "tc_capacity demo_target < 2 ^ 31"
    by (rule demo_link) simp
  have f: "facing demo_config demo_target (payload_room 9000) 116 ?s lost_target"
    using s(6,7) l lost_target_ready wf_demo_state [of True 0] by (simp add: facing_def meeting_def)
  obtain p where "built_frame demo_config (?s\<lparr>src_net := []\<rparr>) (demo_tick 9) = Some (p, False, 116)" "(116 :: u32) \<noteq> U32_MAX"
    using 1(1) by (auto simp: sends_partial_def)
  from exchange_partial [OF link f demo_tick_live 1(2) this]
  have r1: "ready demo_target t1" by (auto dest: linked_simps(2))
  obtain s3 t3 where 3: "sends_partial demo_config (demo_tick 10) s1 True (116 OR DELTA_BIT)"
    "exchange demo_config demo_target (demo_tick 10) (s1, t1) (s3, t3)"
  proof -
    have d: "last_tick s1 \<noteq> 10" "7 < sint (10 :: i32)" using 1(8) by simp_all
    show ?thesis by (rule demo_tick_sends [OF 1(3-7) d(2,1) r1]) (use u that in simp_all)
  qed
  have off: "wire_off (116 OR DELTA_BIT) = 116" "wire_off (116 :: u32) = 116"
    by (simp_all add: wire_off_def DELTA_BIT_def)
  have "wf_source (tc_capacity demo_target) ?s" by simp
  from keyframe_heals [OF link this s(7) lost_target_ready l(1) _ demo_tick_live 1(1,2) rtranclp.rtrancl_refl demo_tick_live 3]
  obtain m m' where m: "tgt_map t1 = Some m" "mirrored (demo_tick 9) 116 116 m" "tgt_map t3 = Some m'" "mirrored (demo_tick 10) 116 116 m'"
    using l(2) off by auto
  then have "m ! 0 = demo_map 9 116 ! 0" by (simp add: mirrored_def demo_tick_def)
  with m 1(2) 3(2) u show ?thesis by blast
qed

end
