(* ===== verification/Loss_Mask.thy ===== *)
theory Loss_Mask
  imports Healing
begin

text \<open>
  What a lost frame costs until the next keyframe. The target decodes a delta against the last frame
  it has, the source encoded it against the last frame it sent; the exclusive or of the two is a mask
  that no delta clears. Every frame until the keyframe shows the live map through that mask, the
  header at the start of the map included.
\<close>

text \<open>An exchange whose frame is a delta.\<close>

definition delta_exchange ::
  "source_config \<Rightarrow> target_config \<Rightarrow> nat \<Rightarrow> byte list list source_state \<times> 'a target_state \<Rightarrow>
   byte list list source_state \<times> 'a target_state \<Rightarrow> bool" where
  "delta_exchange cfg tcfg n x y \<longleftrightarrow> (\<exists>ev wire. live_env tcfg n ev \<and> sends_partial cfg ev (fst x) True wire \<and>
     exchange cfg tcfg ev x y)"

lemma delta_masked:
  fixes t t' :: "'a target_state"
  assumes "link_ok cfg tcfg ppd" "tc_capacity tcfg < 2 ^ 31" "meeting tcfg ppd s t" "live_env tcfg n ev"
    and "sends_partial cfg ev s True wire" "exchange cfg tcfg ev (s, t) (s', t')"
  shows "apart tcfg ppd n (ref_diff n (src_prev s) (tgt_prev t)) s' t' \<and> 112 \<le> n \<and> n \<le> tc_capacity tcfg \<and>
    (\<exists>m. tgt_map t' = Some m \<and> masked ev (wire_off wire) n (ref_diff n (src_prev s) (tgt_prev t)) m)"
proof -
  obtain p where b: "built_frame cfg (s\<lparr>src_net := []\<rparr>) ev = Some (p, True, wire)" "wire \<noteq> U32_MAX"
    using assms(5) by (auto simp: sends_partial_def)
  have "wf_source (tc_capacity tcfg) (s\<lparr>src_net := []\<rparr>)" using assms(3) by (simp add: meeting_def wf_source_def)
  from built_is_delta [OF this _ _ _ b] assms(1,2,4) have "use_delta cfg (s\<lparr>src_net := []\<rparr>)"
    by (simp add: live_env_def link_ok_def target_config_ok_def)
  then have "mask_of cfg n s t = ref_diff n (src_prev s) (tgt_prev t)" by (simp add: mask_of_def use_delta_def)
  with exchange_masked [OF assms(1-4,6) b] show ?thesis by simp
qed

lemma mask_run:
  assumes "(delta_exchange cfg tcfg n)\<^sup>*\<^sup>* x y" "link_ok cfg tcfg ppd" "tc_capacity tcfg < 2 ^ 31"
    and "meeting tcfg ppd (fst x) (snd x)"
  shows "meeting tcfg ppd (fst y) (snd y) \<and>
    ref_diff n (src_prev (fst y)) (tgt_prev (snd y)) = ref_diff n (src_prev (fst x)) (tgt_prev (snd x))"
  using assms(1)
proof induction
  case (step y z)
  then obtain ev wire where "live_env tcfg n ev" "sends_partial cfg ev (fst y) True wire"
    "exchange cfg tcfg ev (fst y, snd y) (fst z, snd z)"
    by (auto simp: delta_exchange_def)
  with delta_masked [OF assms(2,3) step.IH [THEN conjunct1]] step.IH show ?case by (auto simp: apart_def)
qed (use assms(4) in simp)

lemma xor_back_iff: "b XOR (c XOR c') = b \<longleftrightarrow> c = (c' :: byte)"
proof
  assume a: "b XOR (c XOR c') = b"
  have "c XOR c' = b XOR (b XOR (c XOR c'))" by (simp flip: xor.assoc)
  also have "\<dots> = 0" unfolding a by simp
  finally have z: "c XOR c' = 0" .
  have "c = (c XOR c') XOR c'" by (simp add: xor.assoc)
  then show "c = c'" unfolding z by simp
qed simp

text \<open>The bytes of a masked map that are live: those where the references were equal.\<close>

lemma masked_live_iff:
  assumes "masked ev off n (ref_diff n d e) m" "112 \<le> n" "n \<le> length d" "n \<le> length e"
  shows "i < 112 \<Longrightarrow> m ! i = ev_map ev Read_Head ! i \<longleftrightarrow> d ! i = e ! i"
    and "j < n - 112 \<Longrightarrow> 112 \<le> off + j \<Longrightarrow>
      m ! (off + j) = ev_map ev Read_Var ! (off + j) \<longleftrightarrow> d ! (112 + j) = e ! (112 + j)"
proof -
  have x: "b XOR (c XOR c') = b \<longleftrightarrow> c = c'" for b c c' :: byte by (rule xor_back_iff)
  have r: "ref_diff n d e ! k = d ! k XOR e ! k" if "k < n" for k
    using that assms(3,4) by (simp add: ref_diff_def)
  show "m ! i = ev_map ev Read_Head ! i \<longleftrightarrow> d ! i = e ! i" if "i < 112"
    using that assms(1,2) by (simp add: masked_def r x)
  show "m ! (off + j) = ev_map ev Read_Var ! (off + j) \<longleftrightarrow> d ! (112 + j) = e ! (112 + j)"
    if "j < n - 112" "112 \<le> off + j"
    using that assms(1) by (simp add: masked_def r x)
qed

text \<open>C11: A lost frame spoils every frame until the next keyframe. Take the source and the target in
  any states, whatever was lost between them, and let any number of deltas pass that all arrive.
  After one more, the target's map has the header and the variable buffer the source read, each byte
  exclusive-or the difference of the two references at the start, so a byte is the live one exactly
  when it was equal in the last frame sent and the last frame received; and the difference is still
  there for the delta after it.\<close>

theorem lost_frame_leaves_mask:
  assumes "link_ok cfg tcfg ppd" "tc_capacity tcfg < 2 ^ 31" "meeting tcfg ppd s t"
    and "(delta_exchange cfg tcfg n)\<^sup>*\<^sup>* (s, t) (s1, t1)"
    and "live_env tcfg n ev" "sends_partial cfg ev s1 True wire" "exchange cfg tcfg ev (s1, t1) (s2, t2)"
  shows "\<exists>m. tgt_map t2 = Some m \<and> masked ev (wire_off wire) n (ref_diff n (src_prev s) (tgt_prev t)) m \<and>
    (\<forall>i<112. m ! i = ev_map ev Read_Head ! i \<longleftrightarrow> src_prev s ! i = tgt_prev t ! i) \<and>
    ref_diff n (src_prev s2) (tgt_prev t2) = ref_diff n (src_prev s) (tgt_prev t)"
proof -
  from mask_run [OF assms(4,1,2)] assms(3)
  have m1: "meeting tcfg ppd s1 t1" "ref_diff n (src_prev s1) (tgt_prev t1) = ref_diff n (src_prev s) (tgt_prev t)"
    by simp_all
  from delta_masked [OF assms(1,2) m1(1) assms(5-7)] obtain m where m: "tgt_map t2 = Some m"
    "masked ev (wire_off wire) n (ref_diff n (src_prev s) (tgt_prev t)) m"
    "ref_diff n (src_prev s2) (tgt_prev t2) = ref_diff n (src_prev s) (tgt_prev t)" "112 \<le> n" "n \<le> tc_capacity tcfg"
    unfolding m1(2) by (auto simp: apart_def)
  have "\<forall>i<112. m ! i = ev_map ev Read_Head ! i \<longleftrightarrow> src_prev s ! i = tgt_prev t ! i"
    using masked_live_iff(1) [OF m(2,4)] meeting_refs [OF assms(3)] m(5) by simp
  with m(1-3) show ?thesis by blast
qed

theorem lost_frame_leaves_mask_witness:
  "\<exists>s1 t1 s2 t2 m. exchange demo_config demo_target (demo_tick 9) (demo_state True 1, lost_target) (s1, t1) \<and>
     exchange demo_config demo_target (demo_tick 10) (s1, t1) (s2, t2 :: nat target_state) \<and>
     tgt_map t2 = Some m \<and> m ! 0 \<noteq> ev_map (demo_tick 10) Read_Head ! 0 \<and>
     ref_diff 116 (src_prev s2) (tgt_prev t2) = replicate 116 7"
proof -
  let ?s = "demo_state True 1" let ?w = "116 OR DELTA_BIT :: u32"
  have s: "got_data ?s" "\<not> pending_resync ?s" "last_session_update ?s = 0" "last_full_frame ?s = 0" "last_tick ?s \<noteq> 9"
    "use_delta demo_config ?s" "payload_per_datagram (src_sender ?s) = payload_room 9000" "src_prev ?s = replicate 200 0"
    by (simp_all add: demo_state_def source_start_def use_delta_def demo_config_def wire_consts I32_NONE_def)
  obtain s1 t1 where 1: "sends_partial demo_config (demo_tick 9) ?s True ?w"
    "exchange demo_config demo_target (demo_tick 9) (?s, lost_target) (s1, t1)" "wf_source 200 s1"
    "got_data s1" "\<not> pending_resync s1" "last_session_update s1 = 0" "last_full_frame s1 = 0"
    "last_tick s1 = 9" "tick_counter s1 = 2" "target_supports_delta s1"
    using demo_tick_sends [OF wf_demo_state s(1-4) _ s(5) lost_target_ready] s(6)
    by (auto simp: demo_state_def)
  have l: "has_full_frame lost_target" "current_seq (tgt_proto lost_target) = None" "tgt_prev lost_target = replicate 200 7"
    by (simp_all add: lost_target_def target_start_def)
  have link: "link_ok demo_config demo_target (payload_room 9000)" "tc_capacity demo_target < 2 ^ 31"
    by (rule demo_link) simp
  have f: "meeting demo_target (payload_room 9000) ?s lost_target"
    using s(7) l lost_target_ready wf_demo_state [of True 1] by (simp add: meeting_def)
  have live: "live_env demo_target 116 (demo_tick 9)" "live_env demo_target 116 (demo_tick 10)"
    by (simp_all add: demo_tick_live)
  have r1: "ready demo_target t1"
    using delta_masked [OF link f live(1) 1(1,2)] by (simp add: apart_def meeting_def)
  have d: "last_tick s1 \<noteq> 10" "7 < sint (10 :: i32)" "use_delta demo_config s1"
    using 1(8-10) by (simp_all add: use_delta_def demo_config_def)
  obtain s2 t2 where 2: "sends_partial demo_config (demo_tick 10) s1 True ?w"
    "exchange demo_config demo_target (demo_tick 10) (s1, t1) (s2, t2)"
    by (rule demo_tick_sends [OF 1(3-7) d(2,1) r1]) (use d(3) that in simp_all)
  have "(delta_exchange demo_config demo_target 116)\<^sup>*\<^sup>* (?s, lost_target) (s1, t1)"
    by (rule r_into_rtranclp) (use live(1) 1(1,2) in \<open>auto simp: delta_exchange_def\<close>)
  from lost_frame_leaves_mask [OF link f this live(2) 2] obtain m where m: "tgt_map t2 = Some m"
    "\<forall>i<112. m ! i = ev_map (demo_tick 10) Read_Head ! i \<longleftrightarrow> src_prev ?s ! i = tgt_prev lost_target ! i"
    "ref_diff 116 (src_prev s2) (tgt_prev t2) = ref_diff 116 (src_prev ?s) (tgt_prev lost_target)" by blast
  have "m ! 0 \<noteq> ev_map (demo_tick 10) Read_Head ! 0" using m(2) by (simp add: s(8) l(3))
  moreover have "ref_diff 116 (src_prev ?s) (tgt_prev lost_target) = replicate 116 7"
    unfolding s(8) l(3) ref_diff_def by (rule nth_equalityI) simp_all
  ultimately show ?thesis using m(1,3) 1(2) 2(2) by metis
qed

end
