(* ===== verification/Target_Ibt.thy ===== *)
theory Target_Ibt
  imports Target_Demo
begin

text \<open>
  The target with its disk writer on: what a frame that has been written to the map does to the
  open \<open>.ibt\<close> file.
\<close>

lemma after_write_row:
  assumes "after_write ev w c n s = Inr (acts, s')" "tgt_ibt s = Some x" "tgt_map s = Some m"
  shows "\<exists>x'. on_map_update m (te_ibt ev) x = Inr x' \<and> tgt_ibt s' = Some x'"
proof -
  let ?s1 = "(note_written ev w c n s)\<lparr>last_update := te_clock ev On_Written\<rparr>"
  obtain line st where line: "maybe_print (te_clock ev On_Window) (te_clock ev On_Printed) (tgt_stats ?s1) = Inr (line, st)"
    using maybe_print_returns [of "te_clock ev On_Window" "te_clock ev On_Printed" "tgt_stats ?s1"] by fastforce
  with assms show ?thesis by (auto simp: after_write_def Let_def rbind_eq_Inr)
qed

lemma after_write_row_returns:
  assumes "tgt_ibt s = Some x" "tgt_map s = Some m" "on_map_update m (te_ibt ev) x = Inr x'"
  shows "returns (after_write ev w c n s)"
proof -
  let ?s1 = "(note_written ev w c n s)\<lparr>last_update := te_clock ev On_Written\<rparr>"
  obtain line st where "maybe_print (te_clock ev On_Window) (te_clock ev On_Printed) (tgt_stats ?s1) = Inr (line, st)"
    using maybe_print_returns [of "te_clock ev On_Window" "te_clock ev On_Printed" "tgt_stats ?s1"] by fastforce
  with assms show ?thesis by (simp add: after_write_def Let_def)
qed

lemma session_step_returns:
  assumes "target_config_ok cfg" "wf_target cfg s" "incoming ev s U32_MAX c" "opened ev s"
    and "tc_decompress cfg c (tgt_staging s) = (Some n, st)" "8 \<le> n"
    and "tgt_ibt s = Some x" "on_map_update (last (session_snapshots st n (the_map cfg ev s))) (te_ibt ev) x = Inr x'"
  obtains exit acts s' where "target_step cfg s ev = Inr ((exit, acts), s')"
    "tgt_map s' = Some (last (session_snapshots st n (the_map cfg ev s)))"
proof -
  obtain src opens proto where st: "target_step cfg s ev =
      rbind (deliver cfg ev U32_MAX c (received_state ev src opens proto s)) (\<lambda>r. Inr (asked ev r))"
    using incoming_step [OF assms(2,3)] by metis
  let ?s = "received_state ev src opens proto s"
  let ?f = "session_state ev cfg st n (the_map cfg ev s) (?s\<lparr>tgt_map := Some (the_map cfg ev s)\<rparr>)"
  have o: "opened ev ?s" "wanted U32_MAX ?s" using assms(4) by (simp_all add: opened_def wanted_def)
  have "returns (after_write ev U32_MAX c n ?f)" by (rule after_write_row_returns [OF _ _ assms(8)]) (simp_all add: assms(7))
  then obtain tail s2 where a: "after_write ev U32_MAX c n ?f = Inr (tail, s2)" by force
  note d = deliver_wrote [OF o session_writes [OF assms(1,2,5,6)]]
  have "returns (target_step cfg s ev)" unfolding st d a rbind_simps prod.case by (rule exI, rule refl)
  then obtain out where "target_step cfg s ev = Inr out" by blast
  then obtain exit acts s' where r: "target_step cfg s ev = Inr ((exit, acts), s')"
    by (cases out) fast
  obtain src opens proto where "same_frame_state (session_state ev cfg st n (the_map cfg ev s)
       ((received_state ev src opens proto s)\<lparr>tgt_map := Some (the_map cfg ev s)\<rparr>)) s'"
    by (rule session_incoming [OF assms(1-6) r]) blast
  then show ?thesis using that r by (simp add: same_frame_state_def)
qed

text \<open>C26: With the disk writer on, a session-info frame whose header shows a newer tick is not a no-op:
  it appends a row, and the row is not the data of that tick but what the map held at the active
  buffer's offset before the frame, left there by an earlier one. The partial frame that later
  brings the data of the same tick appends nothing.\<close>

theorem session_info_writes_stale_row:
  assumes "target_config_ok cfg" "wf_target cfg s" "incoming ev s U32_MAX c" "opened ev s"
    and "tc_decompress cfg c (tgt_staging s) = (Some len, st)" "8 \<le> len"
    and "target_step cfg s ev = Inr ((exit, acts), s')" "tgt_map s' = Some m'"
    and "tgt_ibt s = Some w" "session_open u n bs t k w" "sample_map u n m'" "io_row (te_ibt ev) = None"
    and "active_sample m' = (tick, off)" "tick \<noteq> t" "len \<le> off"
  shows "\<exists>w'. tgt_ibt s' = Some w' \<and>
    session_open u n (bs @ take n (drop off (the_map cfg ev s))) tick (k + 1) w' \<and>
    (\<forall>m'' io. sample_map u n m'' \<and> fst (active_sample m'') = tick \<and> io_row io = None \<longrightarrow>
      (\<exists>w''. on_map_update m'' io w' = Inr w'' \<and>
        session_open u n (bs @ take n (drop off (the_map cfg ev s))) tick (k + 1) w''))"
proof -
  let ?m = "the_map cfg ev s" let ?cap = "tc_capacity cfg"
  let ?f = "\<lambda>src opens proto. session_state ev cfg st len ?m ((received_state ev src opens proto s)\<lparr>tgt_map := Some ?m\<rparr>)"
  obtain src opens proto tail where a: "same_frame_state (?f src opens proto) s'"
    "after_write ev U32_MAX c len (?f src opens proto) = Inr (tail, s')"
    by (rule session_incoming [OF assms(1-7)]) blast
  have ok: "decoder_ok (tc_decompress cfg)" using assms(1) by (simp add: target_config_ok_def)
  have lm: "length ?m = ?cap" using assms(2) by (rule length_the_map)
  have lst: "length st = ?cap" "len \<le> ?cap"
    using decoder_okD [OF ok assms(5)] assms(2) by (simp_all add: wf_target_def)
  have m': "m' = last (session_snapshots st len ?m)"
    using a(1) assms(8) by (simp add: same_frame_state_def)
  have old: "drop off m' = drop off ?m"
  proof (rule nth_equalityI)
    have l: "length m' = ?cap" and same: "\<forall>i<?cap. len \<le> i \<longrightarrow> m' ! i = ?m ! i"
      using session_maps [OF lm lst(1) assms(6) lst(2)] assms(6) unfolding m' session_snapshots_def by auto
    show "length (drop off m') = length (drop off ?m)" using l lm by simp
    show "drop off m' ! i = drop off ?m ! i" if "i < length (drop off m')" for i
      using that l lm same assms(15) by simp
  qed
  have "tgt_ibt (?f src opens proto) = Some w" "tgt_map (?f src opens proto) = Some m'"
    using assms(9) m' by simp_all
  from after_write_row [OF a(2) this] obtain w' where w': "on_map_update m' (te_ibt ev) w = Inr w'" "tgt_ibt s' = Some w'"
    by blast
  have s': "session_open u n (bs @ take n (drop off ?m)) tick (k + 1) w'"
    using session_continues [OF assms(10-12)] w'(1) assms(13,14) old by simp
  have "\<exists>w''. on_map_update m'' io w' = Inr w'' \<and> session_open u n (bs @ take n (drop off ?m)) tick (k + 1) w''"
    if m'': "sample_map u n m''" "fst (active_sample m'') = tick" "io_row io = None" for m'' io
    using session_continues [OF s' m''(1,3)] m''(2) by (cases "active_sample m''") simp
  with w'(2) s' show ?thesis by blast
qed

text \<open>The small session of two-byte rows: the map holds tick 5, the session-info frame shows tick 6.\<close>

definition ibt_target :: target_config where
  "ibt_target = demo_target\<lparr>tc_capacity := 259, tc_proto_size := 300\<rparr>"

definition ibt_prefix :: "byte list" where
  "ibt_prefix = take 4 (demo_ibt 6 []) @ [0, 0, 0, 0] @ drop 8 (demo_ibt 6 [])"

lemma ibt_target_ok: "target_config_ok ibt_target"
  by (simp add: ibt_target_def target_config_ok_def demo_target_def copy_decoder_ok)

lemma length_ibt_prefix: "length ibt_prefix = 257"
  by (simp add: ibt_prefix_def demo_ibt_fields)

lemma session_over_demo:
  "last (session_snapshots (blit 0 ibt_prefix (replicate 259 0)) 257 (demo_ibt 5 [1, 2])) = demo_ibt 6 [1, 2]"
  by (simp add: session_snapshots_def session_map1_def session_map2_def ibt_prefix_def demo_ibt_def
      put_fields_def blit_def)

theorem session_info_writes_stale_row_witness:
  "\<exists>w s w' bs. on_map_update (demo_ibt 5 [1, 2]) demo_io ibt_new = Inr w \<and>
     session_open 0 2 bs 5 1 w \<and> tgt_map s = Some (demo_ibt 6 [1, 2]) \<and>
     tgt_ibt (s :: nat target_state) = Some w' \<and> session_open 0 2 (bs @ [1, 2]) 6 2 w'"
proof -
  let ?d = "demo_ibt 5 [1, 2]" and ?e = "demo_ibt 6 [1, 2]"
  have d: "sample_map 0 2 ?d" "sample_map 0 2 ?e" "active_sample ?d = (5, 257)" "active_sample ?e = (6, 257)"
    by (simp_all add: demo_ibt_ok)
  have "lay_buf_len (layout_of ?d) = 2" by (simp add: demo_ibt_layout)
  from session_starts [OF d(1) demo_io_fine this] obtain w bs where
    w: "on_map_update ?d demo_io ibt_new = Inr w" "session_open 0 2 bs 5 1 w"
    using d(3) by (auto simp: I32_MIN_def)
  let ?ev = "demo_recv (Datagram (demo_datagram 1 ibt_prefix U32_MAX) 7) 0"
  let ?s = "(target_start ibt_target True 0)\<lparr>tgt_map := Some ?d, tgt_ibt := Some w\<rparr> :: nat target_state"
  have st: "tgt_staging ?s = replicate 259 0" "current_seq (tgt_proto ?s) = None" "the_map ibt_target ?ev ?s = ?d"
    by (simp_all add: target_start_def ibt_target_def the_map_def)
  have "wf_target ibt_target (target_start ibt_target True 0 :: nat target_state)" by simp
  then have wf: "wf_target ibt_target ?s" by (simp add: wf_target_def ibt_target_def demo_ibt_fields)
  have inc: "incoming ?ev ?s U32_MAX ibt_prefix"
    by (rule single_incoming [OF wf]) (use st length_ibt_prefix in \<open>auto simp: ibt_target_def\<close>)
  have op: "opened ?ev ?s" by (simp add: opened_def)
  have dec: "tc_decompress ibt_target ibt_prefix (tgt_staging ?s) = (Some 257, blit 0 ibt_prefix (replicate 259 0))"
    unfolding st(1) by (simp add: ibt_target_def copy_decoder_def length_ibt_prefix)
  have row: "io_row (te_ibt ?ev) = None" by (simp add: demo_io_def)
  obtain x' where x': "on_map_update ?e (te_ibt ?ev) w = Inr x'" using session_continues [OF w(2) d(2) row] by blast
  have "on_map_update (last (session_snapshots (blit 0 ibt_prefix (replicate 259 0)) 257 (the_map ibt_target ?ev ?s))) (te_ibt ?ev) w = Inr x'"
    unfolding st(3) session_over_demo by (rule x')
  from session_step_returns [OF ibt_target_ok wf inc op dec _ _ this] obtain exit acts s' where
    s': "target_step ibt_target ?s ?ev = Inr ((exit, acts), s')" "tgt_map s' = Some ?e"
    unfolding st(3) session_over_demo by auto
  have "tgt_ibt ?s = Some w" by simp
  have n: "(8 :: nat) \<le> 257" "(6 :: i32) \<noteq> 5" "(257 :: nat) \<le> 257" by simp_all
  from session_info_writes_stale_row [OF ibt_target_ok wf inc op dec n(1) s' \<open>tgt_ibt ?s = Some w\<close> w(2) d(2) row d(4) n(2,3)]
  obtain w' where w': "tgt_ibt s' = Some w'" "session_open 0 2 (bs @ take 2 (drop 257 ?d)) 6 2 w'"
    unfolding st(3) one_add_one by blast
  then have "session_open 0 2 (bs @ [1, 2]) 6 2 w'" by (simp add: demo_ibt_row)
  with w s' w'(1) show ?thesis by blast
qed

end
