(* ===== verification/Target_Safety.thy ===== *)
theory Target_Safety
  imports Target_Demo
begin

text \<open>
  Panics of the target with its disk writer on. The loop itself has none; what is left is the
  writer, and only on a map that is too large or whose header has a negative field.
\<close>

definition writer_ok :: "'a target_state \<Rightarrow> bool" where
  "writer_ok s \<longleftrightarrow> (\<forall>w. tgt_ibt s = Some w \<longrightarrow> wf_ibt w)"

text \<open>The map that an iteration hands to the writer.\<close>

definition handed :: "target_config \<Rightarrow> 'a target_env \<Rightarrow> 'a target_state \<Rightarrow> byte list \<Rightarrow> bool" where
  "handed cfg ev s m \<longleftrightarrow> (\<exists>w c src opens proto n acts s1. incoming ev s w c \<and>
     write_frame cfg ev w c (received_state ev src opens proto s) = Inr (Some (n, acts), s1) \<and> tgt_map s1 = Some m)"

lemma writer_ok_simps [simp]:
  "writer_ok (received_state ev src opens proto s) = writer_ok s"
  "writer_ok (s\<lparr>tgt_map := mm\<rparr>) = writer_ok s" "writer_ok (s\<lparr>last_update := t\<rparr>) = writer_ok s"
  "writer_ok (snd (asked ev r)) = writer_ok (snd r)"
  by (simp_all add: writer_ok_def)

lemma wf_ibt_finish [simp]: "wf_ibt (finish io w)"
  by (simp add: wf_ibt_def)

lemma writer_ok_leave [simp]: "writer_ok (snd (leave ev s))"
  by (auto simp: writer_ok_def leave_def)

lemma writer_ok_stale: "writer_ok s \<Longrightarrow> writer_ok (snd (stale_step cfg ev s))"
  by (auto simp: writer_ok_def stale_step_def split: option.split)

lemma after_write_safe:
  assumes "writer_ok s" "\<And>m. tgt_map s = Some m \<Longrightarrow> map_ok m"
  shows "\<exists>acts s'. after_write ev w c n s = Inr (acts, s') \<and> writer_ok s'"
proof -
  let ?s1 = "(note_written ev w c n s)\<lparr>last_update := te_clock ev On_Written\<rparr>"
  obtain line st where line: "maybe_print (te_clock ev On_Window) (te_clock ev On_Printed) (tgt_stats ?s1) = Inr (line, st)"
    using maybe_print_returns [of "te_clock ev On_Window" "te_clock ev On_Printed" "tgt_stats ?s1"] by fastforce
  show ?thesis
  proof (cases "tgt_ibt s = None \<or> tgt_map s = None")
    case True
    with assms(1) line show ?thesis by (auto simp: after_write_def Let_def writer_ok_def split: option.split)
  next
    case False
    then obtain x m where x: "tgt_ibt s = Some x" "tgt_map s = Some m" by auto
    obtain x' where "on_map_update m (te_ibt ev) x = Inr x'" "wf_ibt x'"
      using on_map_update_returns [of x m "te_ibt ev"] assms x by (auto simp: writer_ok_def)
    with x line show ?thesis by (simp add: after_write_def Let_def writer_ok_def)
  qed
qed

lemma deliver_safe:
  assumes "target_config_ok cfg" "wf_target cfg s" "writer_ok s"
    and "\<And>n acts s1 m. write_frame cfg ev w c s = Inr (Some (n, acts), s1) \<Longrightarrow> tgt_map s1 = Some m \<Longrightarrow> map_ok m"
  shows "\<exists>out s'. deliver cfg ev w c s = Inr (out, s') \<and> writer_ok s'"
proof (cases "opened ev s \<and> wanted w s")
  case True
  obtain wrote s1 where wr: "write_frame cfg ev w c s = Inr (wrote, s1)" "tgt_ibt s1 = tgt_ibt s"
    using write_frame_wf [OF assms(1,2)] by blast
  then have w1: "writer_ok s1" using assms(3) by (simp add: writer_ok_def)
  show ?thesis
  proof (cases wrote)
    case None
    with wr(1) True have "deliver cfg ev w c s = Inr ((Continues, False, created cfg ev s), s1)" by (simp add: deliver_dropped)
    with w1 show ?thesis by blast
  next
    case (Some x)
    obtain n acts where x: "wrote = Some (n, acts)" using Some by (cases x) simp
    obtain acts' s2 where "after_write ev w c n s1 = Inr (acts', s2)" "writer_ok s2"
      using after_write_safe [OF w1] assms(4) wr(1) x by blast
    with wr(1) True x have "deliver cfg ev w c s = Inr ((Continues, True, created cfg ev s @ acts @ acts'), s2)"
      by (simp add: deliver_wrote)
    with \<open>writer_ok s2\<close> show ?thesis by blast
  qed
next
  case False
  moreover have "writer_ok (s\<lparr>tgt_map := Some (the_map cfg ev s)\<rparr>)" using assms(3) by simp
  ultimately show ?thesis using deliver_refused deliver_ignored writer_ok_leave by metis
qed

lemma target_step_safe:
  assumes "target_config_ok cfg" "wf_target cfg s" "writer_ok s" "\<And>m. handed cfg ev s m \<Longrightarrow> map_ok m"
  shows "\<exists>out s'. target_step cfg s ev = Inr (out, s') \<and> wf_target cfg s' \<and> writer_ok s'"
proof -
  have "\<exists>out s'. target_step cfg s ev = Inr (out, s') \<and> writer_ok s'"
  proof (cases "te_shutdown ev \<or> te_recv ev = Recv_Error")
    case True
    then show ?thesis using writer_ok_leave [of ev s]
      by (cases "leave ev s") (auto simp: target_step_def)
  next
    case go: False
    show ?thesis
    proof (cases "te_recv ev")
      case (Datagram dg src)
      obtain res proto where st: "ingest (tgt_proto s) (take MAX_DATAGRAM_SIZE dg) = Inr (res, proto)"
        "\<And>opens. wf_target cfg (received_state ev src opens proto s)"
        "receive_step cfg ev dg src s =
           rbind (taken cfg ev res (received_state ev src (new_seq res \<and> \<not> heartbeat res) proto s)) (\<lambda>r. Inr (asked ev r))"
        by (rule received_wf [OF assms(2)]) blast
      let ?s = "received_state ev src (new_seq res \<and> \<not> heartbeat res) proto s"
      have w: "writer_ok ?s" using assms(3) by simp
      have "\<exists>r. taken cfg ev res ?s = Inr r \<and> writer_ok (snd r)"
      proof (cases "heartbeat res \<or> assembled res = None")
        case True
        with w show ?thesis by (auto simp: taken_def)
      next
        case False
        then obtain c where c: "assembled res = Some c" "\<not> heartbeat res" by auto
        then have i: "incoming ev s (ing_buf_offset res) c"
          using go Datagram st(1) by (simp add: incoming_def)
        have "map_ok m" if "write_frame cfg ev (ing_buf_offset res) c ?s = Inr (Some (n, acts), s1)" "tgt_map s1 = Some m"
          for n acts s1 m
          using assms(4) i that unfolding handed_def by blast
        from deliver_safe [OF assms(1) st(2) w this] c show ?thesis by (auto simp: taken_def)
      qed
      then obtain r where "taken cfg ev res ?s = Inr r" "writer_ok (snd r)" by blast
      then show ?thesis using go Datagram st(3)
        by (cases "asked ev r") (use writer_ok_simps(4) [of ev r] in \<open>auto simp: target_step_def\<close>)
    next
      case No_Data
      then show ?thesis using go writer_ok_stale [OF assms(3), of cfg ev]
        by (cases "stale_step cfg ev s") (simp add: target_step_def)
    qed (use go in simp)
  qed
  then show ?thesis using target_step_wf [OF assms(1,2)] by blast
qed

lemma run_until_wf:
  assumes "target_config_ok cfg" "wf_target cfg s" "target_run cfg s evs = Inr (outs, s')"
  shows "wf_target cfg s'"
  using assms(2,3)
proof (induction evs arbitrary: s outs)
  case (Cons ev evs)
  obtain out s1 where s1: "target_step cfg s ev = Inr (out, s1)"
    using Cons.prems(2) by (auto simp: target_run_def rbind_eq_Inr)
  then have r: "(if fst out \<noteq> Continues then Inr ([out], s1)
      else rbind (target_run cfg s1 evs) (\<lambda>(os, s2). Inr (out # os, s2))) = Inr (outs, s')"
    using Cons.prems(2) by (simp add: target_run_def split: if_splits)
  have "wf_target cfg s1" using target_step_wf [OF assms(1) Cons.prems(1) s1] by simp
  then show ?case using r Cons.IH by (auto simp: rbind_eq_Inr split: if_splits)
qed (simp add: target_run_def)

lemma target_run_safe:
  assumes "target_config_ok cfg" "wf_target cfg s" "writer_ok s"
  shows "case target_run cfg s evs of
      Inr (outs, s') \<Rightarrow> wf_target cfg s'
    | Inl p \<Rightarrow> (\<exists>evs1 ev evs2 outs s1 m. evs = evs1 @ ev # evs2 \<and> target_run cfg s evs1 = Inr (outs, s1) \<and>
        handed cfg ev s1 m \<and> \<not> map_ok m)"
  using assms(2,3)
proof (induction evs arbitrary: s)
  case Nil
  then show ?case by (simp add: target_run_def)
next
  case (Cons ev evs)
  show ?case
  proof (cases "\<forall>m. handed cfg ev s m \<longrightarrow> map_ok m")
    case True
    then obtain out s1 where s1: "target_step cfg s ev = Inr (out, s1)" "wf_target cfg s1" "writer_ok s1"
      using target_step_safe [OF assms(1) Cons.prems] by blast
    have step: "target_run cfg s (ev # es) = (if fst out \<noteq> Continues then Inr ([out], s1)
        else rbind (target_run cfg s1 es) (\<lambda>(os, s2). Inr (out # os, s2)))" for es
      using s1(1) by (simp add: target_run_def)
    show ?thesis
    proof (cases "fst out = Continues \<and> (\<exists>p. target_run cfg s1 evs = Inl p)")
      case True
      then obtain evs1 ev' evs2 outs s2 m where "evs = evs1 @ ev' # evs2" "target_run cfg s1 evs1 = Inr (outs, s2)"
        "handed cfg ev' s2 m" "\<not> map_ok m"
        using Cons.IH [OF s1(2,3)] by (auto split: sum.splits)
      then have "ev # evs = (ev # evs1) @ ev' # evs2" "target_run cfg s (ev # evs1) = Inr (out # outs, s2)"
        "handed cfg ev' s2 m" "\<not> map_ok m" using step True by simp_all
      moreover obtain p where "target_run cfg s (ev # evs) = Inl p" using step True by auto
      ultimately show ?thesis by (simp only: sum.case) blast
    next
      case False
      then show ?thesis using Cons.IH [OF s1(2,3)] s1(2) step by (auto split: sum.splits)
    qed
  next
    case False
    then obtain m where m: "handed cfg ev s m" "\<not> map_ok m" by blast
    have here: "ev # evs = [] @ ev # evs" "target_run cfg s [] = Inr ([], s)" by (simp_all add: target_run_def)
    show ?thesis
    proof (cases "target_run cfg s (ev # evs)")
      case (Inl p)
      then show ?thesis using m here by (simp only: sum.case) blast
    next
      case (Inr x)
      obtain outs s' where x: "x = (outs, s')" by (cases x)
      have "wf_target cfg s'"
        using run_until_wf [OF assms(1) Cons.prems(1)] Inr x by blast
      then show ?thesis using Inr x by simp
    qed
  qed
qed

text \<open>C13: No input makes the target's loop panic but through its disk writer: with the writer off, no
  sequence of datagrams, clocks and operating-system answers takes a slice out of range, and every
  buffer and the map keep their size. With the writer on, a run that panics has handed the writer
  a map that is not sane: larger than the program's, or with a negative field or offset.\<close>

theorem target_panics_only_in_writer:
  assumes "target_config_ok cfg"
  shows "case target_run cfg (target_start cfg write_ibt now) evs of
      Inr (outs, s') \<Rightarrow> length (tgt_prev s') = tc_capacity cfg \<and> length (tgt_staging s') = tc_capacity cfg \<and>
        (\<forall>m. tgt_map s' = Some m \<longrightarrow> length m = tc_capacity cfg)
    | Inl p \<Rightarrow> write_ibt \<and> (\<exists>evs1 ev evs2 outs s m. evs = evs1 @ ev # evs2 \<and>
        target_run cfg (target_start cfg write_ibt now) evs1 = Inr (outs, s) \<and> handed cfg ev s m \<and> \<not> map_ok m)"
proof -
  let ?s = "target_start cfg write_ibt now"
  have "writer_ok ?s" by (simp add: writer_ok_def target_start_def wf_ibt_def ibt_new_def)
  note safe = target_run_safe [OF assms wf_target_start this, of evs]
  have "write_ibt" if "target_run cfg ?s evs = Inl p" for p
  proof (rule ccontr)
    assume "\<not> write_ibt"
    then have "tgt_ibt ?s = None" by (simp add: target_start_def)
    then have "target_config_ok cfg \<and> wf_target cfg ?s \<and> tgt_ibt ?s = None" using assms by simp
    then have "\<exists>outs s'. target_run cfg ?s evs = Inr (outs, s') \<and> target_config_ok cfg \<and> wf_target cfg s' \<and> tgt_ibt s' = None"
      unfolding target_run_def by (rule tgt.run_until_returns) (simp add: list_all_iff)
    with that show False by auto
  qed
  with safe show ?thesis by (auto simp: wf_target_def split: sum.splits)
qed

theorem target_panics_only_in_writer_witness:
  "(\<exists>outs s'. target_run demo_target demo_start [demo_session, demo_recv No_Data 20000000] = Inr (outs, s') \<and>
      length (tgt_prev s') = 200) \<and>
   (\<exists>outs s'. target_run demo_target (target_start demo_target True 0) [demo_recv No_Data 20000000] = Inr (outs, s') \<and>
      length (tgt_staging (s' :: nat target_state)) = 200)"
proof -
  let ?e = "demo_recv No_Data 20000000"
  have "\<not> handed demo_target ?e s m" for s m by (simp add: handed_def incoming_def)
  moreover have "[?e] = evs1 @ ev # evs2 \<Longrightarrow> ev = ?e" for evs1 ev evs2 by (cases evs1) simp_all
  ultimately show ?thesis
    using target_panics_only_in_writer [OF demo_target_ok, where write_ibt = False and now = 0 and evs = "[demo_session, ?e]"]
      target_panics_only_in_writer [OF demo_target_ok, where write_ibt = True and now = 0 and evs = "[?e]"]
    by (auto split: sum.splits)
qed

end
