(* ===== verification/Addresses.thy ===== *)
theory Addresses
  imports Rust_Prelude
begin

text \<open>
  The textual socket addresses of the options: what \<open>str::parse\<close> of the standard library accepts
  as an \<open>Ipv4Addr\<close> or a \<open>SocketAddr\<close>, and the decimal formatting that the defaults use. The
  bracketed IPv6 form is a parameter: the sockets of the program are IPv4 sockets.
\<close>

type_synonym ip4 = "byte list"

datatype sock_addr = V4 ip4 u16 | V6 "u16 list" u16

type_synonym v6_parser = "string \<Rightarrow> (u16 list \<times> u16) option"

definition digit :: "char \<Rightarrow> nat" where
  "digit c = of_char c - 48"

definition is_digit :: "char \<Rightarrow> bool" where
  "is_digit c \<longleftrightarrow> (let n = of_char c :: nat in 48 \<le> n \<and> n \<le> 57)"

definition value_of :: "string \<Rightarrow> nat" where
  "value_of ds = foldl (\<lambda>a c. 10 * a + digit c) 0 ds"

text \<open>The greedy number parser: at most \<open>k\<close> digits if a limit is given, a value below the bound,
  and no leading zero unless allowed.\<close>

definition read_number :: "nat option \<Rightarrow> bool \<Rightarrow> nat \<Rightarrow> string \<Rightarrow> (nat \<times> string) option" where
  "read_number max_digits allow_zero_prefix bound s =
     (let ds = takeWhile is_digit s; v = value_of ds in
      if ds = [] \<or> (case max_digits of Some k \<Rightarrow> k < length ds | None \<Rightarrow> False) \<or> bound \<le> v \<or>
         (\<not> allow_zero_prefix \<and> hd ds = CHR ''0'' \<and> 1 < length ds)
      then None else Some (v, dropWhile is_digit s))"

fun read_char :: "char \<Rightarrow> string \<Rightarrow> string option" where
  "read_char c [] = None"
| "read_char c (x # xs) = (if x = c then Some xs else None)"

definition read_octet :: "string \<Rightarrow> (byte \<times> string) option" where
  "read_octet s = map_option (\<lambda>(v, r). (of_nat v, r)) (read_number (Some 3) False 256 s)"

definition read_dotted :: "string \<Rightarrow> (byte \<times> string) option" where
  "read_dotted s = Option.bind (read_char (CHR ''.'') s) read_octet"

definition read_ipv4 :: "string \<Rightarrow> (ip4 \<times> string) option" where
  "read_ipv4 s = Option.bind (read_octet s) (\<lambda>(a, s1). Option.bind (read_dotted s1) (\<lambda>(b, s2).
     Option.bind (read_dotted s2) (\<lambda>(c, s3). Option.bind (read_dotted s3) (\<lambda>(d, s4). Some ([a, b, c, d], s4)))))"

definition parse_ipv4 :: "string \<Rightarrow> ip4 option" where
  "parse_ipv4 s = (case read_ipv4 s of Some (ip, []) \<Rightarrow> Some ip | _ \<Rightarrow> None)"

definition parse_addr :: "v6_parser \<Rightarrow> string \<Rightarrow> sock_addr option" where
  "parse_addr v6 s =
     (case Option.bind (read_ipv4 s) (\<lambda>(ip, s1). Option.bind (read_char (CHR '':'') s1) (\<lambda>s2.
             map_option (\<lambda>(p, r). (ip, p, r)) (read_number None True 65536 s2))) of
        Some (ip, p, []) \<Rightarrow> Some (V4 ip (of_nat p))
      | _ \<Rightarrow> map_option (\<lambda>(ip, p). V6 ip p) (v6 s))"

section \<open>Formatting\<close>

fun decimal :: "nat \<Rightarrow> string" where
  "decimal n = (if n < 10 then [char_of (48 + n)] else decimal (n div 10) @ [char_of (48 + n mod 10)])"

declare decimal.simps [simp del]

definition show_ipv4 :: "ip4 \<Rightarrow> string" where
  "show_ipv4 ip = decimal (unat (ip ! 0)) @ ''.'' @ decimal (unat (ip ! 1)) @ ''.'' @
     decimal (unat (ip ! 2)) @ ''.'' @ decimal (unat (ip ! 3))"

definition show_addr :: "string \<Rightarrow> u16 \<Rightarrow> string" where
  "show_addr host port = host @ '':'' @ decimal (unat port)"

lemma of_char_digit: "n < 10 \<Longrightarrow> (of_char (char_of (48 + n)) :: nat) = 48 + n"
  by simp

lemma digit_char [simp]: "n < 10 \<Longrightarrow> is_digit (char_of (48 + n)) \<and> digit (char_of (48 + n)) = n"
  unfolding is_digit_def digit_def Let_def by (subst of_char_digit; simp)+

lemma value_of_append: "value_of (xs @ [c]) = 10 * value_of xs + digit c"
  by (simp add: value_of_def)

lemma decimal_digits: "\<forall>c \<in> set (decimal n). is_digit c"
  by (induction n rule: decimal.induct) (subst decimal.simps, auto)

lemma decimal_value: "value_of (decimal n) = n"
proof (induction n rule: decimal.induct)
  case (1 n)
  show ?case
  proof (cases "n < 10")
    case True
    then show ?thesis by (subst decimal.simps) (simp add: value_of_def)
  next
    case False
    then show ?thesis using 1 by (subst decimal.simps) (simp add: value_of_append)
  qed
qed

lemma decimal_not_Nil [simp]: "decimal n \<noteq> []"
  by (subst decimal.simps) simp

lemma decimal_hd: "10 \<le> n \<Longrightarrow> hd (decimal n) \<noteq> CHR ''0''"
proof (induction n rule: decimal.induct)
  case (1 n)
  show ?case
  proof (cases "n div 10 < 10")
    case True
    have "0 < n div 10" using 1(2) by simp
    with True have "digit (char_of (48 + n div 10)) \<noteq> 0" by simp
    moreover have "digit (CHR ''0'') = 0" by (simp add: digit_def)
    ultimately have "char_of (48 + n div 10) \<noteq> CHR ''0''" by metis
    then show ?thesis using 1(2) True by (subst decimal.simps, subst decimal.simps) simp
  next
    case False
    with 1 show ?thesis by (subst decimal.simps) simp
  qed
qed

lemma decimal_length: "n < 10 ^ Suc k \<Longrightarrow> length (decimal n) \<le> Suc k"
proof (induction k arbitrary: n)
  case 0
  then show ?case by (subst decimal.simps) simp
next
  case (Suc k)
  show ?case
  proof (cases "n < 10")
    case False
    have "n div 10 < 10 ^ Suc k" using Suc.prems by (simp add: less_mult_imp_div_less)
    from Suc.IH [OF this] False show ?thesis by (subst decimal.simps) simp
  qed (subst decimal.simps, simp)
qed

text \<open>What follows a number ends it.\<close>

definition ends :: "string \<Rightarrow> bool" where
  "ends r \<longleftrightarrow> r = [] \<or> \<not> is_digit (hd r)"

lemma read_decimal:
  assumes "ends r" "n < bound" "case k of Some m \<Rightarrow> n < 10 ^ m \<and> 0 < m | None \<Rightarrow> True"
  shows "read_number k z bound (decimal n @ r) = Some (n, r)"
proof -
  have t: "takeWhile is_digit (decimal n @ r) = decimal n" "dropWhile is_digit (decimal n @ r) = r"
    using decimal_digits [of n] assms(1)
    by (cases r; simp add: ends_def takeWhile_append dropWhile_append)+
  have "length (decimal n) \<le> m" if "k = Some m" for m
    using decimal_length [of n "m - 1"] assms(3) that by (cases m) simp_all
  moreover have "n < 10 \<or> hd (decimal n) \<noteq> CHR ''0''" using decimal_hd [of n] by linarith
  moreover have "n < 10 \<Longrightarrow> length (decimal n) = 1" by (subst decimal.simps) simp
  ultimately show ?thesis using assms(2) decimal_value [of n]
    by (auto simp: read_number_def t Let_def split: option.splits)
qed

lemma read_octet_decimal: "ends r \<Longrightarrow> read_octet (decimal (unat (b :: byte)) @ r) = Some (b, r)"
  using unsigned_less [of b, where 'a = nat] by (simp add: read_octet_def read_decimal)

lemma ends_simps [simp]: "ends []" "ends (CHR ''.'' # s)" "ends (CHR '':'' # s)"
  by (simp_all add: ends_def is_digit_def)

lemma read_show_ipv4:
  assumes "ends r"
  shows "read_ipv4 (show_ipv4 [a, b, c, d] @ r) = Some ([a, b, c, d], r)"
  using assms by (simp add: read_ipv4_def show_ipv4_def read_dotted_def read_octet_decimal)

lemma parse_show_ipv4: "parse_ipv4 (show_ipv4 [a, b, c, d]) = Some [a, b, c, d]"
  using read_show_ipv4 [of "[]"] by (simp add: parse_ipv4_def)

lemma parse_show_addr: "parse_addr v6 (show_addr (show_ipv4 [a, b, c, d]) p) = Some (V4 [a, b, c, d] p)"
proof -
  have "read_number None True 65536 (decimal (unat p) @ []) = Some (unat p, [])"
    using unsigned_less [of p, where 'a = nat] by (intro read_decimal) simp_all
  moreover have "read_ipv4 (show_ipv4 [a, b, c, d] @ '':'' @ decimal (unat p)) = Some ([a, b, c, d], '':'' @ decimal (unat p))"
    by (rule read_show_ipv4) simp
  ultimately show ?thesis by (simp add: parse_addr_def show_addr_def)
qed

lemma parse_ipv4_length: "parse_ipv4 s = Some ip \<Longrightarrow> length ip = 4"
  by (auto simp: parse_ipv4_def read_ipv4_def bind_eq_Some_conv split: option.splits list.splits)

lemma parse_empty [simp]: "parse_addr v6 [] = map_option (\<lambda>(ip, p). V6 ip p) (v6 [])"
  by (simp add: parse_addr_def read_ipv4_def read_octet_def read_number_def)

end
