(* ===== verification/Startup.thy ===== *)
theory Startup
  imports Addresses Source_Loop Windows_Map
begin

text \<open>
  From the command line to the loops: the options and their defaults (\<open>lib.rs\<close>, \<open>main.rs\<close> and the
  two binaries), the platform calls (\<open>platform.rs\<close>), and what \<open>source::run\<close> and \<open>target::run\<close> do
  before their loops. An operating-system call succeeds or fails as an argument says; a start-up
  returns its result with the calls it made, the releases of its guards included.
\<close>

section \<open>Options\<close>

definition DEFAULT_MULTICAST :: string where
  "DEFAULT_MULTICAST = ''239.255.0.1''"

definition DEFAULT_PORT :: u16 where
  "DEFAULT_PORT = 5000"

definition DEFAULT_RECONNECT_TIMEOUT_SECS :: u64 where
  "DEFAULT_RECONNECT_TIMEOUT_SECS = 10"

definition DEFAULT_STALE_TIMEOUT_SECS :: u64 where
  "DEFAULT_STALE_TIMEOUT_SECS = 10"

definition DEFAULT_DATAGRAM_SIZE :: nat where
  "DEFAULT_DATAGRAM_SIZE = MAX_DATAGRAM_SIZE"

definition DEFAULT_KEYFRAME_INTERVAL :: u16 where
  "DEFAULT_KEYFRAME_INTERVAL = 60"

definition POLL_INTERVAL_MS :: u32 where
  "POLL_INTERVAL_MS = 200"

record source_options =
  so_bind :: string
  so_target :: string
  so_unicast :: bool
  so_busy_wait :: bool
  so_pin_core :: "nat option"
  so_high_priority :: bool
  so_reconnect_timeout_secs :: u64
  so_datagram_size :: nat
  so_no_delta :: bool
  so_keyframe_interval :: u16

record target_options =
  to_bind :: string
  to_unicast :: bool
  to_multicast_group :: string
  to_busy_wait :: bool
  to_pin_core :: "nat option"
  to_fanalab :: bool
  to_stale_timeout_secs :: u64
  to_high_priority :: bool
  to_write_ibt :: bool

text \<open>The library's defaults.\<close>

definition source_config_default :: source_options where
  "source_config_default =
     \<lparr>so_bind = ''0.0.0.0:0'', so_target = [], so_unicast = False, so_busy_wait = False, so_pin_core = None,
      so_high_priority = False, so_reconnect_timeout_secs = DEFAULT_RECONNECT_TIMEOUT_SECS,
      so_datagram_size = DEFAULT_DATAGRAM_SIZE, so_no_delta = False,
      so_keyframe_interval = DEFAULT_KEYFRAME_INTERVAL\<rparr>"

definition target_config_default :: target_options where
  "target_config_default =
     \<lparr>to_bind = show_addr ''0.0.0.0'' DEFAULT_PORT, to_unicast = False, to_multicast_group = DEFAULT_MULTICAST,
      to_busy_wait = False, to_pin_core = None, to_fanalab = False,
      to_stale_timeout_secs = DEFAULT_STALE_TIMEOUT_SECS, to_high_priority = False, to_write_ibt = False\<rparr>"

text \<open>The command lines: what each program runs with when no flag is given. \<open>teleport\<close> has a
  subcommand for either side; \<open>source\<close> and \<open>target\<close> are the single-sided programs.\<close>

datatype command = Source source_options | Target target_options

definition teleport_source_defaults :: source_options where
  "teleport_source_defaults =
     \<lparr>so_bind = ''0.0.0.0:0'', so_target = show_addr DEFAULT_MULTICAST DEFAULT_PORT, so_unicast = False,
      so_busy_wait = False, so_pin_core = None, so_high_priority = False,
      so_reconnect_timeout_secs = DEFAULT_RECONNECT_TIMEOUT_SECS, so_datagram_size = DEFAULT_DATAGRAM_SIZE,
      so_no_delta = False, so_keyframe_interval = DEFAULT_KEYFRAME_INTERVAL\<rparr>"

definition teleport_target_defaults :: target_options where
  "teleport_target_defaults =
     \<lparr>to_bind = show_addr ''0.0.0.0'' DEFAULT_PORT, to_unicast = False, to_multicast_group = DEFAULT_MULTICAST,
      to_busy_wait = False, to_pin_core = None, to_fanalab = False,
      to_stale_timeout_secs = DEFAULT_STALE_TIMEOUT_SECS, to_high_priority = False, to_write_ibt = False\<rparr>"

definition source_bin_defaults :: source_options where
  "source_bin_defaults =
     \<lparr>so_bind = ''0.0.0.0:0'', so_target = show_addr DEFAULT_MULTICAST DEFAULT_PORT, so_unicast = False,
      so_busy_wait = False, so_pin_core = None, so_high_priority = False,
      so_reconnect_timeout_secs = DEFAULT_RECONNECT_TIMEOUT_SECS, so_datagram_size = DEFAULT_DATAGRAM_SIZE,
      so_no_delta = False, so_keyframe_interval = DEFAULT_KEYFRAME_INTERVAL\<rparr>"

definition target_bin_defaults :: target_options where
  "target_bin_defaults =
     \<lparr>to_bind = show_addr ''0.0.0.0'' DEFAULT_PORT, to_unicast = False, to_multicast_group = DEFAULT_MULTICAST,
      to_busy_wait = False, to_pin_core = None, to_fanalab = False,
      to_stale_timeout_secs = DEFAULT_STALE_TIMEOUT_SECS, to_high_priority = False, to_write_ibt = False\<rparr>"

section \<open>Calls with a result\<close>

datatype setup_op =
    Timer_Begin nat | Timer_End nat | Thread_Priority | Priority_Class
  | Mmcss_Begin handle | Mmcss_End handle | Affinity_Mask u64
  | Socket_New | Send_Buffer nat | Recv_Buffer nat | Reuse_Address | Socket_Bind sock_addr
  | Socket_Nonblocking | Read_Timeout nat | Socket_Connect sock_addr | Join_Multicast ip4 | Socket_Close

datatype setup_error = Os_Failed setup_op | Invalid_Bind | Invalid_Target | Bad_Multicast

type_synonym 'a startup = "(setup_error + 'a) \<times> setup_op list"

definition attempt :: "(setup_op \<Rightarrow> bool) \<Rightarrow> setup_op \<Rightarrow> unit startup" where
  "attempt os c = (if os c then Inr () else Inl (Os_Failed c), [c])"

definition parsed :: "setup_error \<Rightarrow> 'a option \<Rightarrow> 'a startup" where
  "parsed e x = (case x of Some y \<Rightarrow> Inr y | None \<Rightarrow> Inl e, [])"

definition sbind :: "'a startup \<Rightarrow> ('a \<Rightarrow> 'b startup) \<Rightarrow> 'b startup" where
  "sbind m f = (case m of
      (Inl e, t) \<Rightarrow> (Inl e, t)
    | (Inr x, t) \<Rightarrow> (case f x of (r, t') \<Rightarrow> (r, t @ t')))"

text \<open>Guards dropped when the function returns early.\<close>

definition guarded :: "setup_op list \<Rightarrow> 'a startup \<Rightarrow> 'a startup" where
  "guarded release m = (case m of (Inl e, t) \<Rightarrow> (Inl e, t @ release) | (Inr x, t) \<Rightarrow> (Inr x, t))"

definition after :: "setup_op list \<Rightarrow> 'a startup \<Rightarrow> 'a startup" where
  "after pre m = (case m of (r, t) \<Rightarrow> (r, pre @ t))"

section \<open>The platform\<close>

definition timer_acquire :: "setup_op list" where
  "timer_acquire = [Timer_Begin 1]"

definition timer_drop :: "setup_op list" where
  "timer_drop = [Timer_End 1]"

definition mmcss_acquire :: "handle \<Rightarrow> handle option \<times> setup_op list" where
  "mmcss_acquire h = (if h = 0 then None else Some h, [Mmcss_Begin h])"

definition mmcss_drop :: "handle option \<Rightarrow> setup_op list" where
  "mmcss_drop g = (case g of Some h \<Rightarrow> [Mmcss_End h] | None \<Rightarrow> [])"

definition boost_thread_priority :: "setup_op list" where
  "boost_thread_priority = [Thread_Priority]"

definition set_high_priority :: "setup_op list" where
  "set_high_priority = [Priority_Class]"

definition pin_thread_to_core :: "nat \<Rightarrow> setup_op list" where
  "pin_thread_to_core core = (if 64 \<le> core then [] else [Affinity_Mask (push_bit core 1)])"

section \<open>Starting a source\<close>

record source_ready =
  sr_bound :: sock_addr
  sr_dest :: sock_addr
  sr_connected :: bool
  sr_poll_ms :: u32

definition source_setup :: "v6_parser \<Rightarrow> (setup_op \<Rightarrow> bool) \<Rightarrow> source_options \<Rightarrow> source_ready startup" where
  "source_setup v6 os opts =
     (let prep = timer_acquire @ boost_thread_priority
            @ (if so_high_priority opts then set_high_priority else [])
            @ (case so_pin_core opts of Some core \<Rightarrow> pin_thread_to_core core | None \<Rightarrow> []);
          poll_ms = (if so_busy_wait opts then 0 else POLL_INTERVAL_MS)
      in after prep (guarded timer_drop
        (sbind (attempt os Socket_New) (\<lambda>_. guarded [Socket_Close]
          (sbind (attempt os (Send_Buffer (2 * 1024 * 1024))) (\<lambda>_.
           sbind (parsed Invalid_Bind (parse_addr v6 (so_bind opts))) (\<lambda>bind_addr.
           sbind (attempt os (Socket_Bind bind_addr)) (\<lambda>_.
           sbind (attempt os Socket_Nonblocking) (\<lambda>_.
           sbind (parsed Invalid_Target (parse_addr v6 (so_target opts))) (\<lambda>target_addr.
           sbind (if so_unicast opts then attempt os (Socket_Connect target_addr) else (Inr (), [])) (\<lambda>_.
           (Inr \<lparr>sr_bound = bind_addr, sr_dest = target_addr, sr_connected = so_unicast opts,
                 sr_poll_ms = poll_ms\<rparr>, []))))))))))))"

text \<open>The wait for iRacing; \<open>None\<close> while it lasts. A return closes the socket and drops the timer.\<close>

datatype source_failure = Setup_Failed setup_error | Open_Failed io_error

datatype source_begin = Enters_Loop source_ready | Returns_At_Shutdown | Returns_Error source_failure

definition source_begins ::
  "v6_parser \<Rightarrow> (setup_op \<Rightarrow> bool) \<Rightarrow> (opened \<times> waited) list \<Rightarrow> source_options \<Rightarrow>
   source_begin option \<times> setup_op list" where
  "source_begins v6 os opens opts =
     (case source_setup v6 os opts of
        (Inl e, t) \<Rightarrow> (Some (Returns_Error (Setup_Failed e)), t)
      | (Inr r, t) \<Rightarrow> (case open_loop opens of
            None \<Rightarrow> (None, t)
          | Some (Inr Connected) \<Rightarrow> (Some (Enters_Loop r), t)
          | Some (Inr _) \<Rightarrow> (Some Returns_At_Shutdown, t @ [Socket_Close] @ timer_drop)
          | Some (Inl e) \<Rightarrow> (Some (Returns_Error (Open_Failed e)), t @ [Socket_Close] @ timer_drop)))"

lemma open_loop_blames:
  "open_loop opens = Some (Inl e) \<Longrightarrow> e = OtherError \<and> Open_Other \<in> fst ` set opens"
  "open_loop opens = Some (Inr Shutdown) \<Longrightarrow> (Open_Unavailable, Wait_Received) \<in> set opens \<or> (Open_Unavailable, Wait_Disconnected) \<in> set opens"
  "open_loop opens \<noteq> Some (Inr Retry)"
  by (induction opens) (auto simp: try_open_def split: opened.splits waited.splits)

section \<open>Starting a target\<close>

record target_ready =
  tr_bound :: sock_addr
  tr_joined :: "ip4 option"
  tr_blocking :: bool
  tr_mmcss :: "handle option"

definition target_setup ::
  "v6_parser \<Rightarrow> (setup_op \<Rightarrow> bool) \<Rightarrow> handle \<Rightarrow> target_options \<Rightarrow> target_ready startup" where
  "target_setup v6 os task opts =
     (let (mmcss, joins) = mmcss_acquire task;
          prep = timer_acquire @ boost_thread_priority
            @ (if to_high_priority opts then set_high_priority else []) @ joins
            @ (case to_pin_core opts of Some core \<Rightarrow> pin_thread_to_core core | None \<Rightarrow> [])
      in after prep (guarded (mmcss_drop mmcss @ timer_drop)
        (sbind (attempt os Socket_New) (\<lambda>_. guarded [Socket_Close]
          (sbind (attempt os (Recv_Buffer (2 * 1024 * 1024))) (\<lambda>_.
           sbind (attempt os Reuse_Address) (\<lambda>_.
           sbind (parsed Invalid_Bind (parse_addr v6 (to_bind opts))) (\<lambda>bind_addr.
           sbind (attempt os (Socket_Bind bind_addr)) (\<lambda>_.
           sbind (if to_busy_wait opts then attempt os Socket_Nonblocking else attempt os (Read_Timeout 1)) (\<lambda>_.
           sbind (if to_unicast opts then (Inr None, [])
                  else sbind (parsed Bad_Multicast (parse_ipv4 (to_multicast_group opts))) (\<lambda>grp.
                       sbind (attempt os (Join_Multicast grp)) (\<lambda>_. (Inr (Some grp), [])))) (\<lambda>joined.
           (Inr \<lparr>tr_bound = bind_addr, tr_joined = joined, tr_blocking = (\<not> to_busy_wait opts),
                 tr_mmcss = mmcss\<rparr>, []))))))))))))"

section \<open>The programs\<close>

text \<open>\<open>run_source\<close> and \<open>run_target\<close> pass the fields of their configuration on; the command-line
  parser is a parameter, \<open>None\<close> when it prints its usage and exits. A program that sees the stub
  flag parks for ever. A program whose Ctrl-C handler cannot be installed panics (\<open>expect\<close>); the
  handler only sends on the shutdown channel that the loops read.\<close>

definition run_source :: "(source_options \<Rightarrow> 'r) \<Rightarrow> source_options \<Rightarrow> 'r" where
  "run_source src_run c = src_run
     \<lparr>so_bind = so_bind c, so_target = so_target c, so_unicast = so_unicast c, so_busy_wait = so_busy_wait c,
      so_pin_core = so_pin_core c, so_high_priority = so_high_priority c,
      so_reconnect_timeout_secs = so_reconnect_timeout_secs c, so_datagram_size = so_datagram_size c,
      so_no_delta = so_no_delta c, so_keyframe_interval = so_keyframe_interval c\<rparr>"

definition run_target :: "(target_options \<Rightarrow> 'r) \<Rightarrow> target_options \<Rightarrow> 'r" where
  "run_target tgt_run c = tgt_run
     \<lparr>to_bind = to_bind c, to_unicast = to_unicast c, to_multicast_group = to_multicast_group c,
      to_busy_wait = to_busy_wait c, to_pin_core = to_pin_core c, to_fanalab = to_fanalab c,
      to_stale_timeout_secs = to_stale_timeout_secs c, to_high_priority = to_high_priority c,
      to_write_ibt = to_write_ibt c\<rparr>"

datatype program = Parks | Usage | Panics | Exits nat

definition exit_code :: "'e + unit \<Rightarrow> program" where
  "exit_code r = (case r of Inl _ \<Rightarrow> Exits 1 | Inr _ \<Rightarrow> Exits 0)"

definition teleport_main ::
  "(source_options \<Rightarrow> 'e + unit) \<Rightarrow> (target_options \<Rightarrow> 'e + unit) \<Rightarrow> (string list \<Rightarrow> command option) \<Rightarrow> bool \<Rightarrow>
   string list \<Rightarrow> program" where
  "teleport_main run_src run_tgt parse handler_set args =
     (if ''--fanalab-stub'' \<in> set args then Parks
      else case parse args of
        None \<Rightarrow> Usage
      | Some cmd \<Rightarrow>
          if \<not> handler_set then Panics
          else (case cmd of Source opts \<Rightarrow> exit_code (run_src opts) | Target opts \<Rightarrow> exit_code (run_tgt opts)))"

definition source_main ::
  "(source_options \<Rightarrow> 'e + unit) \<Rightarrow> (string list \<Rightarrow> source_options option) \<Rightarrow> bool \<Rightarrow> string list \<Rightarrow> program" where
  "source_main run_src parse handler_set args = (case parse args of
      None \<Rightarrow> Usage
    | Some opts \<Rightarrow> if \<not> handler_set then Panics else exit_code (run_src opts))"

definition target_main ::
  "(target_options \<Rightarrow> 'e + unit) \<Rightarrow> (string list \<Rightarrow> target_options option) \<Rightarrow> bool \<Rightarrow> string list \<Rightarrow> program" where
  "target_main run_tgt parse handler_set args =
     (if ''--fanalab-stub'' \<in> set args then Parks
      else case parse args of
        None \<Rightarrow> Usage
      | Some opts \<Rightarrow> if \<not> handler_set then Panics else exit_code (run_tgt opts))"

text \<open>The three programs agree: where the parsers do, a side started from \<open>main.rs\<close> ends as the
  same side started from its own binary. The one difference is the stub flag, which the source's
  binary does not look for.\<close>

lemma programs_agree:
  "parse a = map_option Source (parse_src b) \<Longrightarrow> ''--fanalab-stub'' \<notin> set a \<Longrightarrow>
     teleport_main run_src run_tgt parse h a = source_main run_src parse_src h b"
  "parse a = map_option Target (parse_tgt b) \<Longrightarrow> ''--fanalab-stub'' \<in> set a \<longleftrightarrow> ''--fanalab-stub'' \<in> set b \<Longrightarrow>
     teleport_main run_src run_tgt parse h a = target_main run_tgt parse_tgt h b"
  by (auto simp: teleport_main_def source_main_def target_main_def split: option.split)

lemma main_exits_zero:
  "teleport_main run_src run_tgt parse h args = Exits 0 \<longleftrightarrow> ''--fanalab-stub'' \<notin> set args \<and> h \<and>
     (\<exists>cmd. parse args = Some cmd \<and> (case cmd of Source opts \<Rightarrow> run_src opts | Target opts \<Rightarrow> run_tgt opts) = Inr ())"
  by (auto simp: teleport_main_def exit_code_def split: option.split sum.split command.split)

section \<open>Elsewhere than on Windows\<close>

text \<open>The stand-in provider of a build for another system: a map in memory that can be created but
  never opened. A source of such a build waits for ever, or until it is told to stop. The folder
  of the disk files is a path from the user's profile, or a relative one.\<close>

record mock_telemetry =
  mock_data :: "byte list"

definition mock_open :: "telemetry_error + mock_telemetry" where
  "mock_open = Inl Unavailable"

definition mock_create :: "nat \<Rightarrow> telemetry_error + mock_telemetry" where
  "mock_create n = Inr \<lparr>mock_data = replicate n 0\<rparr>"

definition mock_wait_for_data :: "mock_telemetry \<Rightarrow> u32 \<Rightarrow> bool" where
  "mock_wait_for_data t timeout_ms = False"

definition mock_signal_data_ready :: "mock_telemetry \<Rightarrow> telemetry_error + unit" where
  "mock_signal_data_ready t = Inr ()"

definition mock_as_slice :: "mock_telemetry \<Rightarrow> byte list" where
  "mock_as_slice t = mock_data t"

text \<open>A write through \<open>as_slice_mut\<close>.\<close>

definition mock_as_slice_mut :: "(byte list \<Rightarrow> byte list rust) \<Rightarrow> mock_telemetry \<Rightarrow> mock_telemetry rust" where
  "mock_as_slice_mut f t = rbind (f (mock_data t)) (\<lambda>d. Inr (t\<lparr>mock_data := d\<rparr>))"

definition mock_size :: "mock_telemetry \<Rightarrow> nat" where
  "mock_size t = length (mock_data t)"

text \<open>The default methods of the trait, which the stand-in inherits.\<close>

definition default_active_var_buf :: "'t \<Rightarrow> (nat \<times> nat \<times> i32 \<times> nat) option" where
  "default_active_var_buf t = None"

definition default_clear_status :: "'t \<Rightarrow> 't" where
  "default_clear_status t = t"

definition default_zero_on_exit :: "'t \<Rightarrow> 't" where
  "default_zero_on_exit t = t"

text \<open>A stand-in keeps the size it was created with, starts as zeros and returns what is stored.\<close>

lemma mock_stores:
  assumes "mock_create n = Inr t"
  shows "mock_size t = n" "mock_as_slice t = replicate n 0"
    "off + length src \<le> n \<Longrightarrow> \<exists>t'. mock_as_slice_mut (store off src) t = Inr t' \<and> mock_size t' = n \<and>
       take (length src) (drop off (mock_as_slice t')) = src"
  using assms
  by (auto simp: mock_create_def mock_size_def mock_as_slice_def mock_as_slice_mut_def store_ok blit_window)

definition opened_as :: "telemetry_error + 't \<Rightarrow> opened" where
  "opened_as r = (case r of Inr _ \<Rightarrow> Open_Ok | Inl Unavailable \<Rightarrow> Open_Unavailable | Inl Other \<Rightarrow> Open_Other)"

lemma mock_source_never_connects:
  "list_all (\<lambda>(opn, wait). opn = opened_as mock_open) opens \<Longrightarrow> open_loop opens \<in> {None, Some (Inr Shutdown)}"
  by (induction opens) (auto simp: opened_as_def mock_open_def try_open_def split: waited.split)

definition ibt_telemetry_dir :: "string option \<Rightarrow> string list" where
  "ibt_telemetry_dir userprofile =
     (case userprofile of
        Some profile \<Rightarrow> [profile, ''Documents'', ''iRacing'', ''telemetry'']
      | None \<Rightarrow> [''telemetry''])"

section \<open>Guards\<close>

datatype guard = Timer_Guard | Mmcss_Guard handle | Socket_Guard

fun takes :: "(setup_op \<Rightarrow> bool) \<Rightarrow> setup_op \<Rightarrow> guard multiset" where
  "takes os (Timer_Begin n) = {#Timer_Guard#}"
| "takes os (Mmcss_Begin h) = (if h = 0 then {#} else {#Mmcss_Guard h#})"
| "takes os Socket_New = (if os Socket_New then {#Socket_Guard#} else {#})"
| "takes os _ = {#}"

fun gives_back :: "setup_op \<Rightarrow> guard multiset" where
  "gives_back (Timer_End n) = {#Timer_Guard#}"
| "gives_back (Mmcss_End h) = {#Mmcss_Guard h#}"
| "gives_back Socket_Close = {#Socket_Guard#}"
| "gives_back _ = {#}"

definition taken_by :: "(setup_op \<Rightarrow> bool) \<Rightarrow> setup_op list \<Rightarrow> guard multiset" where
  "taken_by os cs = sum_list (List.map (takes os) cs)"

definition given_back :: "setup_op list \<Rightarrow> guard multiset" where
  "given_back cs = sum_list (List.map gives_back cs)"

lemma guard_simps [simp]:
  "taken_by os [] = {#}" "taken_by os (c # cs) = takes os c + taken_by os cs"
  "taken_by os (cs @ ds) = taken_by os cs + taken_by os ds"
  "given_back [] = {#}" "given_back (c # cs) = gives_back c + given_back cs"
  "given_back (cs @ ds) = given_back cs + given_back ds"
  by (simp_all add: taken_by_def given_back_def)

definition holding :: "(setup_op \<Rightarrow> bool) \<Rightarrow> setup_op list \<Rightarrow> guard multiset \<Rightarrow> bool" where
  "holding os t gs \<longleftrightarrow> taken_by os t = given_back t + gs"

text \<open>The calls that may fail a start-up, in order, and a guarded chain of them.\<close>

definition platform_calls :: "bool \<Rightarrow> nat option \<Rightarrow> setup_op list \<Rightarrow> setup_op list" where
  "platform_calls high core joins = [Timer_Begin 1, Thread_Priority] @ (if high then [Priority_Class] else [])
     @ joins @ (case core of Some c \<Rightarrow> pin_thread_to_core c | None \<Rightarrow> [])"

definition blame :: "(setup_op \<Rightarrow> bool) \<Rightarrow> bool \<Rightarrow> bool \<Rightarrow> bool \<Rightarrow> setup_op list \<Rightarrow> setup_error \<Rightarrow> bool" where
  "blame os bind_ok target_ok group_ok t e \<longleftrightarrow> (case e of
      Os_Failed c \<Rightarrow> c \<in> set t \<and> \<not> os c
    | Invalid_Bind \<Rightarrow> \<not> bind_ok
    | Invalid_Target \<Rightarrow> \<not> target_ok
    | Bad_Multicast \<Rightarrow> \<not> group_ok)"

lemmas startup_defs = source_setup_def target_setup_def attempt_def parsed_def sbind_def guarded_def after_def
  timer_acquire_def timer_drop_def boost_thread_priority_def set_high_priority_def mmcss_acquire_def mmcss_drop_def

lemma pin_neutral [simp]: "taken_by os (pin_thread_to_core c) = {#}" "given_back (pin_thread_to_core c) = {#}"
  by (simp_all add: pin_thread_to_core_def)

lemma source_setup_fails:
  "source_setup v6 os opts = (Inl e, t) \<Longrightarrow> holding os t {#} \<and>
   blame os (parse_addr v6 (so_bind opts) \<noteq> None) (parse_addr v6 (so_target opts) \<noteq> None) True t e"
  by (auto simp: startup_defs holding_def blame_def Let_def split: if_splits option.splits)

lemma source_setup_works:
  "source_setup v6 os opts = (Inr r, t) \<Longrightarrow> holding os t {#Timer_Guard, Socket_Guard#} \<and>
   t = platform_calls (so_high_priority opts) (so_pin_core opts) [] @
     [Socket_New, Send_Buffer (2 * 1024 * 1024), Socket_Bind (sr_bound r), Socket_Nonblocking]
     @ (if so_unicast opts then [Socket_Connect (sr_dest r)] else [])"
  by (auto simp: startup_defs holding_def platform_calls_def Let_def split: if_splits option.splits)

lemma target_setup_fails:
  "target_setup v6 os task opts = (Inl e, t) \<Longrightarrow> holding os t {#} \<and>
   blame os (parse_addr v6 (to_bind opts) \<noteq> None) True (parse_ipv4 (to_multicast_group opts) \<noteq> None) t e"
  by (auto simp: startup_defs holding_def blame_def Let_def split: if_splits option.splits)

lemma target_setup_works:
  "target_setup v6 os task opts = (Inr r, t) \<Longrightarrow>
   holding os t ({#Timer_Guard, Socket_Guard#} + (if task = 0 then {#} else {#Mmcss_Guard task#})) \<and>
   t = platform_calls (to_high_priority opts) (to_pin_core opts) [Mmcss_Begin task] @
     [Socket_New, Recv_Buffer (2 * 1024 * 1024), Reuse_Address, Socket_Bind (tr_bound r),
      if to_busy_wait opts then Socket_Nonblocking else Read_Timeout 1]
     @ (case tr_joined r of Some grp \<Rightarrow> [Join_Multicast grp] | None \<Rightarrow> [])"
  by (auto simp: startup_defs holding_def platform_calls_def Let_def split: if_splits option.splits)

section \<open>Properties\<close>

text \<open>C24: Starting either side never leaks: when a call fails, an address does not parse, iRacing's map
  reports an error or a shutdown comes first, the early return gives back everything it took (the
  socket, the timer resolution, the multimedia task). The error of a set-up names a call that was
  made and failed, or the text that does not parse (the bind address, the source's target, the
  target's group); the source's other error is that of an attempt to open iRacing's map, and it
  returns without one only when a wait for iRacing was shut down. A start-up that succeeds holds
  exactly the guards, and has made its calls in the documented order, the two-megabyte buffer
  before the bind.\<close>

theorem startup_releases:
  "(case source_begins v6 os opens so of
      (None, t) \<Rightarrow> holding os t {#Timer_Guard, Socket_Guard#}
    | (Some (Enters_Loop r), t) \<Rightarrow> holding os t {#Timer_Guard, Socket_Guard#} \<and>
        t = platform_calls (so_high_priority so) (so_pin_core so) [] @
          [Socket_New, Send_Buffer (2 * 1024 * 1024), Socket_Bind (sr_bound r), Socket_Nonblocking]
          @ (if so_unicast so then [Socket_Connect (sr_dest r)] else [])
    | (Some (Returns_Error (Setup_Failed e)), t) \<Rightarrow> holding os t {#} \<and>
        blame os (parse_addr v6 (so_bind so) \<noteq> None) (parse_addr v6 (so_target so) \<noteq> None) True t e
    | (Some (Returns_Error (Open_Failed e)), t) \<Rightarrow> holding os t {#} \<and> e = OtherError \<and> Open_Other \<in> fst ` set opens
    | (Some Returns_At_Shutdown, t) \<Rightarrow> holding os t {#} \<and>
        (\<exists>w\<in>{Wait_Received, Wait_Disconnected}. (Open_Unavailable, w) \<in> set opens)) \<and>
   (case target_setup v6 os task to of
      (Inl e, t) \<Rightarrow> holding os t {#} \<and>
        blame os (parse_addr v6 (to_bind to) \<noteq> None) True (parse_ipv4 (to_multicast_group to) \<noteq> None) t e
    | (Inr r, t) \<Rightarrow>
        holding os t ({#Timer_Guard, Socket_Guard#} + (if task = 0 then {#} else {#Mmcss_Guard task#})) \<and>
        t = platform_calls (to_high_priority to) (to_pin_core to) [Mmcss_Begin task] @
          [Socket_New, Recv_Buffer (2 * 1024 * 1024), Reuse_Address, Socket_Bind (tr_bound r),
           if to_busy_wait to then Socket_Nonblocking else Read_Timeout 1]
          @ (case tr_joined r of Some grp \<Rightarrow> [Join_Multicast grp] | None \<Rightarrow> []))"
proof -
  have close: "holding os t {#Timer_Guard, Socket_Guard#} \<Longrightarrow> holding os (t @ [Socket_Close] @ timer_drop) {#}" for t
    by (simp add: holding_def timer_drop_def)
  note source = source_setup_fails [of v6 os so] source_setup_works [of v6 os so]
  have s: "case source_begins v6 os opens so of
      (None, t) \<Rightarrow> holding os t {#Timer_Guard, Socket_Guard#}
    | (Some (Enters_Loop r), t) \<Rightarrow> holding os t {#Timer_Guard, Socket_Guard#} \<and>
        t = platform_calls (so_high_priority so) (so_pin_core so) [] @
          [Socket_New, Send_Buffer (2 * 1024 * 1024), Socket_Bind (sr_bound r), Socket_Nonblocking]
          @ (if so_unicast so then [Socket_Connect (sr_dest r)] else [])
    | (Some (Returns_Error (Setup_Failed e)), t) \<Rightarrow> holding os t {#} \<and>
        blame os (parse_addr v6 (so_bind so) \<noteq> None) (parse_addr v6 (so_target so) \<noteq> None) True t e
    | (Some (Returns_Error (Open_Failed e)), t) \<Rightarrow> holding os t {#} \<and> e = OtherError \<and> Open_Other \<in> fst ` set opens
    | (Some Returns_At_Shutdown, t) \<Rightarrow> holding os t {#} \<and>
        (\<exists>w\<in>{Wait_Received, Wait_Disconnected}. (Open_Unavailable, w) \<in> set opens)"
  proof (cases "source_setup v6 os so")
    case (Pair res t)
    show ?thesis
    proof (cases res)
      case (Inl e)
      then show ?thesis using source(1) [of e t] Pair by (simp add: source_begins_def)
    next
      case (Inr r)
      with source(2) [of r t] Pair close [of t] show ?thesis
        by (cases "open_loop opens")
          (auto simp: source_begins_def simp: open_loop_blames(3) dest: open_loop_blames(1,2) split: sum.split open_result.split)
    qed
  qed
  obtain res t where r: "target_setup v6 os task to = (res, t)" by fastforce
  show ?thesis
    by (rule conjI [OF s], unfold r prod.case, cases res)
      (use target_setup_fails [of v6 os task to] target_setup_works [of v6 os task to] r in
        \<open>simp_all only: sum.case\<close>)
qed

lemma default_texts:
  "DEFAULT_MULTICAST = show_ipv4 [239, 255, 0, 1]" "''0.0.0.0'' = show_ipv4 [0, 0, 0, 0]"
  "''0.0.0.0:0'' = show_addr (show_ipv4 [0, 0, 0, 0]) 0"
  by (simp_all add: DEFAULT_MULTICAST_def show_ipv4_def show_addr_def decimal.simps char_of_def bit_0)

text \<open>C32: Started with their defaults the two sides meet: all programs and the library agree on the
  defaults, the source sends to the group that the target joins and to the port it is bound to.
  The one exception is the library's \<open>SourceConfig::default\<close>, whose target is empty: a source
  run with it returns the error for an invalid target address.\<close>

theorem defaults_meet:
  assumes "v6 [] = None"
  shows "source_bin_defaults = teleport_source_defaults \<and> target_bin_defaults = teleport_target_defaults \<and>
    target_config_default = teleport_target_defaults \<and>
    source_config_default = teleport_source_defaults\<lparr>so_target := []\<rparr> \<and>
    (\<exists>g p r q. fst (run_source (source_setup v6 (\<lambda>_. True)) teleport_source_defaults) = Inr r \<and>
       fst (run_target (target_setup v6 (\<lambda>_. True) task) teleport_target_defaults) = Inr q \<and>
       sr_dest r = V4 g p \<and> tr_joined q = Some g \<and> tr_bound q = V4 [0, 0, 0, 0] p \<and>
       224 \<le> hd g \<and> hd g < 240) \<and>
    fst (run_source (source_setup v6 (\<lambda>_. True)) source_config_default) = Inl Invalid_Target"
proof -
  have same: "source_bin_defaults = teleport_source_defaults" "target_bin_defaults = teleport_target_defaults"
    "target_config_default = teleport_target_defaults"
    "source_config_default = teleport_source_defaults\<lparr>so_target := []\<rparr>"
    by (simp_all add: source_bin_defaults_def teleport_source_defaults_def target_bin_defaults_def
        teleport_target_defaults_def target_config_default_def source_config_default_def)
  note parse = default_texts parse_show_addr parse_show_ipv4
  have src: "fst (run_source (source_setup v6 (\<lambda>_. True)) teleport_source_defaults) =
      Inr \<lparr>sr_bound = V4 [0, 0, 0, 0] 0, sr_dest = V4 [239, 255, 0, 1] 5000, sr_connected = False,
           sr_poll_ms = POLL_INTERVAL_MS\<rparr>"
    by (simp only: teleport_source_defaults_def parse) (simp add: run_source_def startup_defs parse DEFAULT_PORT_def)
  have tgt: "fst (run_target (target_setup v6 (\<lambda>_. True) task) teleport_target_defaults) =
      Inr \<lparr>tr_bound = V4 [0, 0, 0, 0] 5000, tr_joined = Some [239, 255, 0, 1], tr_blocking = True,
           tr_mmcss = fst (mmcss_acquire task)\<rparr>"
    by (simp only: teleport_target_defaults_def parse) (simp add: run_target_def startup_defs parse DEFAULT_PORT_def)
  have lib: "fst (run_source (source_setup v6 (\<lambda>_. True)) source_config_default) = Inl Invalid_Target"
    by (simp only: source_config_default_def parse) (simp add: run_source_def startup_defs parse assms)
  show ?thesis using same src tgt lib by simp
qed

theorem defaults_meet_witness:
  "fst (run_source (source_setup (\<lambda>_. None) (\<lambda>_. True)) source_config_default) = Inl Invalid_Target"
  using defaults_meet [of "\<lambda>_. None" 7] by simp

end
