(* ===== verification/Fanalab_Stub.thy ===== *)
theory Fanalab_Stub
  imports Rust_Prelude
begin

text \<open>
  The stub process that makes FanaLab see a running simulator (\<open>FanalabStub\<close> of \<open>target.rs\<close>): how
  its executable gets to its place. The file system maps paths to contents; which of its
  operations succeed, and what a copy that fails half-way leaves behind, is up to the environment.
\<close>

datatype stub_path = Stub_Exe | New_Exe | Other_File string

type_synonym file_system = "stub_path \<Rightarrow> byte list option"

record stub_env =
  se_own :: "stub_path option"
  se_copy :: bool
  se_partial :: "byte list option"
  se_rename :: bool
  se_remove :: bool
  se_spawn :: bool

text \<open>\<open>std::fs::copy\<close>: on failure the destination may have been created, or written in part.\<close>

definition fs_copy :: "stub_env \<Rightarrow> stub_path \<Rightarrow> stub_path \<Rightarrow> file_system \<Rightarrow> bool \<times> file_system" where
  "fs_copy env src dst fs =
     (case fs src of
        Some exe \<Rightarrow> if se_copy env then (True, fs(dst \<mapsto> exe))
          else (False, case se_partial env of Some part \<Rightarrow> fs(dst \<mapsto> part) | None \<Rightarrow> fs)
      | None \<Rightarrow> (False, fs))"

definition fs_rename :: "stub_env \<Rightarrow> stub_path \<Rightarrow> stub_path \<Rightarrow> file_system \<Rightarrow> bool \<times> file_system" where
  "fs_rename env src dst fs =
     (if se_rename env \<and> fs src \<noteq> None then (True, fs(dst := fs src, src := None)) else (False, fs))"

definition fs_remove :: "stub_env \<Rightarrow> stub_path \<Rightarrow> file_system \<Rightarrow> file_system" where
  "fs_remove env p fs = (if se_remove env then fs(p := None) else fs)"

text \<open>The result is the content of the executable that was started.\<close>

definition start_stub :: "stub_env \<Rightarrow> file_system \<Rightarrow> byte list option \<times> file_system" where
  "start_stub env fs = (if se_spawn env then fs Stub_Exe else None, fs)"

definition spawn_stub :: "stub_env \<Rightarrow> file_system \<Rightarrow> byte list option \<times> file_system" where
  "spawn_stub env fs =
     (case se_own env of
        None \<Rightarrow> (None, fs)
      | Some own_path \<Rightarrow>
          let (copied, fs1) = fs_copy env own_path New_Exe fs in
          if copied then
            let (renamed, fs2) = fs_rename env New_Exe Stub_Exe fs1 in
            if renamed then start_stub env fs2
            else
              let fs3 = fs_remove env New_Exe fs2 in
              if fs3 Stub_Exe = None then (None, fs3) else start_stub env fs3
          else if fs1 Stub_Exe = None then (None, fs1) else start_stub env fs1)"

text \<open>C33: The stub's executable is never half-written: whatever fails, and wherever a copy stops, the
  file that FanaLab looks for is afterwards either exactly what it was or the whole running
  program, and the process that was started runs that file. Nothing else changes but the
  temporary file, which is left behind only when the copy or its removal failed.\<close>

theorem stub_never_half_written:
  "\<exists>started fs'. spawn_stub env fs = (started, fs') \<and>
     (fs' Stub_Exe = fs Stub_Exe \<or> (\<exists>own exe. se_own env = Some own \<and> fs own = Some exe \<and> fs' Stub_Exe = Some exe)) \<and>
     (\<forall>exe. started = Some exe \<longrightarrow> fs' Stub_Exe = Some exe) \<and>
     (\<forall>name. fs' (Other_File name) = fs (Other_File name)) \<and>
     (fs' New_Exe = fs New_Exe \<or> fs' New_Exe = None \<or>
      fs' Stub_Exe = fs Stub_Exe \<and> (\<not> se_copy env \<or> \<not> se_remove env))"
  by (auto simp: spawn_stub_def fs_copy_def fs_rename_def fs_remove_def start_stub_def Let_def
      split: option.splits if_splits prod.splits)

theorem stub_never_half_written_witness:
  "spawn_stub \<lparr>se_own = Some (Other_File ''target.exe''), se_copy = False, se_partial = Some [1], se_rename = True,
       se_remove = True, se_spawn = True\<rparr> [Other_File ''target.exe'' \<mapsto> [1, 2, 3], Stub_Exe \<mapsto> [4, 5]] =
     (Some [4, 5], [Other_File ''target.exe'' \<mapsto> [1, 2, 3], Stub_Exe \<mapsto> [4, 5], New_Exe \<mapsto> [1]])"
proof -
  let ?e = "\<lparr>se_own = Some (Other_File ''target.exe''), se_copy = False, se_partial = Some [1], se_rename = True,
       se_remove = True, se_spawn = True\<rparr> :: stub_env"
  let ?fs = "[Other_File ''target.exe'' \<mapsto> [1, 2, 3], Stub_Exe \<mapsto> [4, 5]] :: file_system"
  from stub_never_half_written [of ?e ?fs] show ?thesis
    by (simp add: spawn_stub_def fs_copy_def fs_rename_def fs_remove_def start_stub_def)
qed

end
