(* ===== verification/Protocol_Tests.thy ===== *)
theory Protocol_Tests
  imports Transport Xor_Delta
begin

text \<open>
  The unit tests of \<open>protocol.rs\<close>, run on the model. A test is a computation that can fail: the code
  it calls panics, an \<open>unwrap\<close> or \<open>expect\<close> finds nothing, or an assertion is false. Each test is
  translated as it is written and shown to pass, from the lemmas of the transport and not by
  evaluation, so the model answers to the expectations of the program's authors.
\<close>

section \<open>Tests as computations\<close>

datatype failure = Panicked panic | Unwrap_Failed | Assert_Failed

type_synonym 'a test = "failure + 'a"

definition run_code :: "'a rust \<Rightarrow> 'a test" where
  "run_code m = map_sum Panicked id m"

definition unwrap :: "'e + 'a \<Rightarrow> 'a test" where
  "unwrap m = (case m of Inl _ \<Rightarrow> Inl Unwrap_Failed | Inr x \<Rightarrow> Inr x)"

definition unwrap_some :: "'a option \<Rightarrow> 'a test" where
  "unwrap_some m = (case m of None \<Rightarrow> Inl Unwrap_Failed | Some x \<Rightarrow> Inr x)"

definition assert_that :: "bool \<Rightarrow> unit test" where
  "assert_that b = (if b then Inr () else Inl Assert_Failed)"

abbreviation passes :: "unit test \<Rightarrow> bool" where
  "passes t \<equiv> t = Inr ()"

lemma test_simps [simp]:
  "run_code (Inr x) = Inr x" "run_code (Inl e) = Inl (Panicked e)"
  "unwrap (Inr x) = Inr x" "unwrap (Inl e) = Inl Unwrap_Failed"
  "unwrap_some (Some x) = Inr x" "unwrap_some None = Inl Unwrap_Failed"
  "assert_that True = Inr ()" "assert_that False = Inl Assert_Failed"
  by (simp_all add: run_code_def unwrap_def unwrap_some_def assert_that_def)

section \<open>The helpers of the tests\<close>

definition make_datagram :: "u32 \<Rightarrow> u16 \<Rightarrow> u32 \<Rightarrow> u16 \<Rightarrow> byte list \<Rightarrow> byte list rust" where
  "make_datagram seq n payload_size fragment_idx data =
     (let hdr = \<lparr>hdr_source_us = 0, hdr_sequence = seq, hdr_payload_size = payload_size,
                 hdr_buf_offset = U32_MAX, hdr_fragment = fragment_idx, hdr_fragments = n\<rparr>;
          buf = replicate (HEADER_SIZE + length data) 0
      in rbind (store 0 (header_bytes hdr) buf) (store HEADER_SIZE data))"

text \<open>\<open>sender.send(.., |d| { datagrams.push(d.to_vec()); Ok(()) }).unwrap()\<close>\<close>

definition send_pushing ::
  "sender \<Rightarrow> byte list \<Rightarrow> u64 \<Rightarrow> u32 \<Rightarrow> (u16 \<times> sender \<times> byte list list) test" where
  "send_pushing s data source_us buf_offset =
     rbind (run_code (send record_datagram s [] data source_us buf_offset)) (\<lambda>(r, s', datagrams).
     rbind (unwrap r) (\<lambda>n. Inr (n, s', datagrams)))"

text \<open>\<open>for dg in &datagrams { if let Some(out) = receiver.ingest(dg).assembled { result = .. } }\<close>\<close>

fun ingest_each ::
  "receiver \<Rightarrow> byte list option \<Rightarrow> byte list list \<Rightarrow> (byte list option \<times> receiver) test" where
  "ingest_each r result [] = Inr (result, r)"
| "ingest_each r result (dg # dgs) =
     rbind (run_code (ingest r dg)) (\<lambda>(out, r').
     ingest_each r' (case assembled out of Some p \<Rightarrow> Some p | None \<Rightarrow> result) dgs)"

definition round_trip :: "byte list \<Rightarrow> byte list test" where
  "round_trip payload =
     rbind (send_pushing sender_new payload 42 U32_MAX) (\<lambda>(_, _, datagrams).
     rbind (ingest_each (receiver_new (length payload + MAX_PAYLOAD_PER_DATAGRAM)) None datagrams) (\<lambda>(result, _).
     unwrap_some result))"

text \<open>\<open>(0..n).map(|i| (i % m) as u8).collect()\<close>\<close>

definition bytes_mod :: "nat \<Rightarrow> nat \<Rightarrow> byte list" where
  "bytes_mod n m = map (\<lambda>i. of_nat (i mod m)) [0..<n]"

lemma length_bytes_mod [simp]: "length (bytes_mod n m) = n"
  by (simp add: bytes_mod_def)

section \<open>The tests of fragmentation and reassembly\<close>

definition single_fragment :: "unit test" where
  "single_fragment =
     (let data = bytes_mod 1000 256 in rbind (round_trip data) (\<lambda>out. assert_that (out = data)))"

definition multi_fragment :: "unit test" where
  "multi_fragment =
     (let data = bytes_mod (MAX_PAYLOAD_PER_DATAGRAM * 3 + 500) 251 in
      rbind (round_trip data) (\<lambda>out. assert_that (out = data)))"

definition out_of_order :: "unit test" where
  "out_of_order =
     (let payload = bytes_mod (MAX_PAYLOAD_PER_DATAGRAM * 2 + 1) 199 in
      rbind (send_pushing sender_new payload 0 U32_MAX) (\<lambda>(_, _, datagrams).
      rbind (unwrap_some (if datagrams = [] then None else Some (last datagrams))) (\<lambda>lst.
      rbind (ingest_each (receiver_new (length payload + MAX_PAYLOAD_PER_DATAGRAM)) None [lst]) (\<lambda>(result, r).
      rbind (ingest_each r result (butlast datagrams)) (\<lambda>(result, _).
      rbind (unwrap_some result) (\<lambda>out. assert_that (out = payload)))))))"

definition source_timestamp_preserved :: "unit test" where
  "source_timestamp_preserved =
     rbind (send_pushing sender_new (replicate 100 0) 9999 U32_MAX) (\<lambda>(_, _, datagrams).
     rbind (run_code (index 0 datagrams)) (\<lambda>dg.
     rbind (run_code (ingest (receiver_new 1024) dg)) (\<lambda>(_, r).
     assert_that (last_source_us r = 9999))))"

definition rejects_oversized_fragment_count :: "unit test" where
  "rejects_oversized_fragment_count =
     rbind (run_code (make_datagram 1 (of_nat MAX_FRAGMENTS + 1) 100 0 (replicate 100 0))) (\<lambda>dg.
     rbind (run_code (ingest (receiver_new 1024) dg)) (\<lambda>(out, r).
     rbind (assert_that (assembled out = None)) (\<lambda>_.
     rbind (run_code (make_datagram 1 (of_nat MAX_FRAGMENTS + 1) 100 1 (replicate 100 0))) (\<lambda>dg2.
     rbind (run_code (ingest r dg2)) (\<lambda>(out2, _).
     assert_that (assembled out2 = None))))))"

definition rejects_oversized_payload_size :: "unit test" where
  "rejects_oversized_payload_size =
     (let max_payload = 1024 in
      rbind (run_code (make_datagram 1 1 (of_nat (max_payload + 1)) 0 (replicate 10 0))) (\<lambda>dg.
      rbind (run_code (ingest (receiver_new max_payload) dg)) (\<lambda>(out, _).
      assert_that (assembled out = None))))"

definition valid_frame_after_rejected_malformed :: "unit test" where
  "valid_frame_after_rejected_malformed =
     (let payload = bytes_mod 200 251; max_payload = length payload + MAX_PAYLOAD_PER_DATAGRAM in
      rbind (run_code (make_datagram 99 (of_nat MAX_FRAGMENTS + 1) 100 0 (replicate 10 0))) (\<lambda>bad.
      rbind (run_code (ingest (receiver_new max_payload) bad)) (\<lambda>(out, r).
      rbind (assert_that (assembled out = None)) (\<lambda>_.
      rbind (send_pushing sender_new payload 0 U32_MAX) (\<lambda>(_, _, datagrams).
      rbind (ingest_each r None datagrams) (\<lambda>(result, _).
      rbind (unwrap_some result) (\<lambda>out. assert_that (out = payload))))))))"

text \<open>The closure of the next test asserts before it pushes. A failing assertion ends the send and
  the test; here it ends the send with an error, on which the \<open>unwrap\<close> fails the test.\<close>

definition push_if_fits :: "nat \<Rightarrow> byte list list send_fn" where
  "push_if_fits datagram_size w d =
     (if length d \<le> datagram_size then (Inr (), w @ [d]) else (Inl OtherError, w))"

definition small_datagram_size_round_trip :: "unit test" where
  "small_datagram_size_round_trip =
     (let payload = bytes_mod 3000 197; datagram_size = 1472 in
      rbind (run_code (send (push_if_fits datagram_size) (with_datagram_size datagram_size) [] payload 0 U32_MAX))
        (\<lambda>(res, _, datagrams).
      rbind (unwrap res) (\<lambda>frags.
      rbind (assert_that (2 \<le> frags)) (\<lambda>_.
      rbind (ingest_each (receiver_new (length payload + datagram_size)) None datagrams) (\<lambda>(result, _).
      rbind (unwrap_some result) (\<lambda>out. assert_that (out = payload)))))))"

definition varying_size :: "nat \<Rightarrow> unit test" where
  "varying_size dsize =
     (let payload = bytes_mod (dsize * 3 div 2) 211 in
      rbind (send_pushing (with_datagram_size dsize) payload 0 U32_MAX) (\<lambda>(_, _, datagrams).
      rbind (ingest_each (receiver_new (length payload + dsize)) None datagrams) (\<lambda>(result, _).
      rbind (unwrap_some result) (\<lambda>out. assert_that (out = payload)))))"

definition varying_datagram_sizes :: "unit test" where
  "varying_datagram_sizes =
     foldr (\<lambda>dsize rest. rbind (varying_size dsize) (\<lambda>_. rest)) [256, 512, 1472, 4096, MAX_DATAGRAM_SIZE] (Inr ())"

definition dropped_sequence_counted :: "unit test" where
  "dropped_sequence_counted =
     (let large = replicate (MAX_PAYLOAD_PER_DATAGRAM * 3) 0 in
      rbind (send_pushing sender_new large 0 U32_MAX) (\<lambda>(_, s, datagrams_a).
      rbind (send_pushing s large 0 U32_MAX) (\<lambda>(_, _, datagrams_b).
      rbind (run_code (index 0 datagrams_a)) (\<lambda>first.
      rbind (run_code (ingest (receiver_new (length large + MAX_PAYLOAD_PER_DATAGRAM)) first)) (\<lambda>(_, r).
      rbind (ingest_each r None datagrams_b) (\<lambda>(result, r').
      rbind (assert_that (result \<noteq> None)) (\<lambda>_.
      assert_that (dropped_sequences r' = 1))))))))"

section \<open>A message sent and received in a test\<close>

lemma make_datagram_eq:
  "make_datagram seq n payload_size idx data = Inr (header_bytes
     \<lparr>hdr_source_us = 0, hdr_sequence = seq, hdr_payload_size = payload_size,
      hdr_buf_offset = U32_MAX, hdr_fragment = idx, hdr_fragments = n\<rparr> @ data)"
  by (simp add: make_datagram_def Let_def store_ok blit_def)

lemma send_pushing_eq:
  assumes "wf_sender s" "data \<noteq> []" "length data \<le> 65535 * payload_per_datagram s"
  obtains s' where "wf_sender s'" "snd_sequence s' = snd_sequence s + 1"
    "payload_per_datagram s' = payload_per_datagram s"
    "send_pushing s data us off = Inr (of_nat (fragment_count (payload_per_datagram s) data), s',
       frames (snd_sequence s) (payload_per_datagram s) data us off)"
proof -
  obtain s' where s': "send record_datagram s [] data us off =
       Inr (Inr (of_nat (fragment_count (payload_per_datagram s) data)), s',
            [] @ frames (snd_sequence s) (payload_per_datagram s) data us off)"
    "wf_sender s'" "snd_sequence s' = snd_sequence s + 1" "payload_per_datagram s' = payload_per_datagram s"
    by (rule send_record [OF assms])
  show ?thesis by (rule that [OF s'(2-4)]) (simp add: send_pushing_def s'(1))
qed

lemma ingest_each_eq:
  "ingest_all r dgs = Inr (outs, r') \<Longrightarrow> ingest_each r result dgs =
     Inr (fold (\<lambda>out res. case assembled out of Some p \<Rightarrow> Some p | None \<Rightarrow> res) outs result, r')"
  by (induction dgs arbitrary: r outs result) (auto simp: rbind_eq_Inr)

lemma ingest_each_append:
  "ingest_each r result (xs @ ys) = rbind (ingest_each r result xs) (\<lambda>(res, r'). ingest_each r' res ys)"
  by (induction xs arbitrary: r result) (auto simp: rbind_def split: sum.split)

lemma fold_quiet: "fold (\<lambda>out res. case assembled out of Some p \<Rightarrow> Some p | None \<Rightarrow> res) (map quiet is) result = result"
  by (induction "is") (auto simp: quiet_def ingested_default_def)

text \<open>The fragments of a message in the order \<open>is @ [k]\<close>, as \<open>ingest_each\<close> sees them.\<close>

lemma each_delivered:
  assumes "good_message ppd data" "wf_receiver r" "length data \<le> max_payload r"
    "current_seq r \<noteq> Some sq" "set is \<subseteq> {..<fragment_count ppd data}" "k \<notin> set is"
    "insert k (set is) = {..<fragment_count ppd data}" "placeable ppd data {} (hd (is @ [k]))"
  obtains r' where "ingest_each r res (map (frame sq ppd data us off) (is @ [k])) = Inr (Some data, r')"
    "last_source_us r' = us" "dropped_sequences r' = dropped_sequences (count_drop r)"
proof -
  from deliver_all [OF assms, of us off] obtain r' where r':
    "ingest_all r (map (frame sq ppd data us off) (is @ [k])) = Inr (map quiet is @ [complete data off k], r')"
    "last_source_us r' = us" "dropped_sequences r' = dropped_sequences (count_drop r)" by blast
  from that [OF _ r'(2,3)] ingest_each_eq [OF r'(1), of res] show ?thesis
    by (simp add: fold_quiet complete_def)
qed

lemma frames_delivered:
  assumes "good_message ppd data" "wf_receiver r" "length data \<le> max_payload r"
    "current_seq r \<noteq> Some sq"
  obtains r' where "ingest_each r res (frames sq ppd data us off) = Inr (Some data, r')"
    "last_source_us r' = us" "dropped_sequences r' = dropped_sequences (count_drop r)"
proof -
  obtain m where m: "fragment_count ppd data = Suc m"
    using good_message_bounds(2) [OF assms(1)] by (auto simp: gr0_conv_Suc)
  have *: "set [0..<m] \<subseteq> {..<fragment_count ppd data}" "m \<notin> set [0..<m]"
    "insert m (set [0..<m]) = {..<fragment_count ppd data}"
    using m by auto
  have "placeable ppd data {} (hd ([0..<m] @ [m]))"
    using m hd_upt [of 0 "Suc m"] by (auto simp: placeable_def)
  from each_delivered [OF assms * this, of res us off] obtain r' where
    "ingest_each r res (map (frame sq ppd data us off) ([0..<m] @ [m])) = Inr (Some data, r')"
    "last_source_us r' = us" "dropped_sequences r' = dropped_sequences (count_drop r)" .
  then show ?thesis by (intro that [of r']) (simp_all add: frames_def m)
qed

text \<open>From a fresh sender to a receiver: what most of the tests do.\<close>

lemma good_message_sends: "good_message ppd data \<Longrightarrow> data \<noteq> [] \<and> length data \<le> 65535 * ppd"
  using fragment_count_le_iff [of ppd data 65535]
  by (auto simp: good_message_def wire_consts)

lemma sent_and_received:
  assumes "wf_sender s" "good_message (payload_per_datagram s) data"
    "wf_receiver r" "length data \<le> max_payload r" "current_seq r \<noteq> Some (snd_sequence s)"
  obtains s' ds r' where "wf_sender s'" "snd_sequence s' = snd_sequence s + 1"
    "payload_per_datagram s' = payload_per_datagram s"
    "send_pushing s data us off = Inr (of_nat (fragment_count (payload_per_datagram s) data), s', ds)"
    "ds = frames (snd_sequence s) (payload_per_datagram s) data us off"
    "ingest_each r res ds = Inr (Some data, r')" "last_source_us r' = us"
    "dropped_sequences r' = dropped_sequences (count_drop r)"
proof -
  note g = good_message_sends [OF assms(2)]
  obtain s' where "wf_sender s'" "snd_sequence s' = snd_sequence s + 1"
    "payload_per_datagram s' = payload_per_datagram s"
    "send_pushing s data us off = Inr (of_nat (fragment_count (payload_per_datagram s) data), s',
       frames (snd_sequence s) (payload_per_datagram s) data us off)"
    by (rule send_pushing_eq [OF assms(1), of data us off]) (use g in auto)
  moreover obtain r' where "ingest_each r res (frames (snd_sequence s) (payload_per_datagram s) data us off) = Inr (Some data, r')"
    "last_source_us r' = us" "dropped_sequences r' = dropped_sequences (count_drop r)"
    by (rule frames_delivered [OF assms(2-5), of res us off])
  ultimately show ?thesis using that by blast
qed

lemma default_sender [simp]:
  "wf_sender sender_new" "snd_sequence sender_new = 0"
  "payload_per_datagram sender_new = MAX_PAYLOAD_PER_DATAGRAM"
  by (simp_all add: sender_new_def wire_consts)

lemma default_good_message:
  "0 < length data \<Longrightarrow> length data \<le> 256 * MAX_PAYLOAD_PER_DATAGRAM \<Longrightarrow> good_message MAX_PAYLOAD_PER_DATAGRAM data"
  using fragment_count_le_iff [of MAX_PAYLOAD_PER_DATAGRAM data 256]
  by (auto simp: good_message_def wire_consts)

section \<open>The tests pass\<close>

lemma round_trip_ok:
  assumes "0 < length data" "length data \<le> 256 * MAX_PAYLOAD_PER_DATAGRAM"
  shows "round_trip data = Inr data"
proof -
  have g: "good_message (payload_per_datagram sender_new) data"
    using default_good_message [OF assms] by simp
  let ?r = "receiver_new (length data + MAX_PAYLOAD_PER_DATAGRAM)"
  show ?thesis
    by (rule sent_and_received [OF default_sender(1) g wf_receiver_new [of "length data + MAX_PAYLOAD_PER_DATAGRAM"],
          of 42 U32_MAX None])
      (auto simp: round_trip_def)
qed

lemma single_fragment_passes: "passes single_fragment"
  by (simp add: single_fragment_def Let_def round_trip_ok wire_consts)

lemma multi_fragment_passes: "passes multi_fragment"
  by (simp add: multi_fragment_def Let_def round_trip_ok wire_consts)

lemma out_of_order_passes: "passes out_of_order"
proof -
  define data where "data = bytes_mod (MAX_PAYLOAD_PER_DATAGRAM * 2 + 1) 199"
  let ?ppd = MAX_PAYLOAD_PER_DATAGRAM
  have len: "length data = ?ppd * 2 + 1" by (simp add: data_def)
  then have n: "fragment_count ?ppd data = 3" by (simp add: fragment_count_def wire_consts)
  have g: "good_message ?ppd data" using len by (intro default_good_message) (simp_all add: wire_consts)
  let ?fs = "frames 0 ?ppd data 0 U32_MAX"
  let ?r = "receiver_new (length data + ?ppd)"
  have fs: "?fs = map (frame 0 ?ppd data 0 U32_MAX) [0, 1, 2]"
    by (simp add: frames_def n upt_rec numeral_2_eq_2)
  obtain s' where s: "send_pushing sender_new data 0 U32_MAX = Inr (of_nat 3, s', ?fs)"
    by (rule send_pushing_eq [OF default_sender(1), of data 0 U32_MAX])
      (use good_message_sends [OF g] n in auto)
  have *: "set [2, 0] \<subseteq> {..<fragment_count ?ppd data}" "1 \<notin> set [2, 0 :: nat]"
    "insert 1 (set [2, 0]) = {..<fragment_count ?ppd data}" "placeable ?ppd data {} (hd ([2, 0] @ [1]))"
    by (auto simp: n placeable_def)
  obtain r' where "ingest_each ?r None (map (frame 0 ?ppd data 0 U32_MAX) ([2, 0] @ [1])) = Inr (Some data, r')"
    by (rule each_delivered [OF g _ _ _ *]) auto
  then have "ingest_each ?r None ([last ?fs] @ butlast ?fs) = Inr (Some data, r')" by (simp add: fs)
  then obtain res r1 where "ingest_each ?r None [last ?fs] = Inr (res, r1)"
    "ingest_each r1 res (butlast ?fs) = Inr (Some data, r')"
    unfolding ingest_each_append by (auto simp: rbind_eq_Inr)
  moreover have "?fs \<noteq> []" by (simp add: fs)
  ultimately show ?thesis
    unfolding out_of_order_def Let_def data_def [symmetric] by (simp add: s del: ingest_each.simps)
qed

lemma source_timestamp_preserved_passes: "passes source_timestamp_preserved"
proof -
  let ?data = "replicate 100 (0 :: byte)" and ?ppd = MAX_PAYLOAD_PER_DATAGRAM
  have g: "good_message ?ppd ?data" by (rule default_good_message) (simp_all add: wire_consts)
  have n: "fragment_count ?ppd ?data = 1" by (simp add: fragment_count_def wire_consts)
  let ?fs = "frames 0 ?ppd ?data 9999 U32_MAX"
  obtain s' where s: "send_pushing sender_new ?data 9999 U32_MAX = Inr (of_nat 1, s', ?fs)"
    by (rule send_pushing_eq [OF default_sender(1), of ?data 9999 U32_MAX])
      (use good_message_sends [OF g] n in auto)
  have fs: "?fs = [frame 0 ?ppd ?data 9999 U32_MAX 0]" by (simp add: frames_def n)
  obtain r' where "ingest_each (receiver_new 1024) None ?fs = Inr (Some ?data, r')" "last_source_us r' = 9999"
    by (rule frames_delivered [OF g]) auto
  then show ?thesis
    unfolding source_timestamp_preserved_def by (auto simp: s fs index_def rbind_eq_Inr run_code_def)
qed

lemma rejects_oversized_fragment_count_passes: "passes rejects_oversized_fragment_count"
proof -
  define dg where "dg i = header_bytes (frag_header 1 257 100 0 U32_MAX i) @ replicate 100 (0 :: byte)" for i
  have mk: "make_datagram 1 (of_nat MAX_FRAGMENTS + 1) 100 (of_nat i) (replicate 100 0) = Inr (dg i)" for i
    by (simp add: make_datagram_eq dg_def frag_header_def wire_consts)
  have h: "read_header (dg i) = frag_header 1 257 100 0 U32_MAX i" for i by (simp add: dg_def)
  have "HEADER_SIZE \<le> length (dg 0)" "malformed (receiver_new 1024) (read_header (dg 0))"
    "hdr_fragments (read_header (dg 0)) \<noteq> 0"
    by (simp_all add: h) (simp_all add: dg_def malformed_def frag_header_def wire_consts)
  then obtain out r where 1: "ingest (receiver_new 1024) (dg 0) = Inr (out, r)" "assembled out = None"
    "wf_receiver r" "total_frags r = 0" "got_frags r = 0" "current_seq r = Some 1"
    using ingest_malformed [OF wf_receiver_new, of "dg 0" 1024] by (auto simp: h frag_header_def)
  obtain out2 r2 where 2: "ingest r (dg 1) = Inr (out2, r2)" "assembled out2 = None"
    using ingest_blocked [OF 1(3-6), of "dg 1"] by (auto simp: h frag_header_def)
  show ?thesis
    using mk [of 0] mk [of 1] 1(1,2) 2 by (simp add: rejects_oversized_fragment_count_def)
qed

lemma rejects_oversized_payload_size_passes: "passes rejects_oversized_payload_size"
proof -
  define dg where "dg = header_bytes (frag_header 1 1 1025 0 U32_MAX 0) @ replicate 10 (0 :: byte)"
  have mk: "make_datagram 1 1 (of_nat (1024 + 1)) 0 (replicate 10 0) = Inr dg"
    by (simp add: make_datagram_eq dg_def frag_header_def)
  have h: "read_header dg = frag_header 1 1 1025 0 U32_MAX 0" by (simp add: dg_def)
  have "HEADER_SIZE \<le> length dg" "malformed (receiver_new 1024) (read_header dg)"
    "hdr_fragments (read_header dg) \<noteq> 0"
    by (simp_all add: h) (simp_all add: dg_def malformed_def frag_header_def wire_consts)
  then obtain out r where "ingest (receiver_new 1024) dg = Inr (out, r)" "assembled out = None"
    using ingest_malformed [OF wf_receiver_new, of dg 1024] by auto
  then show ?thesis using mk by (simp add: rejects_oversized_payload_size_def Let_def)
qed

lemma valid_frame_after_rejected_malformed_passes: "passes valid_frame_after_rejected_malformed"
proof -
  define data where "data = bytes_mod 200 251"
  define mp where "mp = length data + MAX_PAYLOAD_PER_DATAGRAM"
  have len: "length data = 200" by (simp add: data_def)
  have g: "good_message (payload_per_datagram sender_new) data"
    using default_good_message [of data] len by (simp add: wire_consts)
  define dg where "dg = header_bytes (frag_header 99 257 100 0 U32_MAX 0) @ replicate 10 (0 :: byte)"
  have mk: "make_datagram 99 (of_nat MAX_FRAGMENTS + 1) 100 0 (replicate 10 0) = Inr dg"
    by (simp add: make_datagram_eq dg_def frag_header_def wire_consts)
  have h: "read_header dg = frag_header 99 257 100 0 U32_MAX 0" by (simp add: dg_def)
  have "HEADER_SIZE \<le> length dg" "malformed (receiver_new mp) (read_header dg)"
    "hdr_fragments (read_header dg) \<noteq> 0"
    by (simp_all add: h) (simp_all add: dg_def malformed_def frag_header_def wire_consts)
  then obtain out r where 1: "ingest (receiver_new mp) dg = Inr (out, r)" "assembled out = None"
    "wf_receiver r" "max_payload r = mp" "current_seq r = Some 99"
    using ingest_malformed [OF wf_receiver_new, of dg mp] by (auto simp: h frag_header_def)
  have "length data \<le> max_payload r" "current_seq r \<noteq> Some (snd_sequence sender_new)"
    using 1(4,5) by (simp_all add: mp_def)
  then obtain s' ds r' where "send_pushing sender_new data 0 U32_MAX =
      Inr (of_nat (fragment_count (payload_per_datagram sender_new) data), s', ds)"
    "ingest_each r None ds = Inr (Some data, r')"
    by (rule sent_and_received [OF default_sender(1) g 1(3)])
  then show ?thesis
    unfolding valid_frame_after_rejected_malformed_def Let_def data_def [symmetric] mp_def [symmetric]
    using mk 1(1,2) by simp
qed

lemma emit_push_if_fits:
  "\<forall>d \<in> set ds. length d \<le> n \<Longrightarrow> emit (push_if_fits n) w ds = (Inr (), w @ ds)"
  by (induction ds arbitrary: w) (simp_all add: push_if_fits_def)

lemma small_datagram_size_round_trip_passes: "passes small_datagram_size_round_trip"
proof -
  define data where "data = bytes_mod 3000 197"
  let ?s = "with_datagram_size 1472" and ?r = "receiver_new (length data + 1472)"
  have len: "length data = 3000" by (simp add: data_def)
  have a: "sender_abs ?s = (0, 1448)" by (simp add: sender_abs_def wire_consts)
  have n: "fragment_count 1448 data = 3" by (simp add: fragment_count_def len)
  have g: "good_message 1448 data" using len by (auto simp: good_message_def n wire_consts)
  let ?fs = "frames 0 1448 data 0 U32_MAX"
  have "length d \<le> 1472" if "d \<in> set ?fs" for d
  proof -
    from that obtain i where d: "d = frame 0 1448 data 0 U32_MAX i" by (auto simp: frames_def)
    show ?thesis using length_chunk_le [of 1448 data i] by (simp add: d HEADER_SIZE_def)
  qed
  then have e: "emit (push_if_fits 1472) [] ?fs = (Inr (), ?fs)" by (simp add: emit_push_if_fits)
  obtain s' where "send (push_if_fits 1472) ?s [] data 0 U32_MAX =
      (case send_spec (push_if_fits 1472) (sender_abs ?s) [] data 0 U32_MAX of (r, a, w') \<Rightarrow> Inr (r, s', w'))"
    using send_cases [OF wf_with_datagram_size] by metis
  then have s: "send (push_if_fits 1472) ?s [] data 0 U32_MAX = Inr (Inr 3, s', ?fs)"
    using len e n good_message_sends [OF g] by (simp add: send_spec_def a)
  obtain r' where "ingest_each ?r None ?fs = Inr (Some data, r')"
    by (rule frames_delivered [OF g]) auto
  then show ?thesis
    unfolding small_datagram_size_round_trip_def Let_def data_def [symmetric] by (simp add: s)
qed

lemma varying_size_passes:
  assumes "HEADER_SIZE < dsize" "dsize \<le> MAX_DATAGRAM_SIZE" "48 \<le> dsize"
  shows "passes (varying_size dsize)"
proof -
  define data where "data = bytes_mod (dsize * 3 div 2) 211"
  let ?s = "with_datagram_size dsize"
  have len: "length data = dsize * 3 div 2" by (simp add: data_def)
  have ppd: "payload_per_datagram ?s = dsize - HEADER_SIZE" using assms(1) by auto
  have "dsize * 3 div 2 \<le> 4 * (dsize - HEADER_SIZE)" "0 < dsize * 3 div 2"
    using assms by (simp_all add: wire_consts)
  then have "fragment_count (payload_per_datagram ?s) data \<le> 4" "data \<noteq> []"
    using fragment_count_le_iff [of "dsize - HEADER_SIZE" data 4] assms(1) len ppd by auto
  then have g: "good_message (payload_per_datagram ?s) data"
    using assms unfolding good_message_def ppd by (simp add: wire_consts)
  obtain s' ds r' where "send_pushing ?s data 0 U32_MAX =
      Inr (of_nat (fragment_count (payload_per_datagram ?s) data), s', ds)"
    "ingest_each (receiver_new (length data + dsize)) None ds = Inr (Some data, r')"
    by (rule sent_and_received [OF wf_with_datagram_size g wf_receiver_new [of "length data + dsize"], of 0 U32_MAX None]) auto
  then show ?thesis
    unfolding varying_size_def Let_def data_def [symmetric] by simp
qed

lemma varying_datagram_sizes_passes: "passes varying_datagram_sizes"
  by (simp add: varying_datagram_sizes_def varying_size_passes wire_consts)

lemma dropped_sequence_counted_passes: "passes dropped_sequence_counted"
proof -
  define data where "data = replicate (MAX_PAYLOAD_PER_DATAGRAM * 3) (0 :: byte)"
  let ?ppd = MAX_PAYLOAD_PER_DATAGRAM
  define r where "r = receiver_new (length data + ?ppd)"
  have len: "length data = ?ppd * 3" by (simp add: data_def)
  have n: "fragment_count ?ppd data = 3" using len by (simp add: fragment_count_def wire_consts)
  have g: "good_message ?ppd data" using len by (intro default_good_message) (simp_all add: wire_consts)
  note sends = good_message_sends [OF g]
  obtain s1 where s1: "wf_sender s1" "snd_sequence s1 = 1" "payload_per_datagram s1 = ?ppd"
    "send_pushing sender_new data 0 U32_MAX = Inr (of_nat 3, s1, frames 0 ?ppd data 0 U32_MAX)"
    by (rule send_pushing_eq [OF default_sender(1), of data 0 U32_MAX]) (use sends n in auto)
  define h where "h = frag_header 0 (fragment_count ?ppd data) (length data) 0 U32_MAX 0"
  have r: "wf_receiver r" "length data \<le> max_payload r" "current_seq r \<noteq> Some 0" "got_frags r = 0"
    by (simp_all add: r_def)
  have i: "0 < fragment_count ?ppd data" by (simp add: n)
  have "holds 0 ?ppd data 0 U32_MAX (switched r h) {}"
    unfolding h_def by (rule fresh_holds [OF g i r(1-3)])
  moreover have "card (insert 0 {} :: nat set) \<noteq> card {..<fragment_count ?ppd data}" by (simp add: n)
  then have "insert 0 {} \<noteq> {..<fragment_count ?ppd data}" by metis
  ultimately obtain r1 where r1: "ingest r (frame 0 ?ppd data 0 U32_MAX 0) = Inr (quiet 0, r1)"
    "holds 0 ?ppd data 0 U32_MAX r1 {0}" "max_payload r1 = max_payload r"
    "dropped_sequences r1 = dropped_sequences (switched r h)"
    using ingest_frame [OF g i, of 0 0 U32_MAX r "{}"] r(1,2)
    unfolding h_def [symmetric] by (auto simp: placeable_def)
  have "current_seq r \<noteq> Some (hdr_sequence h)" using r(3) by (simp add: h_def frag_header_def)
  then have d1: "dropped_sequences r1 = 0"
    using r1(4) r(4) by (simp add: switched_def) (simp add: count_drop_def r_def)
  have w: "wf_receiver r1" "current_seq r1 \<noteq> Some (snd_sequence s1)" "unat (got_frags r1) = 1" "unat (total_frags r1) = 3"
    using r1(2) s1(2) n by (auto simp: holds_def wf_receiver_def)
  have g1: "good_message (payload_per_datagram s1) data" using g s1(3) by simp
  obtain s2 ds r2 where 2: "send_pushing s1 data 0 U32_MAX =
      Inr (of_nat (fragment_count (payload_per_datagram s1) data), s2, ds)"
    "ingest_each r1 None ds = Inr (Some data, r2)" "dropped_sequences r2 = dropped_sequences (count_drop r1)"
    by (rule sent_and_received [OF s1(1) g1 w(1), of 0 U32_MAX None]) (use r r1(3) w(2) in auto)
  have "dropped_sequences r2 = 1" using 2(3) d1 w(3,4) by (simp add: count_drop_def)
  moreover have "index 0 (frames 0 ?ppd data 0 U32_MAX) = Inr (frame 0 ?ppd data 0 U32_MAX 0)"
    using i by (simp add: index_ok)
  ultimately show ?thesis
    unfolding dropped_sequence_counted_def Let_def data_def [symmetric] r_def [symmetric]
    using s1(4) r1(1) 2(1,2) by simp
qed

section \<open>The tests with LZ4\<close>

text \<open>The functions of \<open>lz4_flex::block\<close>: the bound, and the two routines that fill an output buffer
  and return the length written, or fail.\<close>

record lz4 =
  get_maximum_output_size :: "nat \<Rightarrow> nat"
  compress_into :: "byte list \<Rightarrow> byte list \<Rightarrow> nat option \<times> byte list"
  decompress_into :: "byte list \<Rightarrow> byte list \<Rightarrow> nat option \<times> byte list"

definition compressed :: "lz4 \<Rightarrow> byte list \<Rightarrow> byte list test" where
  "compressed z data =
     (case compress_into z data (replicate (get_maximum_output_size z (length data)) 0) of
        (n, buf) \<Rightarrow> rbind (unwrap_some n) (\<lambda>compressed_len. run_code (slice 0 compressed_len buf)))"

definition decompressed :: "lz4 \<Rightarrow> byte list \<Rightarrow> nat \<Rightarrow> byte list test" where
  "decompressed z data sz =
     (case decompress_into z data (replicate sz 0) of (n, buf) \<Rightarrow> rbind (unwrap_some n) (\<lambda>_. Inr buf))"

definition lz4_round_trip_through_protocol :: "lz4 \<Rightarrow> unit test" where
  "lz4_round_trip_through_protocol z =
     (let original = bytes_mod 12000 13 in
      rbind (compressed z original) (\<lambda>comp.
      rbind (send_pushing sender_new comp 99 0x4000) (\<lambda>(_, _, datagrams).
      rbind (ingest_each (receiver_new (length comp + MAX_PAYLOAD_PER_DATAGRAM)) None datagrams) (\<lambda>(result, r).
      rbind (unwrap_some result) (\<lambda>assembled_comp.
      rbind (assert_that (assembled_comp = comp)) (\<lambda>_.
      rbind (decompressed z assembled_comp (length original)) (\<lambda>decomp.
      rbind (assert_that (decomp = original)) (\<lambda>_.
      rbind (assert_that (last_source_us r = 99)) (\<lambda>_.
      assert_that (last_buf_offset r = 0x4000))))))))))"

fun bump_each :: "nat list \<Rightarrow> byte list \<Rightarrow> byte list test" where
  "bump_each [] cur = Inr cur"
| "bump_each (i # is) cur =
     rbind (run_code (index i cur)) (\<lambda>b. rbind (run_code (store i [b + 1] cur)) (bump_each is))"

definition xor_delta_round_trip :: "endian \<Rightarrow> lz4 \<Rightarrow> unit test" where
  "xor_delta_round_trip e z =
     (let sz = 16000; prev = bytes_mod sz 251 in
      rbind (bump_each (map (\<lambda>k. k * 20) [0..<sz div 20]) prev) (\<lambda>current.
      rbind (run_code (xor_delta e current prev (replicate sz 0))) (\<lambda>delta.
      rbind (compressed z delta) (\<lambda>comp.
      rbind (compressed z current) (\<lambda>raw.
      rbind (assert_that (length comp < length raw)) (\<lambda>_.
      rbind (decompressed z comp sz) (\<lambda>decomp.
      rbind (run_code (xor_delta e decomp prev (replicate sz 0))) (\<lambda>reconstructed.
      assert_that (reconstructed = current)))))))))"

definition xor_delta_zeroed_prev :: "endian \<Rightarrow> unit test" where
  "xor_delta_zeroed_prev e =
     (let sz = 4000; current = bytes_mod sz 199; prev = replicate sz 0 in
      rbind (run_code (xor_delta e current prev (replicate sz 0))) (\<lambda>delta.
      rbind (assert_that (delta = current)) (\<lambda>_.
      rbind (run_code (xor_delta e delta prev (replicate sz 0))) (\<lambda>reconstructed.
      assert_that (reconstructed = current)))))"

lemma xor_delta_zeroed_prev_passes: "passes (xor_delta_zeroed_prev e)"
  by (simp add: xor_delta_zeroed_prev_def Let_def xor_delta_returns xor_bytes_zero)

text \<open>What the crate documents: a buffer of the maximum size is large enough, and decompressing into
  a buffer of the original size gives the original back.\<close>

definition lossless :: "lz4 \<Rightarrow> bool" where
  "lossless z \<longleftrightarrow> (\<forall>data. data \<noteq> [] \<longrightarrow> (\<exists>c. c \<noteq> [] \<and> compressed z data = Inr c \<and>
     length c \<le> 20 + 2 * length data \<and> decompressed z c (length data) = Inr data))"

lemma losslessE:
  assumes "lossless z" "data \<noteq> []"
  obtains c where "c \<noteq> []" "compressed z data = Inr c" "length c \<le> 20 + 2 * length data"
    "decompressed z c (length data) = Inr data"
  using assms unfolding lossless_def by blast

text \<open>A compressor that stores its input is one: the two statements below are not vacuous.\<close>

definition stored :: "byte list \<Rightarrow> byte list \<Rightarrow> nat option \<times> byte list" where
  "stored data out = (if length data \<le> length out then (Some (length data), blit 0 data out) else (None, out))"

lemma lossless_stored: "lossless \<lparr>get_maximum_output_size = id, compress_into = stored, decompress_into = stored\<rparr>"
proof -
  have "blit 0 data (replicate (length data) 0) = data" for data :: "byte list" by (simp add: blit_def)
  then show ?thesis
    by (simp add: lossless_def compressed_def decompressed_def stored_def slice_ok)
qed

lemma last_offset_of_assembled:
  assumes "wf_receiver r" "ingest r dg = Inr (out, r')" "assembled out = Some p"
  shows "last_buf_offset r' = ing_buf_offset out"
proof -
  let ?r2 = "switched r (read_header dg)"
  have "HEADER_SIZE \<le> length dg" "hdr_fragments (read_header dg) \<noteq> 0"
    using assms(2,3) by (auto simp: ingest_def ingested_default_def Let_def split: if_splits)
  with assms show ?thesis
    using store_fragment_eq [OF wf_switched [OF assms(1)], of "unat (hdr_fragment (read_header dg))"]
    by (auto simp: ingest_data Let_def ingested_default_def split: if_splits)
qed

lemma lz4_round_trip_through_protocol_passes:
  assumes "lossless z"
  shows "passes (lz4_round_trip_through_protocol z)"
proof -
  define data where "data = bytes_mod 12000 13"
  let ?ppd = MAX_PAYLOAD_PER_DATAGRAM
  have len: "length data = 12000" by (simp add: data_def)
  then have "data \<noteq> []" by auto
  then obtain c where c: "c \<noteq> []" "compressed z data = Inr c" "length c \<le> 20 + 2 * length data"
    "decompressed z c (length data) = Inr data"
    by (rule losslessE [OF assms])
  have g: "good_message ?ppd c" using c(1,3) len by (intro default_good_message) (simp_all add: wire_consts)
  let ?r = "receiver_new (length c + ?ppd)"
  obtain m where m: "fragment_count ?ppd c = Suc m"
    using good_message_bounds(2) [OF g] by (auto simp: gr0_conv_Suc)
  let ?f = "frame 0 ?ppd c 99 0x4000"
  have "set [0..<m] \<subseteq> {..<fragment_count ?ppd c}" "m \<notin> set [0..<m]"
    "insert m (set [0..<m]) = {..<fragment_count ?ppd c}" "placeable ?ppd c {} (hd ([0..<m] @ [m]))"
    using m by (auto simp: placeable_def)
  from deliver_all [OF g wf_receiver_new _ _ this, of "length c + ?ppd" 0 99 "0x4000"]
  obtain r' where r': "ingest_all ?r (map ?f [0..<m] @ [?f m]) = Inr (map quiet [0..<m] @ [complete c 0x4000 m], r')"
    "last_source_us r' = 99" by auto
  have each: "ingest_each ?r None (frames 0 ?ppd c 99 0x4000) = Inr (Some c, r')"
    using ingest_each_eq [OF r'(1), of None] by (simp add: fold_quiet complete_def frames_def m)
  obtain r1 where "wf_receiver r1" "ingest r1 (?f m) = Inr (complete c 0x4000 m, r')"
  proof -
    obtain outs r1 where a: "ingest_all ?r (map ?f [0..<m]) = Inr (outs, r1)" "wf_receiver r1"
      using rx.run_returns [of ?r "length c + ?ppd" "map ?f [0..<m]"] by (auto simp: list_all_iff)
    obtain out r2 where b: "ingest r1 (?f m) = Inr (out, r2)" using ingest_ok [OF a(2)] by metis
    have "Inr (outs @ [out], r2) = ingest_all ?r (map ?f [0..<m] @ [?f m])"
      using a(1) b by (simp add: run_append)
    then show ?thesis using that [OF a(2)] b r'(1) by auto
  qed
  then have "last_buf_offset r' = 0x4000"
    using last_offset_of_assembled [of r1 "?f m"] by (auto simp: complete_def)
  moreover obtain s' where "send_pushing sender_new c 99 0x4000 =
      Inr (of_nat (fragment_count ?ppd c), s', frames 0 ?ppd c 99 0x4000)"
    by (rule send_pushing_eq [OF default_sender(1), of c 99 "0x4000"]) (use good_message_sends [OF g] in auto)
  ultimately show ?thesis
    unfolding lz4_round_trip_through_protocol_def Let_def data_def [symmetric]
    using c(2,4) each r'(2) by simp
qed

lemma bump_each_ok:
  "\<forall>i \<in> set is. i < length cur \<Longrightarrow> \<exists>cur'. bump_each is cur = Inr cur' \<and> length cur' = length cur"
proof (induction "is" arbitrary: cur)
  case (Cons i "is")
  then have "i < length cur" "\<forall>k \<in> set is. k < length (cur[i := cur ! i + 1])" by simp_all
  with Cons.IH [of "cur[i := cur ! i + 1]"] show ?case by (simp add: index_ok store_ok)
qed simp

text \<open>The XOR test makes an assertion about the compressor only: that the delta compresses better
  than the raw buffer. It passes exactly when that is so; everything else in it always holds.\<close>

lemma xor_delta_round_trip_passes:
  assumes "lossless z"
  obtains current comp raw where
    "bump_each (map (\<lambda>k. k * 20) [0..<800]) (bytes_mod 16000 251) = Inr current"
    "compressed z (xor_bytes current (bytes_mod 16000 251)) = Inr comp" "compressed z current = Inr raw"
    "passes (xor_delta_round_trip e z) \<longleftrightarrow> length comp < length raw"
proof -
  define prev where "prev = bytes_mod 16000 251"
  have len: "length prev = 16000" by (simp add: prev_def)
  have "\<forall>i \<in> set (map (\<lambda>k. k * 20) [0..<800]). i < length prev" by (auto simp: len)
  then obtain current where cur: "bump_each (map (\<lambda>k. k * 20) [0..<800]) prev = Inr current"
    "length current = 16000"
    using bump_each_ok [of "map (\<lambda>k. k * 20) [0..<800]" prev] len by auto
  let ?delta = "xor_bytes current prev"
  have ne: "current \<noteq> []" "?delta \<noteq> []" and ld: "length ?delta = 16000"
    using cur(2) len by (auto simp flip: length_greater_0_conv)
  obtain raw where raw: "compressed z current = Inr raw" by (rule losslessE [OF assms ne(1)])
  obtain comp where "compressed z ?delta = Inr comp" "decompressed z comp 16000 = Inr ?delta"
    by (rule losslessE [OF assms ne(2)]) (simp only: ld)
  note z = this(1) raw this(2)
  have "passes (xor_delta_round_trip e z) \<longleftrightarrow> length comp < length raw"
    unfolding xor_delta_round_trip_def Let_def prev_def [symmetric]
    using cur z len ld xor_bytes_cancel [of current prev]
    by (cases "length comp < length raw") (simp_all add: xor_delta_returns)
  with cur(1) z(1,2) that show ?thesis unfolding prev_def by blast
qed

end
