(* ===== verification/Ibt_File.thy ===== *)
theory Ibt_File
  imports Ibt_Session
begin

text \<open>
  The file a session leaves, byte for byte: the open file is a function of the rows recorded so
  far, every update appends to the rows, and closing patches the tick and the sub-header with the
  session times and the lap count of those rows.
\<close>

section \<open>The running statistics\<close>

text \<open>The session time and the lap of a row, where the layout has the variable and the row is
  long enough.\<close>

definition row_time :: "map_layout \<Rightarrow> byte list \<Rightarrow> u64 option" where
  "row_time lay row = (case lay_session_time_row_off lay of
      None \<Rightarrow> None
    | Some off \<Rightarrow> if off + 8 \<le> length row then Some (of_le (take 8 (drop off row))) else None)"

definition row_lap :: "map_layout \<Rightarrow> byte list \<Rightarrow> i32 option" where
  "row_lap lay row = (case lay_lap_row_off lay of
      None \<Rightarrow> None
    | Some off \<Rightarrow> if off + 4 \<le> length row then Some (i32_at row off) else None)"

text \<open>The first session time, and the greatest one (a NaN never replaces another time).\<close>

definition later :: "u64 \<Rightarrow> u64 \<Rightarrow> u64" where
  "later e t = (if f64_gt t e then t else e)"

definition time_span :: "u64 list \<Rightarrow> u64 \<times> u64" where
  "time_span ts = (case ts of [] \<Rightarrow> (0, 0) | t # ts' \<Rightarrow> (t, foldl later t ts'))"

text \<open>The number of laps begun, and the lap last begun.\<close>

definition count_lap :: "i32 \<times> i32 \<Rightarrow> i32 \<Rightarrow> i32 \<times> i32" where
  "count_lap a lap = (if sint (snd a) < sint lap then (fst a + 1, lap) else a)"

definition lap_tally :: "i32 list \<Rightarrow> i32 \<times> i32" where
  "lap_tally ls = (case ls of [] \<Rightarrow> (0, I32_MIN) | l # _ \<Rightarrow> foldl count_lap (0, l - 1) ls)"

lemma time_span_snoc:
  "time_span (ts @ [t]) = (if ts = [] then (t, t) else (fst (time_span ts), later (snd (time_span ts)) t))"
  by (cases ts) (simp_all add: time_span_def)

lemma tally_simps [simp]:
  "time_span [] = (0, 0)" "time_span [t] = (t, t)"
  "lap_tally [] = (0, I32_MIN)" "lap_tally [l] = count_lap (0, l - 1) l"
  by (simp_all add: time_span_def lap_tally_def)

lemma lap_tally_snoc:
  "lap_tally (ls @ [l]) = count_lap (if ls = [] then (0, l - 1) else lap_tally ls) l"
  by (cases ls) (simp_all add: lap_tally_def)

text \<open>The two folds in their own terms: without NaNs the end time is the greatest of the times, and
  the lap count is the number of rows whose lap exceeds every earlier one.\<close>

lemma later_greatest:
  "\<forall>t \<in> set (e # ts). \<not> f64_nan t \<Longrightarrow>
   foldl later e ts \<in> set (e # ts) \<and> (\<forall>t \<in> set (e # ts). f64_key t \<le> f64_key (foldl later e ts))"
proof (induction ts arbitrary: e)
  case (Cons t ts)
  have "later e t = e \<or> later e t = t" "f64_key e \<le> f64_key (later e t)" "f64_key t \<le> f64_key (later e t)"
    using Cons.prems by (auto simp: later_def f64_gt_def)
  with Cons.IH [of "later e t"] Cons.prems show ?case by fastforce
qed simp

lemma time_span_greatest:
  assumes "ts \<noteq> []" "\<forall>t \<in> set ts. \<not> f64_nan t"
  shows "fst (time_span ts) = hd ts" "snd (time_span ts) \<in> set ts"
    "\<forall>t \<in> set ts. f64_key t \<le> f64_key (snd (time_span ts))"
  using assms later_greatest [of "hd ts" "tl ts"] by (cases ts; simp add: time_span_def)+

definition lap_starts :: "i32 list \<Rightarrow> nat set" where
  "lap_starts ls = {i. i < length ls \<and> (\<forall>j < i. sint (ls ! j) < sint (ls ! i))}"

lemma lap_starts_snoc:
  "lap_starts (ls @ [l]) = lap_starts ls \<union> (if \<forall>x \<in> set ls. sint x < sint l then {length ls} else {})"
  unfolding lap_starts_def
  by (auto simp: nth_append all_set_conv_all_nth less_Suc_eq split: if_splits)

lemma lap_tally_counts:
  assumes "ls \<noteq> []" "hd ls \<noteq> I32_MIN"
  shows "lap_tally ls = (of_nat (card (lap_starts ls)), snd (lap_tally ls)) \<and> snd (lap_tally ls) \<in> set ls \<and>
    (\<forall>l \<in> set ls. sint l \<le> sint (snd (lap_tally ls)))"
  using assms
proof (induction ls rule: rev_induct)
  case (snoc l ls)
  show ?case
  proof (cases "ls = []")
    case True
    have "sint (l - 1) < sint l"
    proof -
      have "sint l \<noteq> - (2 ^ 31)"
      proof
        assume "sint l = - (2 ^ 31)"
        then have "sint l = sint I32_MIN" by (simp add: I32_MIN_def)
        then show False using snoc.prems(2) True by (simp add: signed_word_eqI)
      qed
      then have "- (2 ^ 31) \<le> sint l - 1" "sint l - 1 < 2 ^ 31"
        using sint_ge [of l] sint_lt [of l] by simp_all
      then have "sint (l - 1) = sint l - 1" by (simp add: sint_word_ariths signed_take_bit_int_eq_self)
      then show ?thesis by simp
    qed
    moreover have "lap_starts [l] = {0}" by (auto simp: lap_starts_def)
    ultimately show ?thesis using True by (simp add: count_lap_def)
  next
    case False
    define k where "k = card (lap_starts ls)"
    define m where "m = snd (lap_tally ls)"
    have IH: "lap_tally ls = (of_nat k, m)" "m \<in> set ls" "\<forall>x \<in> set ls. sint x \<le> sint m"
      using snoc False by (simp_all add: k_def m_def)
    have new: "(\<forall>x \<in> set ls. sint x < sint l) \<longleftrightarrow> sint m < sint l" using IH(2,3) by fastforce
    have "finite (lap_starts ls)" "length ls \<notin> lap_starts ls" by (auto simp: lap_starts_def)
    then have "card (lap_starts (ls @ [l])) = (if sint m < sint l then Suc k else k)"
      by (simp add: lap_starts_snoc new k_def)
    then show ?thesis
      using False IH by (auto simp: lap_tally_snoc count_lap_def add.commute intro: less_imp_le dest: order_trans)
  qed
qed simp

abbreviation session_times :: "map_layout \<Rightarrow> byte list list \<Rightarrow> u64 list" where
  "session_times lay rows \<equiv> List.map_filter (row_time lay) rows"

abbreviation session_laps :: "map_layout \<Rightarrow> byte list list \<Rightarrow> i32 list" where
  "session_laps lay rows \<equiv> List.map_filter (row_lap lay) rows"

lemma map_filter_snoc [simp]:
  "List.map_filter f (xs @ [x]) = List.map_filter f xs @ (case f x of None \<Rightarrow> [] | Some y \<Rightarrow> [y])"
  by (induction xs) (auto simp: List.map_filter_def split: option.split)

text \<open>Rows of one length have the variable in all of them or in none.\<close>

lemma times_empty:
  assumes "\<forall>r \<in> set rows. length r = length row" "row_time lay row = Some t"
  shows "session_times lay rows = [] \<longleftrightarrow> rows = []"
  using assms by (cases rows) (auto simp: row_time_def List.map_filter_def split: option.splits if_splits)

lemma laps_empty:
  assumes "\<forall>r \<in> set rows. length r = length row" "row_lap lay row = Some l"
  shows "session_laps lay rows = [] \<longleftrightarrow> rows = []"
  using assms by (cases rows) (auto simp: row_lap_def List.map_filter_def split: option.splits if_splits)

section \<open>The open file as a function of its rows\<close>

definition open_of :: "map_layout \<Rightarrow> u64 \<Rightarrow> byte list \<Rightarrow> byte list list \<Rightarrow> i32 \<Rightarrow> open_ibt" where
  "open_of lay date prefix rows tick =
     \<lparr>ibt_file = \<lparr>file_bytes = prefix @ concat rows, file_pos = length (prefix @ concat rows)\<rparr>,
      ibt_layout = lay, start_date = date, record_count = of_nat (length rows),
      start_time = fst (time_span (session_times lay rows)), end_time = snd (time_span (session_times lay rows)),
      lap_count = fst (lap_tally (session_laps lay rows)), last_lap = snd (lap_tally (session_laps lay rows)),
      row_tick = tick\<rparr>"

lemma track_time_eq:
  assumes "row_offs_ok (ibt_layout op)" "length row < 2 ^ 62"
  shows "track_time row op = Inr (case row_time (ibt_layout op) row of None \<Rightarrow> op
    | Some t \<Rightarrow> if record_count op = 1 then op\<lparr>start_time := t, end_time := t\<rparr>
                else op\<lparr>end_time := later (end_time op) t\<rparr>)"
proof (cases "lay_session_time_row_off (ibt_layout op)")
  case None
  then show ?thesis by (simp add: track_time_def row_time_def)
next
  case (Some off)
  then have "off < 2 ^ 31" using assms(1) unfolding row_offs_ok_def by blast
  then have "uadd off 8 = off + 8" by simp
  then show ?thesis using Some
    by (cases op, cases "off + 8 \<le> length row") (simp_all add: track_time_def row_time_def later_def slice_ok Let_def)
qed

lemma track_lap_eq:
  assumes "row_offs_ok (ibt_layout op)" "length row < 2 ^ 62"
  shows "track_lap row op = Inr (case row_lap (ibt_layout op) row of None \<Rightarrow> op
    | Some l \<Rightarrow> let a = count_lap (lap_count op, if record_count op = 1 then l - 1 else last_lap op) l
                in op\<lparr>lap_count := fst a, last_lap := snd a\<rparr>)"
proof (cases "lay_lap_row_off (ibt_layout op)")
  case None
  then show ?thesis by (simp add: track_lap_def row_lap_def)
next
  case (Some off)
  then have "off < 2 ^ 31" using assms(1) unfolding row_offs_ok_def by blast
  then have u: "uadd off 4 = off + 4" by simp
  show ?thesis
  proof (cases "off + 4 \<le> length row")
    case True
    define l q where "l = i32_at row off" and "q = l - 1"
    have "track_lap row op =
        Inr (let op1 = (if record_count op = 1 then op\<lparr>last_lap := q\<rparr> else op)
             in if sint (last_lap op1) < sint l then op1\<lparr>lap_count := lap_count op1 + 1, last_lap := l\<rparr> else op1)"
      using True Some u by (simp add: track_lap_def rd_i32_ok Let_def l_def q_def)
    also have "\<dots> = Inr (let a = count_lap (lap_count op, if record_count op = 1 then q else last_lap op) l
        in op\<lparr>lap_count := fst a, last_lap := snd a\<rparr>)"
      by (cases op) (simp add: count_lap_def Let_def)
    finally show ?thesis using True Some unfolding row_lap_def l_def q_def by simp
  qed (use Some u in \<open>simp add: track_lap_def row_lap_def\<close>)
qed

text \<open>Counting a row that has been written takes \<open>open_of rows\<close> to \<open>open_of (rows @ [row])\<close>.\<close>

lemma counted_row:
  assumes "row_offs_ok lay" "length row < 2 ^ 62" "length rows < 2 ^ 31" "\<forall>r \<in> set rows. length r = length row"
    and "op = (open_of lay date prefix rows t)\<lparr>row_tick := tick,
      ibt_file := \<lparr>file_bytes = prefix @ concat rows @ row, file_pos = length (prefix @ concat rows) + length row\<rparr>,
      record_count := of_nat (length rows) + 1\<rparr>"
  shows "rbind (track_time row op) (track_lap row) = Inr (open_of lay date prefix (rows @ [row]) tick)"
proof -
  have "(of_nat (length rows) + 1 = (1 :: i32)) = (of_nat (length rows) = (0 :: i32))" by simp
  also have "\<dots> = (rows = [])"
  proof -
    have "length rows < 2 ^ LENGTH(32)" using assms(3) by simp
    then have "unat (of_nat (length rows) :: i32) = length rows" by (rule unat_of_nat_small)
    then show ?thesis by (metis length_0_conv unat_eq_zero unsigned_0)
  qed
  finally have one: "(of_nat (length rows) + 1 = (1 :: i32)) = (rows = [])" .
  define op1 where "op1 = op\<lparr>start_time := fst (time_span (session_times lay (rows @ [row]))),
    end_time := snd (time_span (session_times lay (rows @ [row])))\<rparr>"
  have "track_time row op = Inr op1"
    using track_time_eq [of op row] assms(1,2,5) one times_empty [OF assms(4), of lay]
    by (auto simp: op1_def open_of_def time_span_snoc split: option.split)
  moreover have "track_lap row op1 = Inr (open_of lay date prefix (rows @ [row]) tick)"
    using track_lap_eq [of op1 row] assms(1,2,5) one laps_empty [OF assms(4), of lay]
    by (auto simp: op1_def open_of_def lap_tally_snoc Let_def split: option.split)
  ultimately show ?thesis by simp
qed

section \<open>Updates and closing\<close>

lemma open_of_simps [simp]:
  "ibt_layout (open_of lay date prefix rows tick) = lay"
  "row_tick (open_of lay date prefix rows tick) = tick"
  "record_count (open_of lay date prefix rows tick) = of_nat (length rows)"
  "ibt_file (open_of lay date prefix rows tick) =
     \<lparr>file_bytes = prefix @ concat rows, file_pos = length (prefix @ concat rows)\<rparr>"
  by (simp_all add: open_of_def)

definition rows_of :: "map_layout \<Rightarrow> byte list list \<Rightarrow> bool" where
  "rows_of lay rows \<longleftrightarrow> length rows < 2 ^ 31 \<and> (\<forall>r \<in> set rows. length r = lay_buf_len lay)"

lemma update_records:
  assumes "sample_map (lay_session_info_update lay) (lay_buf_len lay) d" "io_row io = None"
    and "row_offs_ok lay" "lay_buf_len lay < 2 ^ 31" "rows_of lay rows"
    and "ibt_open w = Some (open_of lay date prefix rows t)"
  shows "on_map_update d io w = Inr (w\<lparr>ibt_open :=
    Some (open_of lay date prefix (rows @ tick_rows (lay_buf_len lay) t [d]) (fst (active_sample d)))\<rparr>)"
proof -
  let ?n = "lay_buf_len lay"
  obtain tick off where s: "active_sample d = (tick, off)" by (cases "active_sample d") auto
  have d: "112 \<le> length d" "offsets_nonneg d" "length d < 2 ^ 62" "off + ?n \<le> length d"
    using assms(1) s by (simp_all add: sample_map_def map_ok_def connected_map_def MAX_TELEMETRY_SIZE_def)
  have a: "active_varbuf d = Inr (Some (tick, off))" "off < 2 ^ 31"
    using active_sample_ok [OF d(1,2)] s by simp_all
  have "parse_layout d = Inr (Some (layout_of d))" "lay_session_info_update (layout_of d) = lay_session_info_update lay"
    using assms(1) map_ok_parse(1) [of d] by (simp_all add: sample_map_def layout_of_def)
  then have u: "on_map_update d io w = append_row io d w"
    using assms(6) by (simp add: on_map_update_def)
  show ?thesis
  proof (cases "tick = t")
    case True
    then show ?thesis using u a(1) s assms(6) by (cases w) (simp add: append_row_def)
  next
    case False
    let ?row = "take ?n (drop off d)"
    have row: "uadd off ?n = off + ?n" "slice off (off + ?n) d = Inr ?row" "length ?row = ?n"
      using a(2) assms(4) d(4) by (simp_all add: slice_ok)
    have w: "write_all None ?row \<lparr>file_bytes = prefix @ concat rows, file_pos = length (prefix @ concat rows)\<rparr> =
        (True, \<lparr>file_bytes = prefix @ concat rows @ ?row, file_pos = length (prefix @ concat rows) + length ?row\<rparr>)"
      by (simp add: write_end)
    have "length ?row < 2 ^ 62" "length rows < 2 ^ 31" "\<forall>r \<in> set rows. length r = length ?row"
      using assms(4,5) row(3) by (simp_all add: rows_of_def)
    from counted_row [OF assms(3) this refl, where date = date and prefix = prefix and t = t and tick = tick]
    have "rbind (track_time ?row ((open_of lay date prefix rows t)\<lparr>row_tick := tick,
        ibt_file := \<lparr>file_bytes = prefix @ concat rows @ ?row, file_pos = length (prefix @ concat rows) + length ?row\<rparr>,
        record_count := of_nat (length rows) + 1\<rparr>)) (\<lambda>op2. rbind (track_lap ?row op2) (\<lambda>op3. Inr (w\<lparr>ibt_open := Some op3\<rparr>))) =
      Inr (w\<lparr>ibt_open := Some (open_of lay date prefix (rows @ [?row]) tick)\<rparr>)"
      by (auto simp: rbind_eq_Inr)
    then show ?thesis using False u a(1) s assms(2,6) row(1,2) d(4) w by (simp add: append_row_def Let_def)
  qed
qed

lemma length_tick_rows: "length (tick_rows n t ds) \<le> length ds"
  by (induction ds arbitrary: t) (auto simp: split_beta le_SucI)

lemma tick_rows_full:
  "\<forall>d \<in> set ds. snd (active_sample d) + n \<le> length d \<Longrightarrow> \<forall>r \<in> set (tick_rows n t ds). length r = n"
  by (induction ds arbitrary: t) (auto simp: split_beta)

lemma session_records:
  assumes "row_offs_ok lay" "lay_buf_len lay < 2 ^ 31"
    and "\<forall>i \<in> set is. sample_map (lay_session_info_update lay) (lay_buf_len lay) (fst i) \<and> io_row (snd i) = None"
    and "\<forall>r \<in> set rows. length r = lay_buf_len lay" "length rows + length is < 2 ^ 31"
    and "ibt_open w = Some (open_of lay date prefix rows t)"
  shows "\<exists>outs. run ibt_step w is = Inr (outs, w\<lparr>ibt_open := Some (open_of lay date prefix
    (rows @ tick_rows (lay_buf_len lay) t (List.map fst is))
    (if is = [] then t else fst (active_sample (fst (last is)))))\<rparr>)"
  using assms(3-)
proof (induction "is" arbitrary: rows t w)
  case Nil
  then show ?case by (cases w) simp
next
  case (Cons i "is")
  let ?n = "lay_buf_len lay"
  let ?rows = "rows @ tick_rows ?n t [fst i]" and ?t = "fst (active_sample (fst i))"
  let ?w = "w\<lparr>ibt_open := Some (open_of lay date prefix ?rows ?t)\<rparr>"
  have i: "sample_map (lay_session_info_update lay) ?n (fst i)" "io_row (snd i) = None"
    using Cons.prems(1) by simp_all
  have "rows_of lay rows" using Cons.prems(2,3) by (simp add: rows_of_def)
  from update_records [OF i assms(1,2) this Cons.prems(4)]
  have 1: "ibt_step w i = Inr ((), ?w)" by (simp add: ibt_step_def del: tick_rows.simps)
  have full: "\<forall>r \<in> set ?rows. length r = ?n"
  proof -
    have "snd (active_sample (fst i)) + ?n \<le> length (fst i)" using i(1) by (simp add: sample_map_def)
    then have "\<forall>r \<in> set (tick_rows ?n t [fst i]). length r = ?n" by (intro tick_rows_full) simp
    with Cons.prems(2) show ?thesis unfolding set_append by blast
  qed
  have len: "length ?rows + length is < 2 ^ 31"
    using Cons.prems(3) length_tick_rows [of ?n t "[fst i]"] by (simp del: tick_rows.simps)
  have rest: "\<forall>i \<in> set is. sample_map (lay_session_info_update lay) ?n (fst i) \<and> io_row (snd i) = None"
    using Cons.prems(1) by simp
  have "ibt_open ?w = Some (open_of lay date prefix ?rows ?t)" by simp
  from Cons.IH [OF rest full len this] obtain outs where
    "run ibt_step ?w is = Inr (outs, ?w\<lparr>ibt_open := Some (open_of lay date prefix
      (?rows @ tick_rows ?n ?t (List.map fst is)) (if is = [] then ?t else fst (active_sample (fst (last is)))))\<rparr>)" ..
  moreover have "?rows @ tick_rows ?n ?t (List.map fst is) = rows @ tick_rows ?n t (List.map fst (i # is))"
    using tick_rows_append [of ?n t "fst i" "List.map fst is"] by (simp del: tick_rows.simps)
  moreover have "(if is = [] then ?t else fst (active_sample (fst (last is)))) =
      (if i # is = [] then t else fst (active_sample (fst (last (i # is)))))" by simp
  ultimately show ?case using 1 by (simp only: run.simps rbind_simps prod.case) simp
qed

lemma opened_ibt_eq:
  "opened_ibt d date = open_of (layout_of d) date (prefix_of d (layout_of d) date) [] I32_MIN"
  by (simp add: opened_ibt_def open_of_def List.map_filter_def)

text \<open>The first update opens the file and then does what an update of the open file does.\<close>

lemma session_opens:
  assumes "sample_map u n d" "io_fine io"
  shows "on_map_update d io ibt_new = on_map_update d io (ibt_new\<lparr>ibt_open :=
    Some (open_of (layout_of d) (io_now io) (prefix_of d (layout_of d) (io_now io)) [] I32_MIN)\<rparr>)"
proof -
  have d: "map_ok d" "connected_map d" using assms(1) by (simp_all add: sample_map_def)
  have "start_session io d (layout_of d) ibt_new = Inr (ibt_new\<lparr>ibt_open := Some (opened_ibt d (io_now io))\<rparr>)"
    using start_session_eq [OF d, of io ibt_new] assms(2) by (auto simp: io_fine_def)
  then show ?thesis
    using map_ok_parse(1) [OF d(1)] d(2) by (simp add: on_map_update_def ibt_new_def opened_ibt_eq)
qed

text \<open>What \<open>finish\<close> makes of the bytes of an open file.\<close>

definition closed_bytes :: "map_layout \<Rightarrow> u64 \<Rightarrow> byte list list \<Rightarrow> i32 \<Rightarrow> byte list \<Rightarrow> byte list" where
  "closed_bytes lay date rows tick raw =
     take 48 raw @ le_bytes 4 (if rows = [] \<or> tick = I32_MIN then 0 else tick) @ take 60 (drop 52 raw)
     @ subheader_bytes date (fst (time_span (session_times lay rows))) (snd (time_span (session_times lay rows)))
         (fst (lap_tally (session_laps lay rows))) (of_nat (length rows))
     @ drop 144 raw"

lemma finish_closes:
  assumes "ibt_open w = Some (open_of lay date prefix rows tick)" "io_fine io" "144 \<le> length prefix"
    and "length rows < 2 ^ 31"
  shows "finish io w = w\<lparr>ibt_open := None,
    ibt_disk := ibt_disk w @ [closed_bytes lay date rows tick (prefix @ concat rows)]\<rparr>"
proof -
  have "sint (of_nat (length rows) :: i32) = int (length rows)" by (rule of_nat_field [OF assms(4)])
  then have "(0 < sint (of_nat (length rows) :: i32) \<and> tick \<noteq> I32_MIN) \<longleftrightarrow> \<not> (rows = [] \<or> tick = I32_MIN)" by auto
  then show ?thesis
    using assms(1-3)
    by (simp add: finish_def write_all_def io_fine_def IRSDK_HEADER_SIZE_def Let_def closed_bytes_def
        open_of_def blit_def drop_take)
qed

section \<open>The file of a session\<close>

lemma session_leaves:
  assumes "parse_layout d = Inr (Some lay)" "sample_map u (lay_buf_len lay) d" "io_fine io"
    and "\<forall>i\<in>set is. sample_map u (lay_buf_len lay) (fst i) \<and> io_fine (snd i)" "io_fine io'"
    and "length is < 2 ^ 30"
  shows "\<exists>outs w prefix. run ibt_step ibt_new ((d, io) # is) = Inr (outs, w) \<and>
    build_prefix d lay (io_now io) = Inr prefix \<and> ibt_open (finish io' w) = None \<and>
    (let maps = d # List.map fst is; rows = tick_rows (lay_buf_len lay) I32_MIN maps in
     ibt_disk (finish io' w) =
       [closed_bytes lay (io_now io) rows (fst (active_sample (last maps))) (prefix @ concat rows)])"
proof -
  let ?n = "lay_buf_len lay" and ?is = "(d, io) # is"
  have d: "map_ok d" "connected_map d" "i32_at d 12 = u" using assms(2) by (simp_all add: sample_map_def)
  then have lay: "lay = layout_of d" using map_ok_parse(1) [OF d(1)] assms(1) by simp
  let ?p = "prefix_of d lay (io_now io)" and ?rows = "tick_rows ?n I32_MIN (d # List.map fst is)"
  let ?w = "ibt_new\<lparr>ibt_open := Some (open_of lay (io_now io) ?p [] I32_MIN)\<rparr>"
  have fits: "layout_fits d lay" using map_ok_parse(2) [OF d(1,2)] lay by simp
  have l: "row_offs_ok lay" "lay_buf_len lay < 2 ^ 31" "lay_session_info_update lay = u"
    using d(1,3) map_ok_parse(3) [OF d(1)] lay by (simp_all add: map_ok_def layout_of_def)
  have "\<forall>i \<in> set ?is. sample_map (lay_session_info_update lay) ?n (fst i) \<and> io_row (snd i) = None"
    using assms(2-4) l(3) by (auto simp: io_fine_def)
  from session_records [OF l(1,2) this, of "[]" ?w "io_now io" ?p I32_MIN] assms(6) obtain outs where
    "run ibt_step ?w ?is = Inr (outs, ?w\<lparr>ibt_open := Some (open_of lay (io_now io) ?p ?rows
      (fst (active_sample (fst (last ?is)))))\<rparr>)"
    by (auto simp del: tick_rows.simps run.simps)
  moreover have "run ibt_step ibt_new ?is = run ibt_step ?w ?is"
    using session_opens [OF assms(2,3)] lay by (simp add: ibt_step_def)
  moreover have "fst (last ?is) = last (d # List.map fst is)" by (simp add: last_map)
  moreover have "144 \<le> length ?p" using length_prefix_of [OF fits, of "io_now io"] by simp
  moreover have "length ?rows < 2 ^ 31" using length_tick_rows [of ?n I32_MIN "d # List.map fst is"] assms(6) by simp
  ultimately show ?thesis
    using finish_closes [OF _ assms(5)] build_prefix_eq [OF fits, of "io_now io"] unfolding Let_def
    by (intro exI [of _ outs] exI [of _ "?w\<lparr>ibt_open := Some (open_of lay (io_now io) ?p ?rows
        (fst (active_sample (last (d # List.map fst is)))))\<rparr>"] exI [of _ ?p] conjI)
      (simp_all add: ibt_new_def del: tick_rows.simps)
qed

text \<open>C6: A session written without I/O errors ends as one file, known byte for byte: the prefix
  built from the session's first map and one row per change of tick after it, in order the active
  buffers of the maps; closing it writes the tick of the last map and the sub-header, with the
  opening date, the first and the greatest session time of the rows, the number of times the lap
  rose, and the number of rows.\<close>

theorem ibt_session_file:
  assumes "parse_layout d = Inr (Some lay)" "sample_map u (lay_buf_len lay) d" "io_fine io"
    and "\<forall>i\<in>set is. sample_map u (lay_buf_len lay) (fst i) \<and> io_fine (snd i)" "io_fine io'"
    and "length is < 2 ^ 30"
  shows "\<exists>outs w prefix. run ibt_step ibt_new ((d, io) # is) = Inr (outs, w) \<and>
    build_prefix d lay (io_now io) = Inr prefix \<and> ibt_open (finish io' w) = None \<and>
    (let maps = d # List.map fst is; rows = tick_rows (lay_buf_len lay) I32_MIN maps in
     ibt_disk (finish io' w) =
       [closed_bytes lay (io_now io) rows (fst (active_sample (last maps))) (prefix @ concat rows)])"
  by (rule session_leaves [OF assms])

theorem ibt_session_file_witness:
  "\<exists>outs w prefix. run ibt_step ibt_new
      [(demo_ibt 5 [1, 2], demo_io), (demo_ibt 5 [1, 2], demo_io), (demo_ibt 6 [3, 4], demo_io)] = Inr (outs, w) \<and>
    ibt_disk (finish demo_io w) = [take 48 prefix @ le_bytes 4 (6 :: i32) @ take 60 (drop 52 prefix) @
      subheader_bytes 1700000000 0 0 0 2 @ drop 144 prefix @ [1, 2, 3, 4]] \<and> length prefix = 289"
proof -
  let ?d = "demo_ibt 5 [1, 2]" and ?e = "demo_ibt 6 [3, 4]"
  have p: "parse_layout ?d = Inr (Some (layout_of ?d))" by (rule demo_ibt_ok) simp
  have rows: "tick_rows 2 I32_MIN [?d, ?d, ?e] = [[1, 2], [3, 4]]"
    by (simp add: demo_ibt_ok demo_ibt_row I32_MIN_def)
  have l: "lay_buf_len (layout_of ?d) = 2" by (simp add: demo_ibt_layout)
  have fits: "layout_fits ?d (layout_of ?d)" by (rule map_ok_parse(2)) (simp_all add: demo_ibt_ok)
  have "sample_map 0 2 ?d" "sample_map 0 2 ?e" by (simp_all add: demo_ibt_ok)
  then obtain outs w prefix where w:
    "run ibt_step ibt_new [(?d, demo_io), (?d, demo_io), (?e, demo_io)] = Inr (outs, w)"
    "build_prefix ?d (layout_of ?d) 1700000000 = Inr prefix"
    "ibt_disk (finish demo_io w) = [closed_bytes (layout_of ?d) 1700000000 [[1, 2], [3, 4]]
       (fst (active_sample ?e)) (prefix @ concat [[1, 2], [3, 4]])]"
    using ibt_session_file [OF p, of 0 demo_io "[(?d, demo_io), (?e, demo_io)]" demo_io] demo_io_fine rows
    by (auto simp: l Let_def demo_io_def simp del: tick_rows.simps)
  have "prefix = prefix_of ?d (layout_of ?d) 1700000000" using build_prefix_eq [OF fits] w(2) by simp
  then have "length prefix = 289" using length_prefix_of [OF fits] by (simp add: demo_ibt_layout)
  moreover have "row_time (layout_of ?d) r = None" "row_lap (layout_of ?d) r = None" for r
    by (simp_all add: row_time_def row_lap_def demo_ibt_layout)
  ultimately show ?thesis using w
    by (intro exI [of _ outs] exI [of _ w] exI [of _ prefix]) (simp add: closed_bytes_def demo_ibt_ok I32_MIN_def)
qed

end
