(* ===== verification/Ibt_Tests.thy ===== *)
theory Ibt_Tests
  imports Ibt_File Protocol_Tests
begin

text \<open>
  The unit tests of \<open>ibt_writer.rs\<close>, run on the model: a synthetic live map built by the test's
  helpers, a session of five ticks fed through the writer, and every assertion on the file it
  leaves. The file system of the test is one that does what it is asked.
\<close>

section \<open>The helpers\<close>

definition ST_OFF :: nat where
  "ST_OFF = 0"

definition LAP_OFF :: nat where
  "LAP_OFF = 8"

definition SPD_OFF :: nat where
  "SPD_OFF = 12"

definition SYN_BUFLEN :: nat where
  "SYN_BUFLEN = 16"

definition SYN_NUMVARS :: nat where
  "SYN_NUMVARS = 3"

lemmas syn_consts = ST_OFF_def LAP_OFF_def SPD_OFF_def SYN_BUFLEN_def SYN_NUMVARS_def

definition SPEED :: "byte list" where
  "SPEED = [83, 112, 101, 101, 100]"

text \<open>\<open>b[off..off + n].copy_from_slice(src)\<close>, several in a row.\<close>

definition copy_slice :: "nat \<Rightarrow> nat \<Rightarrow> 'a list \<Rightarrow> 'a list \<Rightarrow> 'a list rust" where
  "copy_slice off n src b = (if length src = n then store off src b else Inl Slice_Index)"

fun copy_each :: "(nat \<times> byte list) list \<Rightarrow> byte list \<Rightarrow> byte list rust" where
  "copy_each [] b = Inr b"
| "copy_each ((off, src) # ws) b = rbind (store off src b) (copy_each ws)"

definition varheader :: "i32 \<Rightarrow> i32 \<Rightarrow> byte list \<Rightarrow> byte list rust" where
  "varheader vtype row_off name =
     copy_each [(0, le_bytes 4 vtype), (4, le_bytes 4 row_off), (8, le_bytes 4 (1 :: i32)), (16, name)]
       (replicate VARHEADER_SIZE 0)"

definition synth_fields :: "nat \<Rightarrow> nat \<Rightarrow> nat \<Rightarrow> i32 \<Rightarrow> (nat \<times> i32) list" where
  "synth_fields yaml_len si_off buf_off tick =
     [(0, IRSDK_VER), (4, STATUS_CONNECTED), (8, 60), (16, of_nat yaml_len), (20, of_nat si_off),
      (24, of_nat SYN_NUMVARS), (28, of_nat IRSDK_HEADER_SIZE), (32, 1), (36, of_nat SYN_BUFLEN),
      (48, tick), (52, of_nat buf_off)]"

definition synth_map :: "byte list \<Rightarrow> i32 \<Rightarrow> byte list \<Rightarrow> byte list rust" where
  "synth_map yaml tick row =
     (let vh_off = IRSDK_HEADER_SIZE; si_off = vh_off + SYN_NUMVARS * VARHEADER_SIZE;
          buf_off = si_off + length yaml in
      rbind (copy_each (map (\<lambda>(off, v). (off, le_bytes 4 v)) (synth_fields (length yaml) si_off buf_off tick))
        (replicate (buf_off + SYN_BUFLEN) 0)) (\<lambda>m1.
      rbind (varheader 5 (of_nat ST_OFF) SESSION_TIME) (\<lambda>vh1.
      rbind (varheader 2 (of_nat LAP_OFF) LAP) (\<lambda>vh2.
      rbind (varheader 4 (of_nat SPD_OFF) SPEED) (\<lambda>vh3.
      rbind (copy_slice vh_off VARHEADER_SIZE vh1 m1) (\<lambda>m2.
      rbind (copy_slice (vh_off + VARHEADER_SIZE) VARHEADER_SIZE vh2 m2) (\<lambda>m3.
      rbind (copy_slice (vh_off + VARHEADER_SIZE + VARHEADER_SIZE) VARHEADER_SIZE vh3 m3) (\<lambda>m4.
      rbind (copy_slice si_off (length yaml) yaml m4) (\<lambda>m5.
      copy_slice buf_off SYN_BUFLEN row m5)))))))))"

definition make_row :: "u64 \<Rightarrow> i32 \<Rightarrow> u32 \<Rightarrow> byte list rust" where
  "make_row session_time lap speed =
     copy_each [(ST_OFF, le_bytes 8 session_time), (LAP_OFF, le_bytes 4 lap), (SPD_OFF, le_bytes 4 speed)]
       (replicate SYN_BUFLEN 0)"

section \<open>The synthetic round trip\<close>

text \<open>\<open>if w.open.is_none() { .. start_session .. }\<close> and the two updates with the same map.\<close>

definition open_if_none :: "ibt_io \<Rightarrow> byte list \<Rightarrow> ibt_writer \<Rightarrow> ibt_writer test" where
  "open_if_none io m w =
     (if ibt_open w = None then
        rbind (run_code (parse_layout m)) (\<lambda>parsed.
        rbind (unwrap_some parsed) (\<lambda>layout. run_code (start_session io m layout w)))
      else Inr w)"

fun drive :: "ibt_io \<Rightarrow> byte list \<Rightarrow> i32 \<Rightarrow> byte list list \<Rightarrow> ibt_writer \<Rightarrow> ibt_writer test" where
  "drive io yaml tick [] w = Inr w"
| "drive io yaml tick (row # rows) w =
     rbind (run_code (synth_map yaml tick row)) (\<lambda>m.
     rbind (open_if_none io m w) (\<lambda>w1.
     rbind (run_code (on_map_update m io w1)) (\<lambda>w2.
     rbind (run_code (on_map_update m io w2)) (\<lambda>w3. drive io yaml (tick + 1) rows w3))))"

definition test_yaml :: "byte list" where
  "test_yaml = [45, 45, 45, 10, 87, 101, 101, 107, 101, 110, 100, 73, 110, 102, 111, 58, 10, 32, 84, 114, 97, 99,
     107, 78, 97, 109, 101, 58, 32, 116, 101, 115, 116, 116, 114, 97, 99, 107, 10, 46, 46, 46, 10]"

text \<open>The five rows: session time, lap and speed, the floating-point values as bit patterns.\<close>

definition test_samples :: "(u64 \<times> i32 \<times> u32) list" where
  "test_samples =
     [(0x4059000000000000, 1, 0x41200000),
      (0x4059200000000000, 1, 0x41A00000),
      (0x4059400000000000, 2, 0x41F00000),
      (0x4059600000000000, 2, 0x42200000),
      (0x4059800000000000, 3, 0x42480000)]"

fun all_ok :: "'a rust list \<Rightarrow> 'a list test" where
  "all_ok [] = Inr []"
| "all_ok (r # rs) = rbind (run_code r) (\<lambda>x. rbind (all_ok rs) (\<lambda>xs. Inr (x # xs)))"

fun assert_each :: "bool test list \<Rightarrow> unit test" where
  "assert_each [] = Inr ()"
| "assert_each (t # ts) = rbind t (\<lambda>b. rbind (assert_that b) (\<lambda>_. assert_each ts))"

definition reads :: "byte list \<Rightarrow> nat \<Rightarrow> i32 \<Rightarrow> bool test" where
  "reads data off v = rbind (run_code (rd_i32 data off)) (\<lambda>x. Inr (x = v))"

definition reads64 :: "byte list \<Rightarrow> nat \<Rightarrow> u64 \<Rightarrow> bool test" where
  "reads64 data off v = rbind (run_code (slice off (off + 8) data)) (\<lambda>bs. Inr (of_le bs = v))"

definition slice_is :: "byte list \<Rightarrow> nat \<Rightarrow> nat \<Rightarrow> byte list \<Rightarrow> bool test" where
  "slice_is data off n bs = rbind (run_code (slice off (off + n) data)) (\<lambda>xs. Inr (xs = bs))"

text \<open>The assertions on the file. The subtraction of \<open>sample_area\<close> panics when it underflows, as the
  test profile checks overflow.\<close>

definition check_synthetic :: "byte list \<Rightarrow> byte list \<Rightarrow> byte list list \<Rightarrow> unit test" where
  "check_synthetic yaml data rows =
     rbind (assert_each [reads data 0 IRSDK_VER, reads data 4 STATUS_CONNECTED, reads data 8 60,
       reads data 24 (of_nat SYN_NUMVARS), reads data 36 (of_nat SYN_BUFLEN), reads data 32 1,
       reads data 28 144]) (\<lambda>_.
     rbind (run_code (rd_i32 data 20)) (\<lambda>so. rbind (run_code (rd_i32 data 16)) (\<lambda>sl.
     let si_off = usize_of_i32 so; si_len = usize_of_i32 sl in
     rbind (assert_that (si_off = 144 + SYN_NUMVARS * VARHEADER_SIZE)) (\<lambda>_.
     rbind (assert_that (si_len = length yaml)) (\<lambda>_.
     rbind (run_code (rd_i32 data 52)) (\<lambda>bo.
     let buf_off = usize_of_i32 bo in
     rbind (assert_that (buf_off = si_off + si_len)) (\<lambda>_.
     rbind (assert_that (buf_off \<le> length data)) (\<lambda>_.
     let sample_area = length data - buf_off in
     rbind (assert_that (sample_area mod SYN_BUFLEN = 0)) (\<lambda>_.
     rbind (assert_that (sample_area div SYN_BUFLEN = length rows)) (\<lambda>_.
     assert_each ([slice_is data si_off si_len yaml, reads64 data 112 1700000000,
       reads64 data 120 0x4059000000000000, reads64 data 128 0x4059800000000000,
       reads data 140 (of_nat (length rows)), reads data 136 3] @
       map (\<lambda>i. slice_is data (buf_off + i * SYN_BUFLEN) SYN_BUFLEN (rows ! i)) [0..<length rows])))))))))))"

definition synthetic_roundtrip :: "ibt_io \<Rightarrow> unit test" where
  "synthetic_roundtrip io =
     rbind (all_ok (map (\<lambda>(t, lap, speed). make_row t lap speed) test_samples)) (\<lambda>rows.
     rbind (drive io test_yaml 1 rows ibt_new) (\<lambda>w.
     let w' = finish io w in
     rbind (unwrap_some (case ibt_disk w' of [] \<Rightarrow> None | data # _ \<Rightarrow> Some data)) (\<lambda>data.
     check_synthetic test_yaml data rows)))"

section \<open>The synthetic map\<close>

definition vh_bytes :: "i32 \<Rightarrow> i32 \<Rightarrow> byte list \<Rightarrow> byte list" where
  "vh_bytes vtype row_off name = le_bytes 4 vtype @ le_bytes 4 row_off @ le_bytes 4 (1 :: i32) @ replicate 4 0 @
     name @ replicate (128 - length name) 0"

lemma store_middle:
  "length pre = off \<Longrightarrow> length mid = length src \<Longrightarrow> store off src (pre @ mid @ post) = Inr (pre @ src @ post)"
  by (simp add: store_ok blit_def)

lemma copy_each_fields:
  "\<forall>(off, v) \<in> set fs. off + 4 \<le> length h \<Longrightarrow>
   copy_each (map (\<lambda>(off, v). (off, le_bytes 4 v)) fs) (h @ rest) = Inr (put_fields fs h @ rest)"
proof (induction fs arbitrary: h)
  case (Cons f fs)
  obtain off v where f: "f = (off, v)" by (cases f)
  have o: "off + 4 \<le> length h" using Cons.prems f by simp
  then have "store off (le_bytes 4 v) (h @ rest) = Inr (blit off (le_bytes 4 v) h @ rest)"
    by (simp add: store_ok blit_def)
  moreover have "\<forall>(off', v') \<in> set fs. off' + 4 \<le> length (blit off (le_bytes 4 v) h)"
    using Cons.prems o by auto
  ultimately show ?case using Cons.IH f by (simp add: put_fields_def)
qed (simp add: put_fields_def)

lemma varheader_eq:
  assumes "length name \<le> 128"
  shows "varheader vtype row_off name = Inr (vh_bytes vtype row_off name)"
proof -
  have z: "replicate 144 (0 :: byte) = replicate 4 0 @ replicate 4 0 @ replicate 4 0 @ replicate 4 0 @
      replicate (length name) 0 @ replicate (128 - length name) 0"
    using assms by (simp flip: replicate_add)
  let ?a = "le_bytes 4 vtype" and ?b = "le_bytes 4 row_off" and ?c = "le_bytes 4 (1 :: i32)"
  have "store 4 ?b (?a @ replicate 4 0 @ rest) = Inr (?a @ ?b @ rest)" for rest
    by (rule store_middle) simp_all
  moreover have "store 8 ?c (?a @ ?b @ replicate 4 0 @ rest) = Inr (?a @ ?b @ ?c @ rest)" for rest
    using store_middle [of "?a @ ?b" 8 "replicate 4 0" ?c rest] by simp
  moreover have "store 16 name (?a @ ?b @ ?c @ replicate 4 0 @ replicate (length name) 0 @ rest) =
      Inr (?a @ ?b @ ?c @ replicate 4 0 @ name @ rest)" for rest
    using store_middle [of "?a @ ?b @ ?c @ replicate 4 0" 16 "replicate (length name) 0" name rest] by simp
  moreover have "store 0 ?a (replicate 4 0 @ rest) = Inr (?a @ rest)" for rest
    using store_middle [of "[]" 0 "replicate 4 0" ?a rest] by simp
  ultimately show ?thesis
    unfolding varheader_def VARHEADER_SIZE_def z vh_bytes_def by simp
qed

lemma length_vh_bytes [simp]: "length name \<le> 128 \<Longrightarrow> length (vh_bytes vtype row_off name) = 144"
  by (simp add: vh_bytes_def)

text \<open>The map as its parts.\<close>

definition synth_head :: "nat \<Rightarrow> i32 \<Rightarrow> byte list" where
  "synth_head yaml_len tick = put_fields (synth_fields yaml_len 544 (544 + yaml_len) tick) (replicate 112 0)"

definition synth_vars :: "byte list" where
  "synth_vars = vh_bytes 5 0 SESSION_TIME @ vh_bytes 2 8 LAP @ vh_bytes 4 12 SPEED"

definition synth :: "byte list \<Rightarrow> i32 \<Rightarrow> byte list \<Rightarrow> byte list" where
  "synth yaml tick row = synth_head (length yaml) tick @ synth_vars @ yaml @ row"

lemma length_synth_head [simp]: "length (synth_head n tick) = 112"
  by (simp add: synth_head_def put_fields_def synth_fields_def)

lemma name_lengths [simp]: "length SESSION_TIME = 11" "length LAP = 3" "length SPEED = 5"
  by (simp_all add: SESSION_TIME_def LAP_def SPEED_def)

lemma length_synth_vars [simp]: "length synth_vars = 432"
  by (simp add: synth_vars_def)

lemma synth_map_eq:
  assumes "length row = 16"
  shows "synth_map yaml tick row = Inr (synth yaml tick row)"
proof -
  let ?L = "length yaml" and ?h = "synth_head (length yaml) tick"
  let ?a = "vh_bytes 5 0 SESSION_TIME" and ?b = "vh_bytes 2 8 LAP" and ?c = "vh_bytes 4 12 SPEED"
  have z: "replicate (544 + ?L + 16) (0 :: byte) = replicate 112 0 @ replicate 144 0 @ replicate 144 0 @
      replicate 144 0 @ replicate ?L 0 @ replicate 16 0"
    by (simp flip: replicate_add)
  have h: "copy_each (map (\<lambda>(off, v). (off, le_bytes 4 v)) (synth_fields ?L 544 (544 + ?L) tick))
      (replicate 112 0 @ rest) = Inr (?h @ rest)" for rest
    unfolding synth_head_def by (rule copy_each_fields) (simp add: synth_fields_def)
  have 1: "store 112 ?a (?h @ replicate 144 0 @ rest) = Inr (?h @ ?a @ rest)" for rest
    by (rule store_middle) simp_all
  have 2: "store 256 ?b (?h @ ?a @ replicate 144 0 @ rest) = Inr (?h @ ?a @ ?b @ rest)" for rest
    using store_middle [of "?h @ ?a" 256 "replicate 144 0" ?b rest] by simp
  have 3: "store 400 ?c (?h @ ?a @ ?b @ replicate 144 0 @ rest) = Inr (?h @ ?a @ ?b @ ?c @ rest)" for rest
    using store_middle [of "?h @ ?a @ ?b" 400 "replicate 144 0" ?c rest] by simp
  have 4: "store 544 yaml (?h @ ?a @ ?b @ ?c @ replicate ?L 0 @ rest) = Inr (?h @ ?a @ ?b @ ?c @ yaml @ rest)" for rest
    using store_middle [of "?h @ ?a @ ?b @ ?c" 544 "replicate ?L 0" yaml rest] by simp
  have 5: "store (544 + ?L) row (?h @ ?a @ ?b @ ?c @ yaml @ replicate 16 0) = Inr (?h @ ?a @ ?b @ ?c @ yaml @ row)"
    using store_middle [of "?h @ ?a @ ?b @ ?c @ yaml" "544 + ?L" "replicate 16 0" row "[]"] assms by simp
  have c: "IRSDK_HEADER_SIZE = 112" "SYN_NUMVARS = 3" "VARHEADER_SIZE = 144" "SYN_BUFLEN = 16"
    "of_nat ST_OFF = (0 :: i32)" "of_nat LAP_OFF = (8 :: i32)" "of_nat SPD_OFF = (12 :: i32)"
    by (simp_all add: ibt_consts syn_consts)
  have n: "112 + 3 * 144 = (544 :: nat)" "112 + 144 = (256 :: nat)" "256 + 144 = (400 :: nat)" by simp_all
  show ?thesis
    unfolding synth_map_def Let_def c n z h rbind_simps
    by (simp add: varheader_eq copy_slice_def 1 2 3 4 5 assms) (simp add: synth_def synth_vars_def)
qed

lemma synth_head_fields:
  "i32_at (synth_head n t) 0 = 2" "i32_at (synth_head n t) 4 = 1" "i32_at (synth_head n t) 8 = 60"
  "i32_at (synth_head n t) 12 = 0" "i32_at (synth_head n t) 16 = of_nat n" "i32_at (synth_head n t) 20 = 544"
  "i32_at (synth_head n t) 24 = 3" "i32_at (synth_head n t) 28 = 112" "i32_at (synth_head n t) 32 = 1"
  "i32_at (synth_head n t) 36 = 16" "i32_at (synth_head n t) 48 = t" "i32_at (synth_head n t) 52 = of_nat (544 + n)"
  "i32_at (synth_head n t) 68 = 0" "i32_at (synth_head n t) 84 = 0" "i32_at (synth_head n t) 100 = 0"
  by (simp_all add: synth_head_def put_fields_def synth_fields_def syn_consts IRSDK_VER_def STATUS_CONNECTED_def
      IRSDK_HEADER_SIZE_def)

lemma synth_field: "k \<le> 108 \<Longrightarrow> i32_at (synth y t r) k = i32_at (synth_head (length y) t) k"
  by (simp add: synth_def i32_at_append)

lemma length_synth: "length (synth y t r) = 544 + length y + length r"
  by (simp add: synth_def)

lemma synth_windows:
  "take (length y) (drop 544 (synth y t r)) = y" "drop (544 + length y) (synth y t r) = r"
  "take 432 (drop 112 (synth y t r)) = synth_vars"
  by (simp_all add: synth_def)

lemma vh_name:
  assumes "length name < 32" "0 \<notin> set name"
  shows "name_bytes (take 32 (drop 16 (vh_bytes vtype off name @ rest))) = name"
proof -
  have "128 - length name = (32 - length name) + 96" using assms(1) by simp
  then have "vh_bytes vtype off name @ rest = (le_bytes 4 vtype @ le_bytes 4 off @ le_bytes 4 (1 :: i32) @ replicate 4 0) @
      name @ replicate (32 - length name) 0 @ replicate 96 0 @ rest"
    by (simp only: vh_bytes_def replicate_add append_assoc)
  then have "take 32 (drop 16 (vh_bytes vtype off name @ rest)) = name @ replicate (32 - length name) 0"
    using assms(1) by simp
  moreover have "takeWhile (\<lambda>c. c \<noteq> 0) (name @ replicate (32 - length name) 0) = name"
  proof -
    have "takeWhile (\<lambda>c. c \<noteq> 0) (replicate k 0) = ([] :: byte list)" for k by (cases k) simp_all
    moreover have "\<forall>c \<in> set name. c \<noteq> 0" using assms(2) by metis
    ultimately show ?thesis by simp
  qed
  ultimately show ?thesis by (simp add: name_bytes_def)
qed

lemma vh_row_off: "i32_at (vh_bytes vtype off name @ rest) 4 = off"
  by (simp add: vh_bytes_def i32_at_def)

lemma synth_names:
  "row_off_of (synth y t r) 112 3 SESSION_TIME = Some 0" "row_off_of (synth y t r) 112 3 LAP = Some 8"
proof -
  let ?d = "synth y t r"
  have at: "drop 112 ?d = vh_bytes 5 0 SESSION_TIME @ vh_bytes 2 8 LAP @ vh_bytes 4 12 SPEED @ y @ r"
    "drop 256 ?d = vh_bytes 2 8 LAP @ vh_bytes 4 12 SPEED @ y @ r"
    by (simp_all add: synth_def synth_vars_def)
  have k: "0 \<notin> set SESSION_TIME" "0 \<notin> set LAP" by (simp_all add: SESSION_TIME_def LAP_def)
  have "var_name ?d 112 = name_bytes (take 32 (drop 16 (drop 112 ?d)))"
    "var_name ?d 256 = name_bytes (take 32 (drop 16 (drop 256 ?d)))"
    by (simp_all add: var_name_def)
  then have n: "var_name ?d 112 = SESSION_TIME" "var_name ?d 256 = LAP"
    unfolding at using vh_name [OF _ k(1)] vh_name [OF _ k(2)] by simp_all
  have "i32_at ?d 116 = i32_at (drop 112 ?d) 4" "i32_at ?d 260 = i32_at (drop 256 ?d) 4" by (simp_all add: i32_at_def)
  then have o: "i32_at ?d 116 = 0" "i32_at ?d 260 = 8" by (simp_all add: at vh_row_off)
  have u: "[0..<3] = [0, 1, 2 :: nat]" by (simp add: upt_rec)
  have ne: "SESSION_TIME \<noteq> LAP" by (simp add: SESSION_TIME_def LAP_def)
  show "row_off_of ?d 112 3 SESSION_TIME = Some 0" "row_off_of ?d 112 3 LAP = Some 8"
    using n o ne by (simp_all add: row_off_of_def u var_entry_def usize_of_i32_nonneg)
qed

text \<open>The layout the writer finds, and that the maps of the test are sane.\<close>

definition synth_layout :: "nat \<Rightarrow> map_layout" where
  "synth_layout n = \<lparr>lay_ver = 2, lay_tick_rate = 60, lay_session_info_update = 0, lay_num_vars = 3,
     lay_buf_len = 16, lay_vh_off = 112, lay_si_off = 544, lay_si_len = n,
     lay_session_time_row_off = Some 0, lay_lap_row_off = Some 8\<rparr>"

lemma synth_ok:
  assumes "length r = 16" "0 < length y" "length y \<le> 1000000"
  shows "layout_of (synth y t r) = synth_layout (length y)" "map_ok (synth y t r)" "connected_map (synth y t r)"
    "active_sample (synth y t r) = (t, 544 + length y)" "sample_map 0 16 (synth y t r)"
proof -
  let ?d = "synth y t r"
  have n: "sint (of_nat (length y) :: i32) = int (length y)" "sint (of_nat (544 + length y) :: i32) = int (544 + length y)"
    by (rule of_nat_field, use assms(3) in simp)+
  note f = synth_field synth_head_fields n
  have ff: "field ?d 16 = length y" "field ?d 20 = 544" "field ?d 24 = 3" "field ?d 28 = 112" "field ?d 36 = 16"
    by (simp_all add: f)
  show lay: "layout_of ?d = synth_layout (length y)"
    unfolding layout_of_def ff synth_names synth_layout_def by (simp add: f)
  show c: "connected_map ?d"
    unfolding connected_map_def ff using assms by (simp add: f length_synth STATUS_CONNECTED_def)
  have "0 \<le> sint (i32_at ?d (48 + i * 16 + 4))" if "i < 4" for i
  proof -
    from that consider "i = 0" | "i = 1" | "i = 2" | "i = 3" by linarith
    then show ?thesis by cases (simp_all add: f del: of_nat_add)
  qed
  then have "offsets_nonneg ?d" unfolding offsets_nonneg_def by blast
  then show ok: "map_ok ?d"
    using assms by (simp add: map_ok_def length_synth MAX_TELEMETRY_SIZE_def layout_nonneg_def f lay
        row_offs_ok_def synth_layout_def)
  have l: "112 \<le> length ?d" by (simp add: length_synth)
  from active_varbuf_eq [OF this] obtain k where k: "first_max ?d (clamp_i32 1 4 (i32_at ?d 32)) k"
    "active_varbuf ?d = Inr (Some (slot_tick ?d k, slot_off ?d k))" by blast
  then have "k = 0" by (simp add: f clamp_i32_def first_max_def)
  moreover have "usize_of_i32 (i32_at ?d 52) = 544 + length y"
    by (simp add: f usize_of_i32_nonneg del: of_nat_add)
  ultimately show s: "active_sample ?d = (t, 544 + length y)"
    using k by (simp add: active_sample_def slot_tick_def slot_off_def f)
  show "sample_map 0 16 ?d"
    using ok c s assms by (simp add: sample_map_def length_synth f)
qed

section \<open>The test passes\<close>

lemma synth_layout_simps [simp]:
  "lay_session_info_update (synth_layout n) = 0" "lay_buf_len (synth_layout n) = 16"
  "row_offs_ok (synth_layout n)"
  by (auto simp: synth_layout_def row_offs_ok_def)

lemma synth_rows:
  assumes "length r = 16" "0 < length y" "length y \<le> 1000000"
  shows "tick_rows 16 t0 [synth y t r] = (if t = t0 then [] else [r])"
  using synth_ok(4) [OF assms] synth_windows(2) [of y t r] assms(1) by simp

lemma drive_records:
  assumes "0 < length y" "length y \<le> 1000000" "io_row io = None"
    and "\<forall>r \<in> set rows. length r = 16" "rows_of (synth_layout (length y)) before" "length before + length rows < 2 ^ 31"
    and "t0 \<noteq> t" "ibt_open w = Some (open_of (synth_layout (length y)) date prefix before t0)"
  shows "drive io y t rows w = Inr (w\<lparr>ibt_open := Some (open_of (synth_layout (length y)) date prefix (before @ rows)
    (if rows = [] then t0 else t + of_nat (length rows) - 1))\<rparr>)"
  using assms(4-)
proof (induction rows arbitrary: before t0 t w)
  case Nil
  then show ?case by (cases w) simp
next
  case (Cons r rows)
  let ?lay = "synth_layout (length y)" and ?m = "synth y t r"
  have r: "length r = 16" using Cons.prems(1) by simp
  note ok = synth_ok [OF r assms(1,2), of t] and rows = synth_rows [OF r assms(1,2)]
  let ?w = "w\<lparr>ibt_open := Some (open_of ?lay date prefix (before @ [r]) t)\<rparr>"
  have sm: "sample_map (lay_session_info_update ?lay) (lay_buf_len ?lay) ?m" using ok(5) by simp
  have bl: "lay_buf_len ?lay < 2 ^ 31" by simp
  have one: "on_map_update ?m io w = Inr ?w"
    using update_records [OF sm assms(3) synth_layout_simps(3) bl Cons.prems(2,5)] rows [of t0 t] Cons.prems(4) ok(4)
    by (simp del: tick_rows.simps)
  have more: "rows_of ?lay (before @ [r])" using Cons.prems(2,3) r by (simp add: rows_of_def)
  have two: "on_map_update ?m io ?w = Inr ?w"
    using update_records [OF sm assms(3) synth_layout_simps(3) bl more, of ?w] rows [of t t] ok(4)
    by (simp del: tick_rows.simps)
  have "drive io y (t + 1) rows ?w = Inr (?w\<lparr>ibt_open := Some (open_of ?lay date prefix ((before @ [r]) @ rows)
      (if rows = [] then t else (t + 1) + of_nat (length rows) - 1))\<rparr>)"
    using Cons.prems(1,3) more by (intro Cons.IH) simp_all
  moreover have "(if rows = [] then t else (t + 1) + of_nat (length rows) - 1) = t + of_nat (length (r # rows)) - 1"
    by (simp add: algebra_simps)
  moreover have "open_if_none io ?m w = Inr w" using Cons.prems(5) by (simp add: open_if_none_def)
  ultimately show ?case
    by (simp add: synth_map_eq [OF r] one two)
qed

lemma make_row_eq: "make_row t lap speed = Inr (le_bytes 8 t @ le_bytes 4 lap @ le_bytes 4 speed)"
proof -
  have "replicate 16 (0 :: byte) = replicate 8 0 @ replicate 4 0 @ replicate 4 0" by (simp flip: replicate_add)
  moreover have "store 0 (le_bytes 8 t) (replicate 8 0 @ rest) = Inr (le_bytes 8 t @ rest)" for rest
    using store_middle [of "[]" 0 "replicate 8 0" "le_bytes 8 t" rest] by simp
  moreover have "store 8 (le_bytes 4 lap) (le_bytes 8 t @ replicate 4 0 @ rest) = Inr (le_bytes 8 t @ le_bytes 4 lap @ rest)" for rest
    by (rule store_middle) simp_all
  moreover have "store 12 (le_bytes 4 speed) (le_bytes 8 t @ le_bytes 4 lap @ replicate 4 0) =
      Inr (le_bytes 8 t @ le_bytes 4 lap @ le_bytes 4 speed)"
    using store_middle [of "le_bytes 8 t @ le_bytes 4 lap" 12 "replicate 4 0" "le_bytes 4 speed" "[]"] by simp
  ultimately show ?thesis by (simp add: make_row_def syn_consts)
qed

abbreviation sample_row :: "u64 \<times> i32 \<times> u32 \<Rightarrow> byte list" where
  "sample_row x \<equiv> le_bytes 8 (fst x) @ le_bytes 4 (fst (snd x)) @ le_bytes 4 (snd (snd x))"

lemma sample_row_reads:
  "row_time (synth_layout n) (sample_row x) = Some (fst x)" "row_lap (synth_layout n) (sample_row x) = Some (fst (snd x))"
  by (simp_all add: row_time_def row_lap_def synth_layout_def i32_at_def)

lemma all_ok_Inr: "all_ok (map (\<lambda>x. Inr (f x)) xs) = Inr (map f xs)"
  by (induction xs) simp_all

text \<open>The file of the five rows.\<close>

definition test_rows :: "byte list list" where
  "test_rows = map sample_row test_samples"

lemma sample_statistics:
  "session_times (synth_layout n) (map sample_row xs) = map fst xs"
  "session_laps (synth_layout n) (map sample_row xs) = map (fst \<circ> snd) xs"
  by (induction xs) (simp_all add: sample_row_reads del: append.simps)

lemma test_statistics:
  "session_times (synth_layout n) test_rows = map fst test_samples"
  "session_laps (synth_layout n) test_rows = map (fst \<circ> snd) test_samples"
  "length test_rows = 5" "\<forall>r \<in> set test_rows. length r = 16"
  by (simp_all only: test_rows_def sample_statistics) (simp_all add: test_samples_def)

lemma test_tallies:
  "time_span (map fst test_samples) = (0x4059000000000000, 0x4059800000000000)"
  "fst (lap_tally (map (fst \<circ> snd) test_samples)) = 3"
  by (simp_all add: test_samples_def time_span_def lap_tally_def later_def count_lap_def f64_gt_def f64_nan_def
      f64_key_def mask_eq_exp_minus_1)

lemma concat_row:
  "\<forall>r \<in> set rows. length r = n \<Longrightarrow> i < length rows \<Longrightarrow> take n (drop (i * n) (concat rows)) = rows ! i"
proof (induction rows arbitrary: i)
  case (Cons r rows)
  then show ?case by (cases i) simp_all
qed simp

text \<open>The bytes of the file the session leaves.\<close>

definition test_file :: "byte list" where
  "test_file = (let fh = file_header (synth_layout 43) 576 619 in
     take 48 fh @ le_bytes 4 (5 :: i32) @ drop 52 fh
     @ subheader_bytes 1700000000 0x4059000000000000 0x4059800000000000 3 5
     @ synth_vars @ test_yaml @ concat test_rows)"

lemma length_test_yaml [simp]: "length test_yaml = 43"
  by (simp add: test_yaml_def)

lemma length_test_rows: "length (concat test_rows) = 80"
  by (simp add: test_rows_def test_samples_def)

lemma closed_test_file:
  "closed_bytes (synth_layout 43) 1700000000 test_rows 5
     (prefix_of (synth test_yaml 1 r) (synth_layout 43) 1700000000 @ concat test_rows) = test_file"
proof -
  have "prefix_of (synth test_yaml 1 r) (synth_layout 43) 1700000000 =
      file_header (synth_layout 43) 576 619 @ subheader_bytes 1700000000 0 0 0 0 @ synth_vars @ test_yaml"
    using synth_windows(1,3) [of test_yaml 1 r] unfolding prefix_of_def by (simp add: synth_layout_def)
  moreover have "test_rows \<noteq> []" using test_statistics(3) by auto
  ultimately show ?thesis
    unfolding closed_bytes_def test_statistics test_tallies test_file_def Let_def
    by (simp add: I32_MIN_def)
qed

lemma test_file_fields:
  "length test_file = 699" "i32_at test_file 0 = 2" "i32_at test_file 4 = 1" "i32_at test_file 8 = 60"
  "i32_at test_file 16 = 43" "i32_at test_file 20 = 576" "i32_at test_file 24 = 3" "i32_at test_file 28 = 144"
  "i32_at test_file 32 = 1" "i32_at test_file 36 = 16" "i32_at test_file 52 = 619"
  "i32_at test_file 136 = 3" "i32_at test_file 140 = 5"
proof -
  let ?fh = "file_header (synth_layout 43) 576 619"
  show "length test_file = 699" by (simp add: test_file_def Let_def length_test_rows)
  have hd: "i32_at test_file k = i32_at ?fh k" if "k \<le> 44" for k
  proof -
    have "4 \<le> 48 - k" using that by simp
    then show ?thesis by (intro i32_at_window) (simp add: test_file_def Let_def drop_take min_def)
  qed
  show "i32_at test_file 0 = 2" "i32_at test_file 4 = 1" "i32_at test_file 8 = 60"
    "i32_at test_file 16 = 43" "i32_at test_file 20 = 576" "i32_at test_file 24 = 3" "i32_at test_file 28 = 144"
    "i32_at test_file 32 = 1" "i32_at test_file 36 = 16"
    by (simp_all add: hd file_header_fields) (simp_all add: synth_layout_def STATUS_CONNECTED_def IRSDK_VER_def)
  have "i32_at test_file 52 = i32_at ?fh 52"
    by (intro i32_at_window) (simp add: test_file_def Let_def)
  then show "i32_at test_file 52 = 619" by (simp add: file_header_fields)
  show "i32_at test_file 136 = 3" "i32_at test_file 140 = 5"
    by (simp_all add: test_file_def Let_def i32_at_def subheader_bytes_def)
qed

lemma test_file_windows:
  "take 43 (drop 576 test_file) = test_yaml" "drop 619 test_file = concat test_rows"
  "take 8 (drop 112 test_file) = le_bytes 8 (1700000000 :: u64)"
  "take 8 (drop 120 test_file) = le_bytes 8 (0x4059000000000000 :: u64)"
  "take 8 (drop 128 test_file) = le_bytes 8 (0x4059800000000000 :: u64)"
  by (simp_all add: test_file_def Let_def subheader_bytes_def)

lemma assert_each_true: "list_all (\<lambda>t. t = Inr True) ts \<Longrightarrow> passes (assert_each ts)"
  by (induction ts) simp_all

lemma check_test_file: "passes (check_synthetic test_yaml test_file test_rows)"
proof -
  note f = test_file_fields
  have rd: "rd_i32 test_file k = Inr (i32_at test_file k)" if "k + 4 \<le> 699" for k
    using that f(1) by (simp add: rd_i32_ok)
  have 64: "slice 112 120 test_file = Inr (le_bytes 8 (1700000000 :: u64))"
    "slice 120 128 test_file = Inr (le_bytes 8 (0x4059000000000000 :: u64))"
    "slice 128 136 test_file = Inr (le_bytes 8 (0x4059800000000000 :: u64))"
    "slice 576 619 test_file = Inr test_yaml"
    using f(1) test_file_windows by (simp_all add: slice_ok)
  have u: "usize_of_i32 576 = 576" "usize_of_i32 43 = 43" "usize_of_i32 619 = 619"
    by (simp_all add: usize_of_i32_nonneg)
  have row: "slice_is test_file (619 + i * 16) 16 (test_rows ! i) = Inr True" if "i < 5" for i
  proof -
    have "slice (619 + i * 16) (619 + i * 16 + 16) test_file = Inr (take 16 (drop (i * 16) (drop 619 test_file)))"
      using f(1) that by (simp add: slice_ok add.commute)
    also have "take 16 (drop (i * 16) (drop 619 test_file)) = test_rows ! i"
      using concat_row [OF test_statistics(4)] that unfolding test_file_windows by (simp add: test_statistics(3))
    finally show ?thesis by (simp add: slice_is_def)
  qed
  have 1: "passes (assert_each [reads test_file 0 IRSDK_VER, reads test_file 4 STATUS_CONNECTED, reads test_file 8 60,
       reads test_file 24 (of_nat SYN_NUMVARS), reads test_file 36 (of_nat SYN_BUFLEN), reads test_file 32 1,
       reads test_file 28 144])"
    by (rule assert_each_true) (simp add: reads_def rd f syn_consts IRSDK_VER_def STATUS_CONNECTED_def)
  have 2: "passes (assert_each ([slice_is test_file 576 43 test_yaml, reads64 test_file 112 1700000000,
       reads64 test_file 120 0x4059000000000000, reads64 test_file 128 0x4059800000000000,
       reads test_file 140 (of_nat 5), reads test_file 136 3] @
       map (\<lambda>i. slice_is test_file (619 + i * 16) 16 (test_rows ! i)) [0..<5]))"
    by (rule assert_each_true)
      (simp add: reads_def rd f slice_is_def [of _ 576] reads64_def 64, simp add: list_all_iff row)
  have c: "SYN_NUMVARS = 3" "SYN_BUFLEN = 16" "VARHEADER_SIZE = 144" by (simp_all add: syn_consts ibt_consts)
  show ?thesis
    unfolding check_synthetic_def 1 using 2 by (simp add: rd f u c Let_def test_statistics(3))
qed

lemma synthetic_roundtrip_passes:
  assumes "io_fine io" "io_now io = 1700000000"
  shows "passes (synthetic_roundtrip io)"
proof -
  let ?lay = "synth_layout 43"
  obtain r rs where rows: "test_rows = r # rs" by (simp add: test_rows_def test_samples_def)
  have r: "length r = 16" by (rule bspec [OF test_statistics(4)]) (simp add: rows)
  define m where "m = synth test_yaml 1 r"
  have y: "0 < length test_yaml" "length test_yaml \<le> 1000000" by simp_all
  note ok = synth_ok [OF r y, of 1, folded m_def]
  let ?p = "prefix_of m ?lay 1700000000"
  let ?w = "ibt_new\<lparr>ibt_open := Some (open_of ?lay 1700000000 ?p [] I32_MIN)\<rparr>"
  have row_io: "io_row io = None" using assms(1) by (simp add: io_fine_def)
  have lay: "layout_of m = ?lay" using ok(1) by simp
  have "start_session io m ?lay ibt_new = Inr ?w"
    using start_session_eq [OF ok(2,3), of io ibt_new] assms by (auto simp: io_fine_def opened_ibt_eq lay)
  then have "open_if_none io m ibt_new = Inr ?w" "open_if_none io m ?w = Inr ?w"
    using map_ok_parse(1) [OF ok(2)] ok(3) lay by (simp_all add: open_if_none_def ibt_new_def)
  then have first: "drive io test_yaml 1 test_rows ibt_new = drive io test_yaml 1 test_rows ?w"
    unfolding rows by (simp add: synth_map_eq [OF r] m_def)
  have d: "drive io test_yaml 1 test_rows ?w = Inr (?w\<lparr>ibt_open := Some (open_of (synth_layout (length test_yaml))
      1700000000 ?p ([] @ test_rows) (if test_rows = [] then I32_MIN else 1 + of_nat (length test_rows) - 1))\<rparr>)"
    by (rule drive_records [OF y row_io]) (simp_all add: test_statistics rows_of_def I32_MIN_def)
  then have d: "drive io test_yaml 1 test_rows ibt_new = Inr (?w\<lparr>ibt_open := Some (open_of ?lay 1700000000 ?p test_rows 5)\<rparr>)"
  proof -
    have "test_rows \<noteq> []" "1 + of_nat (length test_rows) - 1 = (5 :: i32)"
      unfolding test_statistics(3) by (simp_all add: rows)
    then show ?thesis using d unfolding first by simp
  qed
  have "layout_fits m ?lay" using map_ok_parse(2) [OF ok(2,3)] lay by simp
  then have "144 \<le> length ?p" using length_prefix_of by simp
  moreover have "length test_rows < 2 ^ 31" by (simp add: test_statistics(3))
  ultimately have "ibt_disk (finish io (?w\<lparr>ibt_open := Some (open_of ?lay 1700000000 ?p test_rows 5)\<rparr>)) = [test_file]"
    using finish_closes [OF _ assms(1), of "?w\<lparr>ibt_open := Some (open_of ?lay 1700000000 ?p test_rows 5)\<rparr>"]
      closed_test_file [of r, folded m_def]
    by (simp add: ibt_new_def)
  moreover have "all_ok (map (\<lambda>(t, lap, speed). make_row t lap speed) test_samples) = Inr test_rows"
  proof -
    have "(\<lambda>(t, lap, speed). make_row t lap speed) = (\<lambda>x. Inr (sample_row x))"
      by (simp add: fun_eq_iff make_row_eq)
    then show ?thesis by (simp only: all_ok_Inr test_rows_def)
  qed
  ultimately show ?thesis
    unfolding synthetic_roundtrip_def using d check_test_file by (simp add: Let_def)
qed

lemma synthetic_roundtrip_passes_demo: "passes (synthetic_roundtrip demo_io)"
  by (rule synthetic_roundtrip_passes [OF demo_io_fine]) (simp add: demo_io_def)

end
