(* ===== verification/Ibt_Replay.thy ===== *)
theory Ibt_Replay
  imports Ibt_Tests
begin

text \<open>
  Recording a recording: \<open>real_sample_roundtrip\<close> of \<open>ibt_writer.rs\<close> reads an \<open>.ibt\<close> file, plays its
  rows back as live maps and compares what the writer makes of them with the file. It passes for
  every file that the writer itself has left, whatever session it was.
\<close>

section \<open>The test\<close>

record ibt_parts =
  pt_ver :: i32
  pt_tick_rate :: i32
  pt_si_update :: i32
  pt_num_vars :: nat
  pt_buf_len :: nat
  pt_varheaders :: "byte list"
  pt_yaml :: "byte list"
  pt_rows :: "byte list list"

definition load_ibt :: "byte list \<Rightarrow> ibt_parts rust" where
  "load_ibt d =
     rbind (rd_i32 d 0) (\<lambda>ver. rbind (rd_i32 d 8) (\<lambda>tick_rate. rbind (rd_i32 d 12) (\<lambda>si_update.
     rbind (rd_i32 d 16) (\<lambda>sl. rbind (rd_i32 d 20) (\<lambda>so. rbind (rd_i32 d 24) (\<lambda>nv.
     rbind (rd_i32 d 28) (\<lambda>vh. rbind (rd_i32 d 36) (\<lambda>bl. rbind (rd_i32 d 52) (\<lambda>bo.
     let si_len = usize_of_i32 sl; si_off = usize_of_i32 so; num_vars = usize_of_i32 nv;
         vh_off = usize_of_i32 vh; buf_len = usize_of_i32 bl; buf_off = usize_of_i32 bo in
     rbind (slice vh_off (uadd vh_off (umul num_vars VARHEADER_SIZE)) d) (\<lambda>varheaders.
     rbind (slice si_off (uadd si_off si_len) d) (\<lambda>yaml.
     if length d < buf_off then Inl Slice_Index
     else if buf_len = 0 then Inl Div_By_Zero
     else
       let n = (length d - buf_off) div buf_len in
       Inr \<lparr>pt_ver = ver, pt_tick_rate = tick_rate, pt_si_update = si_update, pt_num_vars = num_vars,
         pt_buf_len = buf_len, pt_varheaders = varheaders, pt_yaml = yaml,
         pt_rows = map (\<lambda>i. take buf_len (drop (buf_off + i * buf_len) d)) [0..<n]\<rparr>)))))))))))"

definition live_fields :: "ibt_parts \<Rightarrow> nat \<Rightarrow> nat \<Rightarrow> i32 \<Rightarrow> (nat \<times> i32) list" where
  "live_fields p si_off buf_off tick =
     [(0, pt_ver p), (4, STATUS_CONNECTED), (8, pt_tick_rate p), (12, pt_si_update p),
      (16, of_nat (length (pt_yaml p))), (20, of_nat si_off), (24, of_nat (pt_num_vars p)),
      (28, of_nat IRSDK_HEADER_SIZE), (32, 1), (36, of_nat (pt_buf_len p)), (48, tick), (52, of_nat buf_off)]"

definition live_map_from :: "ibt_parts \<Rightarrow> i32 \<Rightarrow> byte list \<Rightarrow> byte list rust" where
  "live_map_from p tick row =
     (let vh_off = IRSDK_HEADER_SIZE; si_off = vh_off + pt_num_vars p * VARHEADER_SIZE;
          buf_off = si_off + length (pt_yaml p) in
      rbind (copy_each (map (\<lambda>(off, v). (off, le_bytes 4 v)) (live_fields p si_off buf_off tick))
        (replicate (buf_off + pt_buf_len p) 0)) (\<lambda>m1.
      rbind (store vh_off (pt_varheaders p) m1) (\<lambda>m2.
      rbind (store si_off (pt_yaml p) m2) (\<lambda>m3.
      copy_slice buf_off (pt_buf_len p) row m3))))"

fun replay :: "ibt_io \<Rightarrow> ibt_parts \<Rightarrow> i32 \<Rightarrow> byte list list \<Rightarrow> ibt_writer \<Rightarrow> ibt_writer test" where
  "replay io p tick [] w = Inr w"
| "replay io p tick (row # rows) w =
     rbind (run_code (live_map_from p tick row)) (\<lambda>m.
     rbind (open_if_none io m w) (\<lambda>w1.
     rbind (run_code (on_map_update m io w1)) (\<lambda>w2. replay io p (tick + 1) rows w2)))"

definition same_slice :: "nat \<Rightarrow> nat \<Rightarrow> byte list \<Rightarrow> byte list \<Rightarrow> bool test" where
  "same_slice a b xs ys =
     rbind (run_code (slice a b xs)) (\<lambda>u. rbind (run_code (slice a b ys)) (\<lambda>v. Inr (u = v)))"

definition real_sample_roundtrip :: "ibt_io \<Rightarrow> byte list option \<Rightarrow> unit test" where
  "real_sample_roundtrip io sample = (case sample of
      None \<Rightarrow> Inr ()
    | Some orig \<Rightarrow>
        rbind (run_code (load_ibt orig)) (\<lambda>p.
        rbind (replay io p 1 (pt_rows p) ibt_new) (\<lambda>w.
        rbind (unwrap_some (case ibt_disk (finish io w) of [] \<Rightarrow> None | f # _ \<Rightarrow> Some f)) (\<lambda>out.
        assert_each [Inr (length out = length orig), same_slice 0 48 out orig, same_slice 52 112 out orig,
          same_slice 120 144 out orig, same_slice 144 (length orig) out orig]))))"

section \<open>The maps that are played back\<close>

definition live_head :: "ibt_parts \<Rightarrow> i32 \<Rightarrow> byte list" where
  "live_head p tick = put_fields (live_fields p (112 + pt_num_vars p * 144)
     (112 + pt_num_vars p * 144 + length (pt_yaml p)) tick) (replicate 112 0)"

definition live :: "ibt_parts \<Rightarrow> i32 \<Rightarrow> byte list \<Rightarrow> byte list" where
  "live p tick row = live_head p tick @ pt_varheaders p @ pt_yaml p @ row"

text \<open>The layout the writer finds in every map made of some parts.\<close>

definition parts_layout :: "ibt_parts \<Rightarrow> map_layout" where
  "parts_layout p = \<lparr>lay_ver = pt_ver p, lay_tick_rate = pt_tick_rate p, lay_session_info_update = pt_si_update p,
     lay_num_vars = pt_num_vars p, lay_buf_len = pt_buf_len p, lay_vh_off = 112,
     lay_si_off = 112 + pt_num_vars p * 144, lay_si_len = length (pt_yaml p),
     lay_session_time_row_off = row_off_of (pt_varheaders p) 0 (pt_num_vars p) SESSION_TIME,
     lay_lap_row_off = row_off_of (pt_varheaders p) 0 (pt_num_vars p) LAP\<rparr>"

text \<open>Parts that make a map the program can hold.\<close>

definition parts_ok :: "ibt_parts \<Rightarrow> bool" where
  "parts_ok p \<longleftrightarrow> length (pt_varheaders p) = pt_num_vars p * 144 \<and> 0 < pt_num_vars p \<and> 0 < pt_buf_len p \<and>
     pt_yaml p \<noteq> [] \<and> 112 + pt_num_vars p * 144 + length (pt_yaml p) + pt_buf_len p \<le> MAX_TELEMETRY_SIZE \<and>
     row_offs_ok (parts_layout p)"

lemma length_live_head [simp]: "length (live_head p tick) = 112"
  by (simp add: live_head_def put_fields_def live_fields_def)

lemma live_map_from_eq:
  assumes "parts_ok p" "length row = pt_buf_len p"
  shows "live_map_from p tick row = Inr (live p tick row)"
proof -
  let ?n = "pt_num_vars p * 144" and ?y = "pt_yaml p" and ?v = "pt_varheaders p" and ?h = "live_head p tick"
  have v: "length ?v = ?n" using assms(1) by (simp add: parts_ok_def)
  have z: "replicate (112 + ?n + length ?y + pt_buf_len p) (0 :: byte) =
      replicate 112 0 @ replicate ?n 0 @ replicate (length ?y) 0 @ replicate (pt_buf_len p) 0"
    by (simp flip: replicate_add add: add.assoc)
  have h: "copy_each (map (\<lambda>(off, v). (off, le_bytes 4 v)) (live_fields p (112 + ?n) (112 + ?n + length ?y) tick))
      (replicate 112 0 @ rest) = Inr (?h @ rest)" for rest
    unfolding live_head_def by (rule copy_each_fields) (simp add: live_fields_def)
  have 1: "store 112 ?v (?h @ replicate ?n 0 @ rest) = Inr (?h @ ?v @ rest)" for rest
    by (rule store_middle) (simp_all add: v)
  have 2: "store (112 + ?n) ?y (?h @ ?v @ replicate (length ?y) 0 @ rest) = Inr (?h @ ?v @ ?y @ rest)" for rest
    using store_middle [of "?h @ ?v" "112 + ?n" "replicate (length ?y) 0" ?y rest] v by simp
  have 3: "store (112 + ?n + length ?y) row (?h @ ?v @ ?y @ replicate (pt_buf_len p) 0) = Inr (?h @ ?v @ ?y @ row)"
    using store_middle [of "?h @ ?v @ ?y" "112 + ?n + length ?y" "replicate (pt_buf_len p) 0" row "[]"] v assms(2)
    by simp
  have c: "IRSDK_HEADER_SIZE = 112" "VARHEADER_SIZE = 144" by (simp_all add: ibt_consts)
  show ?thesis
    unfolding live_map_from_def Let_def c z h rbind_simps copy_slice_def
    using assms(2) by (simp add: 1 2 3 live_def)
qed

lemma live_head_fields:
  "i32_at (live_head p t) 0 = pt_ver p" "i32_at (live_head p t) 4 = 1" "i32_at (live_head p t) 8 = pt_tick_rate p"
  "i32_at (live_head p t) 12 = pt_si_update p" "i32_at (live_head p t) 16 = of_nat (length (pt_yaml p))"
  "i32_at (live_head p t) 20 = of_nat (112 + pt_num_vars p * 144)" "i32_at (live_head p t) 24 = of_nat (pt_num_vars p)"
  "i32_at (live_head p t) 28 = 112" "i32_at (live_head p t) 32 = 1" "i32_at (live_head p t) 36 = of_nat (pt_buf_len p)"
  "i32_at (live_head p t) 48 = t"
  "i32_at (live_head p t) 52 = of_nat (112 + pt_num_vars p * 144 + length (pt_yaml p))"
  "i32_at (live_head p t) 68 = 0" "i32_at (live_head p t) 84 = 0" "i32_at (live_head p t) 100 = 0"
  by (simp_all add: live_head_def put_fields_def live_fields_def STATUS_CONNECTED_def IRSDK_HEADER_SIZE_def
      del: of_nat_add of_nat_mult)

lemma live_field: "k \<le> 108 \<Longrightarrow> i32_at (live p t r) k = i32_at (live_head p t) k"
  by (simp add: live_def i32_at_append)

lemma live_sizes:
  assumes "parts_ok p" "length r = pt_buf_len p"
  shows "length (live p t r) = 112 + pt_num_vars p * 144 + length (pt_yaml p) + pt_buf_len p"
    "length (live p t r) \<le> MAX_TELEMETRY_SIZE"
    "take (pt_num_vars p * 144) (drop 112 (live p t r)) = pt_varheaders p"
    "take (length (pt_yaml p)) (drop (112 + pt_num_vars p * 144) (live p t r)) = pt_yaml p"
    "drop (112 + pt_num_vars p * 144 + length (pt_yaml p)) (live p t r) = r"
  using assms by (simp_all add: live_def parts_ok_def)

lemma parts_bounds:
  assumes "parts_ok p"
  shows "sint (of_nat (length (pt_yaml p)) :: i32) = int (length (pt_yaml p))"
    "sint (of_nat (112 + pt_num_vars p * 144) :: i32) = int (112 + pt_num_vars p * 144)"
    "sint (of_nat (pt_num_vars p) :: i32) = int (pt_num_vars p)"
    "sint (of_nat (pt_buf_len p) :: i32) = int (pt_buf_len p)"
    "sint (of_nat (112 + pt_num_vars p * 144 + length (pt_yaml p)) :: i32) = int (112 + pt_num_vars p * 144 + length (pt_yaml p))"
  by (rule of_nat_field, use assms in \<open>simp add: parts_ok_def MAX_TELEMETRY_SIZE_def\<close>)+

lemma live_ok:
  assumes "parts_ok p" "length r = pt_buf_len p"
  shows "layout_of (live p t r) = parts_layout p" "map_ok (live p t r)" "connected_map (live p t r)"
    "active_sample (live p t r) = (t, 112 + pt_num_vars p * 144 + length (pt_yaml p))"
    "sample_map (pt_si_update p) (pt_buf_len p) (live p t r)"
proof -
  let ?d = "live p t r"
  note n = parts_bounds [OF assms(1)] and sz = live_sizes [OF assms, of t]
  note f = live_field live_head_fields n
  have ff: "field ?d 16 = length (pt_yaml p)" "field ?d 20 = 112 + pt_num_vars p * 144" "field ?d 24 = pt_num_vars p"
    "field ?d 28 = 112" "field ?d 36 = pt_buf_len p"
    by (simp_all add: f del: of_nat_add of_nat_mult)
  have names: "row_off_of ?d 112 (pt_num_vars p) name = row_off_of (pt_varheaders p) 0 (pt_num_vars p) name" for name
    using sz(3) assms(1) by (intro row_off_of_window) (simp add: parts_ok_def)
  show lay: "layout_of ?d = parts_layout p"
    unfolding layout_of_def ff names parts_layout_def by (simp add: f)
  show c: "connected_map ?d"
    unfolding connected_map_def ff using assms(1) by (simp add: f sz(1) STATUS_CONNECTED_def parts_ok_def)
  have "0 \<le> sint (i32_at ?d (48 + i * 16 + 4))" if "i < 4" for i
  proof -
    from that consider "i = 0" | "i = 1" | "i = 2" | "i = 3" by linarith
    then show ?thesis by cases (simp_all add: f del: of_nat_add of_nat_mult)
  qed
  then have "offsets_nonneg ?d" unfolding offsets_nonneg_def by blast
  moreover have "row_offs_ok (parts_layout p)" using assms(1) by (simp add: parts_ok_def)
  moreover have "layout_nonneg ?d" by (simp add: layout_nonneg_def f del: of_nat_add of_nat_mult)
  ultimately show ok: "map_ok ?d" using sz(2) by (simp add: map_ok_def lay)
  have l: "112 \<le> length ?d" by (simp add: sz(1))
  from active_varbuf_eq [OF this] obtain k where k: "first_max ?d (clamp_i32 1 4 (i32_at ?d 32)) k"
    "active_varbuf ?d = Inr (Some (slot_tick ?d k, slot_off ?d k))" by blast
  then have "k = 0" by (simp add: f clamp_i32_def first_max_def)
  moreover have "usize_of_i32 (i32_at ?d 52) = 112 + pt_num_vars p * 144 + length (pt_yaml p)"
    by (simp add: f usize_of_i32_nonneg del: of_nat_add of_nat_mult)
  ultimately show s: "active_sample ?d = (t, 112 + pt_num_vars p * 144 + length (pt_yaml p))"
    using k by (simp add: active_sample_def slot_tick_def slot_off_def f)
  show "sample_map (pt_si_update p) (pt_buf_len p) ?d"
    using ok c s by (simp add: sample_map_def sz(1) f)
qed

section \<open>Playing back\<close>

lemma parts_layout_simps [simp]:
  "lay_session_info_update (parts_layout p) = pt_si_update p" "lay_buf_len (parts_layout p) = pt_buf_len p"
  by (simp_all add: parts_layout_def)

lemma parts_layout_ok: "parts_ok p \<Longrightarrow> row_offs_ok (parts_layout p) \<and> pt_buf_len p < 2 ^ 31"
  by (simp add: parts_ok_def MAX_TELEMETRY_SIZE_def)

lemma live_row:
  assumes "parts_ok p" "length r = pt_buf_len p"
  shows "tick_rows (pt_buf_len p) t0 [live p t r] = (if t = t0 then [] else [r])"
  using live_ok(4) [OF assms] live_sizes(5) [OF assms, of t] assms(2) by simp

lemma replay_records:
  assumes "parts_ok p" "io_row io = None" "\<forall>r \<in> set rows. length r = pt_buf_len p"
    and "rows_of (parts_layout p) before" "length before + length rows < 2 ^ 31"
    and "t0 \<noteq> t" "ibt_open w = Some (open_of (parts_layout p) date prefix before t0)"
  shows "\<exists>t'. replay io p t rows w =
    Inr (w\<lparr>ibt_open := Some (open_of (parts_layout p) date prefix (before @ rows) t')\<rparr>)"
  using assms(3-)
proof (induction rows arbitrary: before t0 t w)
  case Nil
  then show ?case by (intro exI [of _ t0]) (cases w, simp)
next
  case (Cons r rows)
  let ?lay = "parts_layout p" and ?m = "live p t r"
  have r: "length r = pt_buf_len p" using Cons.prems(1) by simp
  note ok = live_ok [OF assms(1) r, of t]
  let ?w = "w\<lparr>ibt_open := Some (open_of ?lay date prefix (before @ [r]) t)\<rparr>"
  have sm: "sample_map (lay_session_info_update ?lay) (lay_buf_len ?lay) ?m" using ok(5) by simp
  have bl: "row_offs_ok ?lay" "lay_buf_len ?lay < 2 ^ 31" using parts_layout_ok [OF assms(1)] by simp_all
  have one: "on_map_update ?m io w = Inr ?w"
    using update_records [OF sm assms(2) bl Cons.prems(2,5)] live_row [OF assms(1) r, of t0 t] Cons.prems(4) ok(4)
    by (simp del: tick_rows.simps)
  have more: "rows_of ?lay (before @ [r])" using Cons.prems(2,3) r by (simp add: rows_of_def)
  have "\<exists>t'. replay io p (t + 1) rows ?w =
      Inr (?w\<lparr>ibt_open := Some (open_of ?lay date prefix ((before @ [r]) @ rows) t')\<rparr>)"
  proof -
    have "\<forall>r \<in> set rows. length r = pt_buf_len p" "length (before @ [r]) + length rows < 2 ^ 31" "t \<noteq> t + 1"
      "ibt_open ?w = Some (open_of ?lay date prefix (before @ [r]) t)"
      using Cons.prems(1,3) by simp_all
    from Cons.IH [OF this(1) more this(2-4)] show ?thesis .
  qed
  moreover have "open_if_none io ?m w = Inr w" using Cons.prems(5) by (simp add: open_if_none_def)
  ultimately show ?case
    by (simp add: live_map_from_eq [OF assms(1) r] one)
qed

text \<open>From a new writer: the first map opens the file.\<close>

lemma replay_file:
  assumes "parts_ok p" "io_fine io" "\<forall>r \<in> set rows. length r = pt_buf_len p" "rows \<noteq> []" "length rows < 2 ^ 31"
  shows "\<exists>w t' m. replay io p 1 rows ibt_new = Inr w \<and>
    take (pt_num_vars p * 144) (drop 112 m) = pt_varheaders p \<and>
    take (length (pt_yaml p)) (drop (112 + pt_num_vars p * 144) m) = pt_yaml p \<and>
    ibt_disk (finish io w) = [closed_bytes (parts_layout p) (io_now io) rows t'
      (prefix_of m (parts_layout p) (io_now io) @ concat rows)]"
proof -
  obtain r rs where rows: "rows = r # rs" using assms(4) by (cases rows) auto
  then have r: "length r = pt_buf_len p" using assms(3) by simp
  define m where "m = live p 1 r"
  let ?lay = "parts_layout p"
  note ok = live_ok [OF assms(1) r, of 1, folded m_def] and sz = live_sizes [OF assms(1) r, of 1, folded m_def]
  let ?p = "prefix_of m ?lay (io_now io)"
  let ?w = "ibt_new\<lparr>ibt_open := Some (open_of ?lay (io_now io) ?p [] I32_MIN)\<rparr>"
  have "start_session io m ?lay ibt_new = Inr ?w"
    using start_session_eq [OF ok(2,3), of io ibt_new] assms(2) by (auto simp: io_fine_def opened_ibt_eq ok(1))
  then have "open_if_none io m ibt_new = Inr ?w" "open_if_none io m ?w = Inr ?w"
    using map_ok_parse(1) [OF ok(2)] ok(1,3) by (simp_all add: open_if_none_def ibt_new_def)
  then have first: "replay io p 1 rows ibt_new = replay io p 1 rows ?w"
    unfolding rows by (simp add: live_map_from_eq [OF assms(1) r] flip: m_def)
  have row_io: "io_row io = None" using assms(2) by (simp add: io_fine_def)
  have "\<exists>t'. replay io p 1 rows ?w = Inr (?w\<lparr>ibt_open := Some (open_of ?lay (io_now io) ?p ([] @ rows) t')\<rparr>)"
  proof -
    have "rows_of ?lay []" "length ([] :: byte list list) + length rows < 2 ^ 31" "I32_MIN \<noteq> 1"
      "ibt_open ?w = Some (open_of ?lay (io_now io) ?p [] I32_MIN)"
      using assms(5) by (simp_all add: rows_of_def I32_MIN_def)
    from replay_records [OF assms(1) row_io assms(3) this] show ?thesis .
  qed
  then obtain t' where w: "replay io p 1 rows ibt_new =
      Inr (?w\<lparr>ibt_open := Some (open_of ?lay (io_now io) ?p rows t')\<rparr>)" unfolding first by auto
  have "layout_fits m ?lay" using map_ok_parse(2) [OF ok(2,3)] ok(1) by simp
  then have "144 \<le> length ?p" using length_prefix_of by simp
  then have "ibt_disk (finish io (?w\<lparr>ibt_open := Some (open_of ?lay (io_now io) ?p rows t')\<rparr>)) =
      [closed_bytes ?lay (io_now io) rows t' (?p @ concat rows)]"
    using finish_closes [OF _ assms(2) _ assms(5), of "?w\<lparr>ibt_open := Some (open_of ?lay (io_now io) ?p rows t')\<rparr>"]
    by (simp add: ibt_new_def)
  with w sz(3,4) show ?thesis by blast
qed

section \<open>Reading a session file back\<close>

text \<open>A session file in its parts: header, tick, sub-header and body.\<close>

definition file_image :: "byte list \<Rightarrow> i32 \<Rightarrow> u64 \<Rightarrow> byte list \<Rightarrow> byte list \<Rightarrow> byte list" where
  "file_image fh tick date sub body = take 48 fh @ le_bytes 4 tick @ drop 52 fh @ le_bytes 8 date @ sub @ body"

definition statistics_bytes :: "map_layout \<Rightarrow> byte list list \<Rightarrow> byte list" where
  "statistics_bytes lay rows = drop 8 (subheader_bytes 0 (fst (time_span (session_times lay rows)))
     (snd (time_span (session_times lay rows))) (fst (lap_tally (session_laps lay rows))) (of_nat (length rows)))"

lemma length_statistics [simp]: "length (statistics_bytes lay rows) = 24"
  by (simp add: statistics_bytes_def)

lemma closed_image:
  assumes "layout_fits d lay"
  shows "\<exists>tick'. closed_bytes lay date rows tick (prefix_of d lay date @ concat rows) =
    file_image (file_header lay (144 + lay_num_vars lay * 144) (144 + lay_num_vars lay * 144 + lay_si_len lay)) tick' date
      (statistics_bytes lay rows)
      (take (lay_num_vars lay * 144) (drop (lay_vh_off lay) d) @ take (lay_si_len lay) (drop (lay_si_off lay) d) @ concat rows)"
  by (rule exI [of _ "if rows = [] \<or> tick = I32_MIN then 0 else tick"])
    (simp add: closed_bytes_def prefix_of_def file_image_def statistics_bytes_def subheader_bytes_def)

lemma file_image_differs:
  assumes "length fh = 112" "length sub = 24" "i < length (file_image fh t date sub body)"
    "\<not> (48 \<le> i \<and> i < 52)" "\<not> (112 \<le> i \<and> i < 120)"
  shows "file_image fh t date sub body ! i = file_image fh t' date' sub body ! i"
proof -
  consider "i < 48" | "52 \<le> i" "i < 112" | "120 \<le> i" using assms(4,5) by linarith
  then show ?thesis
  proof cases
    case 1
    then show ?thesis using assms(1) by (simp add: file_image_def nth_append)
  next
    case 2
    then obtain j where "i = 52 + j" "j < 60" using le_Suc_ex by auto
    then show ?thesis using assms(1) by (simp add: file_image_def nth_append)
  next
    case 3
    then obtain j where "i = 120 + j" using le_Suc_ex by auto
    then show ?thesis using assms(1) by (simp add: file_image_def nth_append)
  qed
qed

lemma file_image_windows:
  assumes "length fh = 112" "length sub = 24"
  shows "k \<le> 44 \<Longrightarrow> i32_at (file_image fh t date sub body) k = i32_at fh k"
    "52 \<le> k \<Longrightarrow> k \<le> 108 \<Longrightarrow> i32_at (file_image fh t date sub body) k = i32_at fh k"
    "drop 144 (file_image fh t date sub body) = body" "length (file_image fh t date sub body) = 144 + length body"
proof -
  show "i32_at (file_image fh t date sub body) k = i32_at fh k" if "k \<le> 44"
  proof (rule i32_at_window)
    have "4 \<le> 48 - k" using that by simp
    then show "take 4 (drop k (file_image fh t date sub body)) = take 4 (drop k fh)"
      using assms(1) by (simp add: file_image_def drop_take min_def)
  qed
  show "i32_at (file_image fh t date sub body) k = i32_at fh k" if k: "52 \<le> k" "k \<le> 108"
  proof (rule i32_at_window)
    obtain j where j: "k = 52 + j" "j \<le> 56" using k le_Suc_ex by auto
    then have "4 \<le> length (drop (j + 52) fh)" using assms(1) by simp
    then show "take 4 (drop k (file_image fh t date sub body)) = take 4 (drop k fh)"
      using assms(1) j by (simp add: file_image_def add.commute)
  qed
  show "drop 144 (file_image fh t date sub body) = body" "length (file_image fh t date sub body) = 144 + length body"
    using assms by (simp_all add: file_image_def)
qed

text \<open>What \<open>load_ibt\<close> makes of it.\<close>

definition parts_of :: "byte list \<Rightarrow> map_layout \<Rightarrow> byte list list \<Rightarrow> ibt_parts" where
  "parts_of d lay rows =
     \<lparr>pt_ver = if lay_ver lay \<noteq> 0 then lay_ver lay else 2,
      pt_tick_rate = if lay_tick_rate lay \<noteq> 0 then lay_tick_rate lay else 60,
      pt_si_update = lay_session_info_update lay, pt_num_vars = lay_num_vars lay, pt_buf_len = lay_buf_len lay,
      pt_varheaders = take (lay_num_vars lay * 144) (drop (lay_vh_off lay) d),
      pt_yaml = take (lay_si_len lay) (drop (lay_si_off lay) d), pt_rows = rows\<rparr>"

definition replayable :: "byte list \<Rightarrow> map_layout \<Rightarrow> bool" where
  "replayable d lay \<longleftrightarrow> map_ok d \<and> connected_map d \<and> lay = layout_of d \<and>
     112 + lay_num_vars lay * 144 + lay_si_len lay + lay_buf_len lay \<le> MAX_TELEMETRY_SIZE"

lemma replayable_fits:
  assumes "replayable d lay"
  shows "layout_fits d lay" "lay_num_vars lay < 2 ^ 31" "lay_buf_len lay < 2 ^ 31" "0 < lay_buf_len lay"
    "144 + lay_num_vars lay * 144 + lay_si_len lay < 2 ^ 31"
    "length (take (lay_num_vars lay * 144) (drop (lay_vh_off lay) d)) = lay_num_vars lay * 144"
    "length (take (lay_si_len lay) (drop (lay_si_off lay) d)) = lay_si_len lay" "0 < lay_num_vars lay" "0 < lay_si_len lay"
proof -
  have d: "map_ok d" "connected_map d" "lay = layout_of d" using assms by (simp_all add: replayable_def)
  show f: "layout_fits d lay" using map_ok_parse(2) [OF d(1,2)] d(3) by simp
  have b: "112 + lay_num_vars lay * 144 + lay_si_len lay + lay_buf_len lay \<le> 2097152"
  proof -
    have "112 + lay_num_vars lay * 144 + lay_si_len lay + lay_buf_len lay \<le> MAX_TELEMETRY_SIZE"
      using assms unfolding replayable_def by blast
    then show ?thesis by (simp add: MAX_TELEMETRY_SIZE_def)
  qed
  then show "lay_num_vars lay < 2 ^ 31" "lay_buf_len lay < 2 ^ 31"
    "144 + lay_num_vars lay * 144 + lay_si_len lay < 2 ^ 31" by simp_all
  show "0 < lay_buf_len lay" "0 < lay_num_vars lay" "0 < lay_si_len lay"
    using d(2) unfolding d(3) by (simp_all add: connected_map_def layout_of_def)
  show "length (take (lay_num_vars lay * 144) (drop (lay_vh_off lay) d)) = lay_num_vars lay * 144"
    "length (take (lay_si_len lay) (drop (lay_si_off lay) d)) = lay_si_len lay"
    using f by (auto simp: layout_fits_def min_def)
qed

lemma length_concat_rows: "\<forall>r \<in> set rows. length r = n \<Longrightarrow> length (concat rows) = length rows * n"
  by (induction rows) simp_all

lemma load_image:
  assumes "replayable d lay" "\<forall>r \<in> set rows. length r = lay_buf_len lay" "length sub = 24"
  shows "load_ibt (file_image (file_header lay (144 + lay_num_vars lay * 144) (144 + lay_num_vars lay * 144 + lay_si_len lay))
      tick date sub (take (lay_num_vars lay * 144) (drop (lay_vh_off lay) d) @ take (lay_si_len lay) (drop (lay_si_off lay) d)
        @ concat rows)) = Inr (parts_of d lay rows)"
proof -
  let ?nv = "lay_num_vars lay" and ?L = "lay_si_len lay" and ?n = "lay_buf_len lay"
  let ?A = "144 + ?nv * 144" and ?v = "take (?nv * 144) (drop (lay_vh_off lay) d)" and ?y = "take ?L (drop (lay_si_off lay) d)"
  let ?fh = "file_header lay ?A (?A + ?L)"
  define og where "og = file_image ?fh tick date sub (?v @ ?y @ concat rows)"
  note b = replayable_fits [OF assms(1)]
  have fh: "length ?fh = 112" by simp
  note w = file_image_windows [OF fh assms(3), where t = tick and date = date and body = "?v @ ?y @ concat rows", folded og_def]
  have lc: "length (concat rows) = length rows * ?n" using assms(2) by (rule length_concat_rows)
  have len: "length og = ?A + ?L + length rows * ?n" using w(4) b(6,7) lc by simp
  have rd: "rd_i32 og k = Inr (i32_at ?fh k)" if "k \<le> 36 \<or> k = 52" for k
    using that w(1) [of k] w(2) [of k] len by (auto simp: rd_i32_ok)
  have A: "?A < 2 ^ 31" "?L < 2 ^ 31" using b(5) by simp_all
  have u: "usize_of_i32 (of_nat ?L) = ?L" "usize_of_i32 (of_nat ?A) = ?A" "usize_of_i32 (of_nat ?nv) = ?nv"
    "usize_of_i32 (of_nat ?n) = ?n" "usize_of_i32 (of_nat (?A + ?L)) = ?A + ?L" "usize_of_i32 144 = 144"
    using of_nat_field [OF A(2)] of_nat_field [OF A(1)] of_nat_field [OF b(2)] of_nat_field [OF b(3)] of_nat_field [OF b(5)]
    by (simp_all add: usize_of_i32_nonneg del: of_nat_add of_nat_mult)
  have a: "umul ?nv VARHEADER_SIZE = ?nv * 144" "uadd 144 (?nv * 144) = ?A" "uadd ?A ?L = ?A + ?L"
    using b(5) by (simp_all add: VARHEADER_SIZE_def)
  have d144: "drop (144 + k) og = drop k (?v @ ?y @ concat rows)" for k
    using w(3) by (metis add.commute drop_drop)
  have sl: "slice 144 ?A og = Inr ?v" "slice ?A (?A + ?L) og = Inr ?y"
    using len d144 [of 0] d144 [of "?nv * 144"] b(6,7) by (simp_all add: slice_ok)
  have rows: "map (\<lambda>i. take ?n (drop (?A + ?L + i * ?n) og)) [0..<(length og - (?A + ?L)) div ?n] = rows"
  proof (rule nth_equalityI)
    have k: "(length og - (?A + ?L)) div ?n = length rows" using len b(4) by simp
    then show "length (map (\<lambda>i. take ?n (drop (?A + ?L + i * ?n) og)) [0..<(length og - (?A + ?L)) div ?n]) = length rows" by simp
    fix i assume "i < length (map (\<lambda>i. take ?n (drop (?A + ?L + i * ?n) og)) [0..<(length og - (?A + ?L)) div ?n])"
    then have i: "i < length rows" using k by simp
    have "drop (?A + ?L + i * ?n) og = drop (?nv * 144 + ?L + i * ?n) (?v @ ?y @ concat rows)"
      using d144 [of "?nv * 144 + ?L + i * ?n"] by (simp add: add.assoc)
    also have "\<dots> = drop (i * ?n) (concat rows)" using b(6,7) by simp
    finally show "map (\<lambda>i. take ?n (drop (?A + ?L + i * ?n) og)) [0..<(length og - (?A + ?L)) div ?n] ! i = rows ! i"
      using concat_row [OF assms(2) i] i k by simp
  qed
  have "\<not> length og < ?A + ?L" "?n \<noteq> 0" using len b(4) by simp_all
  then have "load_ibt og = Inr (parts_of d lay rows)"
    unfolding load_ibt_def Let_def
    by (simp add: rd file_header_fields u a sl rows parts_of_def IRSDK_VER_def del: of_nat_add of_nat_mult)
  then show ?thesis unfolding og_def .
qed

section \<open>The round trip\<close>

lemma parts_of_layout:
  assumes "replayable d lay"
  shows "lay_session_time_row_off (parts_layout (parts_of d lay rows)) = lay_session_time_row_off lay"
    "lay_lap_row_off (parts_layout (parts_of d lay rows)) = lay_lap_row_off lay"
    "parts_ok (parts_of d lay rows)"
proof -
  note b = replayable_fits [OF assms]
  let ?v = "take (lay_num_vars lay * 144) (drop (lay_vh_off lay) d)"
  have lay: "lay = layout_of d" and m: "map_ok d" using assms by (simp_all add: replayable_def)
  have "row_off_of ?v 0 (lay_num_vars lay) name = row_off_of d (lay_vh_off lay) (lay_num_vars lay) name" for name
    by (rule row_off_of_window) simp
  moreover have "lay_session_time_row_off lay = row_off_of d (lay_vh_off lay) (lay_num_vars lay) SESSION_TIME"
    "lay_lap_row_off lay = row_off_of d (lay_vh_off lay) (lay_num_vars lay) LAP"
    by (simp_all add: lay) (simp_all add: layout_of_def)
  ultimately show st: "lay_session_time_row_off (parts_layout (parts_of d lay rows)) = lay_session_time_row_off lay"
    "lay_lap_row_off (parts_layout (parts_of d lay rows)) = lay_lap_row_off lay"
    by (simp_all add: parts_layout_def parts_of_def)
  have "row_offs_ok lay" using m lay by (simp add: map_ok_def)
  then have "row_offs_ok (parts_layout (parts_of d lay rows))" unfolding row_offs_ok_def st .
  moreover have "take (lay_si_len lay) (drop (lay_si_off lay) d) \<noteq> []" using b(7,9) by auto
  moreover have "112 + lay_num_vars lay * 144 + lay_si_len lay + lay_buf_len lay \<le> MAX_TELEMETRY_SIZE"
    using assms unfolding replayable_def by blast
  ultimately show "parts_ok (parts_of d lay rows)"
    using b(4,6-8) by (simp add: parts_ok_def parts_of_def)
qed

lemma statistics_cong:
  assumes "lay_session_time_row_off lay' = lay_session_time_row_off lay" "lay_lap_row_off lay' = lay_lap_row_off lay"
  shows "statistics_bytes lay' rows = statistics_bytes lay rows"
proof -
  have "row_time lay' = row_time lay" "row_lap lay' = row_lap lay"
    by (simp_all add: fun_eq_iff row_time_def row_lap_def assms)
  then show ?thesis by (simp add: statistics_bytes_def)
qed

lemma recording_replayed:
  assumes "replayable d lay" "\<forall>r \<in> set rows. length r = lay_buf_len lay" "rows \<noteq> []" "length rows < 2 ^ 31"
    and "io_fine io" "orig = closed_bytes lay date rows tick (prefix_of d lay date @ concat rows)"
  obtains fh sub body t1 t2 w where "length fh = 112" "length sub = 24" "orig = file_image fh t1 date sub body"
    "load_ibt orig = Inr (parts_of d lay rows)" "replay io (parts_of d lay rows) 1 rows ibt_new = Inr w"
    "ibt_disk (finish io w) = [file_image fh t2 (io_now io) sub body]"
proof -
  let ?nv = "lay_num_vars lay" and ?L = "lay_si_len lay" and ?p = "parts_of d lay rows"
  let ?v = "take (?nv * 144) (drop (lay_vh_off lay) d)" and ?y = "take ?L (drop (lay_si_off lay) d)"
  let ?fh = "file_header lay (144 + ?nv * 144) (144 + ?nv * 144 + ?L)" and ?sub = "statistics_bytes lay rows"
  note b = replayable_fits [OF assms(1)] and po = parts_of_layout [OF assms(1), of rows]
  obtain t1 where t1: "orig = file_image ?fh t1 date ?sub (?v @ ?y @ concat rows)"
    unfolding assms(6) using closed_image [OF b(1)] by blast
  then have l: "load_ibt orig = Inr ?p" using load_image [OF assms(1,2)] by simp
  have "\<forall>r \<in> set rows. length r = pt_buf_len ?p" using assms(2) by (simp add: parts_of_def)
  from replay_file [OF po(3) assms(5) this assms(3,4)] obtain w t' m where w: "replay io ?p 1 rows ibt_new = Inr w"
    "take (pt_num_vars ?p * 144) (drop 112 m) = pt_varheaders ?p"
    "take (length (pt_yaml ?p)) (drop (112 + pt_num_vars ?p * 144) m) = pt_yaml ?p"
    "ibt_disk (finish io w) = [closed_bytes (parts_layout ?p) (io_now io) rows t'
      (prefix_of m (parts_layout ?p) (io_now io) @ concat rows)]" by blast
  have pf: "pt_num_vars ?p = ?nv" "pt_yaml ?p = ?y" "pt_varheaders ?p = ?v" "length (pt_yaml ?p) = ?L"
    using b(7) by (simp_all add: parts_of_def)
  have lp: "lay_num_vars (parts_layout ?p) = ?nv" "lay_vh_off (parts_layout ?p) = 112"
    "lay_si_off (parts_layout ?p) = 112 + ?nv * 144" "lay_si_len (parts_layout ?p) = ?L"
    by (simp_all only: parts_layout_def map_layout.select_convs pf(1,4))
  have m: "take (?nv * 144) (drop 112 m) = ?v" "take ?L (drop (112 + ?nv * 144) m) = ?y"
    using w(2,3) by (simp_all only: pf(1,3,4)) (simp only: pf(2))
  have hd: "file_header (parts_layout ?p) x y = file_header lay x y" for x y
    unfolding file_header_def header_fields_def lp by (simp add: parts_layout_def parts_of_def IRSDK_VER_def)
  have "closed_bytes (parts_layout ?p) (io_now io) rows t' (prefix_of m (parts_layout ?p) (io_now io) @ concat rows) =
      file_image ?fh (if rows = [] \<or> t' = I32_MIN then 0 else t') (io_now io) (statistics_bytes (parts_layout ?p) rows)
        (?v @ ?y @ concat rows)"
    unfolding closed_bytes_def prefix_of_def file_image_def statistics_bytes_def subheader_bytes_def lp hd m by simp
  then have "ibt_disk (finish io w) = [file_image ?fh (if rows = [] \<or> t' = I32_MIN then 0 else t') (io_now io) ?sub
      (?v @ ?y @ concat rows)]"
    using w(4) statistics_cong [OF po(1,2)] by simp
  from that [OF _ _ t1 l w(1) this] show ?thesis by simp
qed

lemma same_slice_true:
  assumes "length xs = length ys" "b \<le> length ys" "a \<le> b" "\<And>i. a \<le> i \<Longrightarrow> i < b \<Longrightarrow> xs ! i = ys ! i"
  shows "same_slice a b xs ys = Inr True"
proof -
  have "take (b - a) (drop a xs) = take (b - a) (drop a ys)"
    by (rule nth_equalityI) (use assms in auto)
  then show ?thesis using assms(1-3) by (simp add: same_slice_def slice_ok)
qed

text \<open>The test passes for every recording of the writer with a row in it, and without a sample.\<close>

lemma real_sample_roundtrip_passes:
  assumes "replayable d lay" "\<forall>r \<in> set rows. length r = lay_buf_len lay" "rows \<noteq> []" "length rows < 2 ^ 31"
    and "io_fine io" "orig = closed_bytes lay date rows tick (prefix_of d lay date @ concat rows)"
  shows "passes (real_sample_roundtrip io (Some orig))"
    and "\<exists>p w out. load_ibt orig = Inr p \<and> pt_rows p = rows \<and> replay io p 1 rows ibt_new = Inr w \<and>
      ibt_disk (finish io w) = [out] \<and> length out = length orig \<and>
      (\<forall>i < length orig. \<not> (48 \<le> i \<and> i < 52) \<and> \<not> (112 \<le> i \<and> i < 120) \<longrightarrow> out ! i = orig ! i)"
proof -
  obtain fh sub body t1 t2 w where r: "length fh = 112" "length sub = 24" "orig = file_image fh t1 date sub body"
    "load_ibt orig = Inr (parts_of d lay rows)" "replay io (parts_of d lay rows) 1 rows ibt_new = Inr w"
    "ibt_disk (finish io w) = [file_image fh t2 (io_now io) sub body]"
    by (rule recording_replayed [OF assms])
  define out where "out = file_image fh t2 (io_now io) sub body"
  have len: "length out = length orig" "144 \<le> length orig" using r(1-3) by (simp_all add: out_def file_image_def)
  have same: "out ! i = orig ! i" if "i < length orig" "\<not> (48 \<le> i \<and> i < 52)" "\<not> (112 \<le> i \<and> i < 120)" for i
    using file_image_differs [OF r(1,2), of i t2 "io_now io" body t1 date] that len(1) by (simp add: out_def r(3))
  have p: "pt_rows (parts_of d lay rows) = rows" by (simp add: parts_of_def)
  have "same_slice 0 48 out orig = Inr True" "same_slice 52 112 out orig = Inr True"
    "same_slice 120 144 out orig = Inr True" "same_slice 144 (length orig) out orig = Inr True"
    by (rule same_slice_true; use len same in simp)+
  then show "passes (real_sample_roundtrip io (Some orig))"
    by (simp add: real_sample_roundtrip_def r(4-6) p len(1) flip: out_def)
  show "\<exists>p w out. load_ibt orig = Inr p \<and> pt_rows p = rows \<and> replay io p 1 rows ibt_new = Inr w \<and>
      ibt_disk (finish io w) = [out] \<and> length out = length orig \<and>
      (\<forall>i < length orig. \<not> (48 \<le> i \<and> i < 52) \<and> \<not> (112 \<le> i \<and> i < 120) \<longrightarrow> out ! i = orig ! i)"
    using r(4-6) p len(1) same out_def by blast
qed

lemma real_sample_absent: "passes (real_sample_roundtrip io None)"
  by (simp add: real_sample_roundtrip_def)

text \<open>C20: Recording a recording gives the recording back: play the rows of a session file as live
  maps to a new writer and the file it leaves has the same length and the same bytes, but for the
  tick field and the date.\<close>

theorem ibt_replay_roundtrip:
  assumes "parse_layout d = Inr (Some lay)" "sample_map u (lay_buf_len lay) d" "io_fine io"
    and "\<forall>i\<in>set is. sample_map u (lay_buf_len lay) (fst i) \<and> io_fine (snd i)" "io_fine io'"
    and "length is < 2 ^ 30" "fst (active_sample d) \<noteq> I32_MIN"
    and "112 + lay_num_vars lay * 144 + lay_si_len lay + lay_buf_len lay \<le> MAX_TELEMETRY_SIZE" "io_fine io''"
  shows "\<exists>outs w orig p w' copy. run ibt_step ibt_new ((d, io) # is) = Inr (outs, w) \<and>
    ibt_disk (finish io' w) = [orig] \<and> load_ibt orig = Inr p \<and>
    pt_rows p = tick_rows (lay_buf_len lay) I32_MIN (d # List.map fst is) \<and>
    replay io'' p 1 (pt_rows p) ibt_new = Inr w' \<and> ibt_disk (finish io'' w') = [copy] \<and> length copy = length orig \<and>
    (\<forall>i < length orig. \<not> (48 \<le> i \<and> i < 52) \<and> \<not> (112 \<le> i \<and> i < 120) \<longrightarrow> copy ! i = orig ! i)"
proof -
  let ?n = "lay_buf_len lay"
  let ?rows = "tick_rows ?n I32_MIN (d # List.map fst is)"
  obtain outs w prefix where w: "run ibt_step ibt_new ((d, io) # is) = Inr (outs, w)"
    "build_prefix d lay (io_now io) = Inr prefix"
    "ibt_disk (finish io' w) = [closed_bytes lay (io_now io) ?rows (fst (active_sample (last (d # List.map fst is))))
       (prefix @ concat ?rows)]"
    using session_leaves [OF assms(1-6)] unfolding Let_def by blast
  have d: "map_ok d" "connected_map d" using assms(2) by (simp_all add: sample_map_def)
  then have lay: "lay = layout_of d" using map_ok_parse(1) [OF d(1)] assms(1) by simp
  then have "replayable d lay" using d assms(8) unfolding replayable_def by blast
  moreover have "prefix = prefix_of d lay (io_now io)"
    using w(2) build_prefix_eq [OF replayable_fits(1) [OF calculation]] by simp
  moreover have "\<forall>r \<in> set ?rows. length r = ?n"
    by (rule tick_rows_full) (use assms(2,4) in \<open>auto simp: sample_map_def\<close>)
  moreover have "?rows \<noteq> []" using assms(7) by (simp add: split_beta)
  moreover have "length ?rows < 2 ^ 31" using length_tick_rows [of ?n I32_MIN "d # List.map fst is"] assms(6) by simp
  ultimately show ?thesis
    using real_sample_roundtrip_passes(2) [OF _ _ _ _ assms(9)] w(1,3) by metis
qed

theorem ibt_replay_roundtrip_witness:
  "\<exists>outs w orig p w' copy. run ibt_step ibt_new [(demo_ibt 5 [1, 2], demo_io), (demo_ibt 6 [3, 4], demo_io)] = Inr (outs, w) \<and>
     ibt_disk (finish demo_io w) = [orig] \<and> load_ibt orig = Inr p \<and> pt_rows p = [[1, 2], [3, 4]] \<and>
     replay demo_io p 1 [[1, 2], [3, 4]] ibt_new = Inr w' \<and> ibt_disk (finish demo_io w') = [copy] \<and>
     length copy = length orig"
proof -
  let ?d = "demo_ibt 5 [1, 2]" and ?e = "demo_ibt 6 [3, 4]"
  have p: "parse_layout ?d = Inr (Some (layout_of ?d))" by (rule demo_ibt_ok) simp
  have rows: "tick_rows 2 I32_MIN [?d, ?e] = [[1, 2], [3, 4]]"
    by (simp add: demo_ibt_ok demo_ibt_row I32_MIN_def)
  have l: "lay_buf_len (layout_of ?d) = 2" "lay_num_vars (layout_of ?d) = 1" "lay_si_len (layout_of ?d) = 1"
    by (simp_all add: demo_ibt_layout)
  have s: "sample_map 0 (lay_buf_len (layout_of ?d)) ?d" "sample_map 0 (lay_buf_len (layout_of ?d)) ?e"
    by (simp_all only: l) (simp_all add: demo_ibt_ok)
  have "\<forall>i \<in> set [(?e, demo_io)]. sample_map 0 (lay_buf_len (layout_of ?d)) (fst i) \<and> io_fine (snd i)"
    using s(2) demo_io_fine by simp
  moreover have "fst (active_sample ?d) \<noteq> I32_MIN" by (simp add: demo_ibt_ok I32_MIN_def)
  moreover have "112 + lay_num_vars (layout_of ?d) * 144 + lay_si_len (layout_of ?d) + lay_buf_len (layout_of ?d) \<le> MAX_TELEMETRY_SIZE"
    by (simp add: l MAX_TELEMETRY_SIZE_def)
  moreover have "length [(?e, demo_io)] < 2 ^ 30" by simp
  ultimately obtain outs w orig q w' copy where
    "run ibt_step ibt_new ((?d, demo_io) # [(?e, demo_io)]) = Inr (outs, w)" "ibt_disk (finish demo_io w) = [orig]"
    "load_ibt orig = Inr q" "pt_rows q = tick_rows (lay_buf_len (layout_of ?d)) I32_MIN (?d # List.map fst [(?e, demo_io)])"
    "replay demo_io q 1 (pt_rows q) ibt_new = Inr w'" "ibt_disk (finish demo_io w') = [copy]" "length copy = length orig"
    using ibt_replay_roundtrip [OF p s(1) demo_io_fine _ demo_io_fine _ _ _ demo_io_fine] by blast
  then show ?thesis using rows by (auto simp: l simp del: tick_rows.simps run.simps)
qed

end
