(* ===== verification/Spec2Isabelle.thy ===== *)
theory Spec2Isabelle
  imports Xor_Delta Transport Misassembly Windows_Map Stats Source_Props Ibt_Session Loss_Mask Target_Ibt Target_Safety Startup
    Fanalab_Stub Protocol_Tests Ibt_Replay
begin

text \<open>
  iRacing Teleport: a verification library for \<open>src/teleport\<close>.

  The program. A source on the racing PC reads iRacing's shared-memory map and streams it over
  UDP; a target on another PC rebuilds the map there, so that dashboards see a local simulator. A
  message is either a session-info frame (the static prefix of the map, marked by the offset
  \<open>u32::MAX\<close>) or a partial frame (the 112-byte header and the newest variable buffer, XOR-ed with
  the frame before when bit 31 of the offset is set). Messages are compressed with LZ4, cut into
  datagrams with a 24-byte header and reassembled by sequence number. The target asks for a
  session-info frame with a two-byte packet while it has none.

  The theories, in the order of the imports, and what they model.

  \<^item> \<open>Rust_Prelude\<close>, \<open>Machine\<close>: panics as values (\<open>'a rust\<close>), slices, little-endian integers, the
    cast to \<open>usize\<close>; runs of a step function, the locales \<open>machine\<close> and \<open>safe_machine\<close> for an
    invariant that every step keeps, and the run lemmas proved once inside them.
  \<^item> \<open>Xor_Delta\<close>, \<open>Wire_Header\<close>, \<open>Proto_Sender\<close>, \<open>Proto_Receiver\<close>, \<open>Reassembly\<close>, \<open>Transport\<close>:
    \<open>protocol.rs\<close>. \<open>send\<close> and \<open>ingest\<close> are the whole of \<open>Sender::send\<close> and \<open>Receiver::ingest\<close>, the
    socket a state transformer. The lemmas go from one datagram (\<open>ingest_data\<close>) over the set of
    fragments received so far to whole messages in any order. \<open>Misassembly\<close>: the two situations in
    which something is assembled that was not sent.
  \<^item> \<open>Telemetry_Map\<close>: the three readers of the live header (\<open>active_var_buf\<close> of
    \<open>telemetry/windows.rs\<close>, \<open>session_info_end\<close> of \<open>source.rs\<close>, \<open>active_varbuf\<close> of \<open>ibt_writer.rs\<close>).
    \<open>Windows_Map\<close>: the life of the mapping as traces of Win32 calls. \<open>Stats\<close>: \<open>stats.rs\<close>.
  \<^item> \<open>Source_Loop\<close>, \<open>Source_Step\<close>, \<open>Source_Props\<close>: the loop of \<open>source::run\<close>. One iteration is
    \<open>source_step\<close>; each read of the live map and of the clock is a separate reading of its
    environment, so iRacing may write between any two of them.
  \<^item> \<open>Ibt_Layout\<close>, \<open>Ibt_Writer\<close>, \<open>Ibt_Session\<close>: \<open>ibt_writer.rs\<close>, files as byte strings with a
    position and every answer of the operating system an argument. \<open>Ibt_File\<close>: the exact bytes of the
    file a session leaves, with the lap and time statistics of its closing patch.
  \<^item> \<open>Target_Loop\<close>, \<open>Target_Step\<close>: the loop of \<open>target::run\<close>. One iteration is \<open>target_step\<close>; it
    returns its visible actions in order, every content of the shared map included.
    \<open>Target_Display\<close>: an abstract display (a map, two flags, a delta reference) as an inductive
    relation, and the proof that the loop refines it. \<open>Target_Props\<close>, \<open>Target_Ibt\<close>: what each kind of
    message does. \<open>Target_Safety\<close>: where the loop can panic. \<open>Target_Demo\<close>: the concrete target that
    the witnesses run.
  \<^item> \<open>Delta_Link\<close>, \<open>Mirror\<close>, \<open>Mirror_Demo\<close>, \<open>Healing\<close>, \<open>Loss_Mask\<close>: the two programs together. The
    locale \<open>delta_link\<close> is the contract between the source's encoder and the target's decoder, and
    \<open>masked_link\<close> the finer one that also says what a frame becomes when their references differ;
    \<open>exchange\<close> is an iteration of the source and the iterations of the target that receive it.
  \<^item> \<open>Addresses\<close>, \<open>Startup\<close>, \<open>Fanalab_Stub\<close>: \<open>lib.rs\<close>, \<open>main.rs\<close>, the two binaries, \<open>platform.rs\<close>,
    the set-up parts of the two \<open>run\<close> functions, \<open>telemetry/mock.rs\<close>, and how the stub's executable is
    put in place.
  \<^item> \<open>Protocol_Tests\<close>, \<open>Ibt_Tests\<close>, \<open>Ibt_Replay\<close>: the unit tests of \<open>protocol.rs\<close> and \<open>ibt_writer.rs\<close>
    as programs over the model, each proved to pass. The recording that the last one reads is an
    argument; it passes for every file that the writer leaves.

  What is shown. End to end: from the start of both programs and over a network that loses
  nothing, each partial frame leaves the target's map with the header and the variable buffer the
  source read (\<open>live_map_mirrored\<close>); whatever was lost before, one keyframe that arrives whole at a
  target that has a session-info frame and is not in the middle of a message of the same number
  restores this (\<open>keyframe_heals\<close>), and a keyframe comes at the latest after \<open>keyframe_interval\<close>
  frames (\<open>deltas_follow_keyframe\<close>); until then every frame is the live one exclusive-or the
  difference of the two references (\<open>lost_frame_leaves_mask\<close>). Transport: fragments with repetitions and in any order
  give the payload once, as long as the final one is not the first of a message cut for another than
  the default size (\<open>reassembly_any_order\<close>); no datagram makes the receiver panic (\<open>ingest_total\<close>).
  Source: what each frame contains, torn copies dropped, no panic on sane maps. Target: refinement
  of the display, the order of the writes (variable data before the header, the status field never
  by a session-info frame), no panic but in the disk writer on a map that is not sane, the stale
  timeout, the resync requests, and that the map is as the system handed it out until a session-info
  frame has come (\<open>untouched_until_session_info\<close>). Disk writer: a
  session is one file known byte for byte (\<open>ibt_session_file\<close>), whose prefix parses back and whose rows,
  played to a new writer, give the same file (\<open>ibt_replay_roundtrip\<close>). Start-up: nothing leaks, the defaults
  of the two sides meet, and an error names the call or the text it is about. Several properties state where the code falls short of its comments: a
  stalled source is silent (\<open>stalled_source_is_silent\<close>; where data is not signalled at all,
  heartbeats are a second apart and never overdue, \<open>idle_heartbeat\<close>), an interrupted send mixes two
  messages, a final fragment that comes first is misplaced, a session-info frame adds a stale row to
  the disk file, the map is closed as last written.

  Parameters and their contracts. The LZ4 functions are arguments. The loops need nothing of them
  but that the decompressor keeps to its buffer (\<open>decoder_ok\<close>); the end-to-end theorems assume the
  documented round trip and that every payload up to the size of the map fits 256 datagrams
  (\<open>link_ok\<close>). At the default datagram size 256 datagrams carry 2.3 MB, more than the 2 MB map, so this
  can hold there; at small sizes such as 1472 it asks for a better compression than a lossless one
  has on every payload, and the end-to-end theorems then say nothing. Sockets, clocks and the
  operating system are arguments whose answers are unconstrained. The bytes of a region that
  \<open>CreateFileMappingW\<close> hands out are the environment's too (\<open>te_create\<close>): zeros when it is new, and what
  another process left in it when that process still holds one of the name. It is taken to have the
  size that was asked for.

  Bounds and fuel. No definition uses fuel: the loops of the code are steps over a list of
  environments, and the loops within a step are structural recursions. Integers have the width
  of the code and wrap as in the release profile; lengths are \<open>nat\<close>, with the casts to \<open>usize\<close>
  written out where a value comes from a map or a datagram. Instants are unbounded microseconds,
  so the subtractions from \<open>Instant::now()\<close> at the start of the loops cannot fail as they could within
  ten seconds of the clock's origin; debug assertions are left out, as in the release profile.

  Not modelled: the texts printed, the floating-point rates in the statistics, the command-line
  parser (a third-party macro; the default values are modelled), the security descriptor and raw
  pointers behind the map, and the name of a disk file beyond its number.
\<close>

end
